(* ===== verification/Prelude.thy ===== *)
theory Prelude
  imports Complex_Main "HOL-Library.Word" "HOL-Library.Sublist"
begin

text \<open>
  What every component shares: bytes, Python exceptions as values, the
  state-and-exception monad in which the handlers are written, its symbolic-execution
  rules (collection \<open>py_simps\<close>) and its invariant calculus (\<open>keeps\<close>, collection
  \<open>keeps_intro\<close>), Python slices, and Python dictionaries as association lists that
  keep insertion order.
\<close>

named_theorems py_simps \<open>symbolic execution of monadic handlers\<close>
named_theorems keeps_intro \<open>preservation of a state predicate by a handler\<close>
named_theorems raises_intro \<open>which exceptions a handler lets escape\<close>

section \<open>Bytes and exceptions\<close>

type_synonym byte = "8 word"
type_synonym bytes = "byte list"

text \<open>
  The classes of the exceptions the sources raise or meet. \<open>JsonKind\<close> and
  \<open>UnicodeKind\<close> are subclasses of \<open>ValueError\<close>; \<open>ConnectionKind\<close>,
  \<open>TimeoutKind\<close> and \<open>FileNotFoundKind\<close> of \<open>OSError\<close>.
\<close>

datatype exc_kind =
    ConnectionKind | TimeoutKind | OSKind | ProtocolKind | ValueKind | KeyKind | TypeKind
  | AttributeKind | RuntimeKind | InvalidTagKind | InvalidSignatureKind | ZeroDivisionKind
  | OverflowKind | StructKind | UnicodeKind | JsonKind | FileNotFoundKind
  | IndexKind | AssertionKind | SystemExitKind

text \<open>
  \<open>Raised k m\<close> is an exception of class \<open>k\<close> whose text \<open>m\<close> the repository's own code
  writes; \<open>LibRaised k\<close> is one raised inside the interpreter or a library, whose text the
  code never inspects.
\<close>

datatype exc = Raised exc_kind string | LibRaised exc_kind

fun exc_kind_of :: "exc \<Rightarrow> exc_kind" where
  "exc_kind_of (Raised k m) = k"
| "exc_kind_of (LibRaised k) = k"

definition is_connection_error :: "exc \<Rightarrow> bool" where
  "is_connection_error e = (exc_kind_of e = ConnectionKind)"

definition is_timeout_error :: "exc \<Rightarrow> bool" where
  "is_timeout_error e = (exc_kind_of e = TimeoutKind)"

definition is_os_error :: "exc \<Rightarrow> bool" where
  "is_os_error e = (exc_kind_of e \<in> {ConnectionKind, TimeoutKind, OSKind, FileNotFoundKind})"

definition is_value_error :: "exc \<Rightarrow> bool" where
  "is_value_error e = (exc_kind_of e \<in> {ValueKind, UnicodeKind, JsonKind})"

text \<open>
  \<open>except Exception\<close> does not catch \<open>SystemExit\<close>.
\<close>

definition is_exception :: "exc \<Rightarrow> bool" where
  "is_exception e = (exc_kind_of e \<noteq> SystemExitKind)"

text \<open>\<open>str(e)\<close>; \<open>lib\<close> gives the text of the library's own exceptions.\<close>

fun exc_str :: "(exc_kind \<Rightarrow> string) \<Rightarrow> exc \<Rightarrow> string" where
  "exc_str lib (Raised k m) = m"
| "exc_str lib (LibRaised k) = lib k"

lemmas exc_class_defs = is_connection_error_def is_timeout_error_def is_os_error_def
  is_value_error_def is_exception_def

section \<open>Pure fallible results\<close>

definition rbind :: "exc + 'a \<Rightarrow> ('a \<Rightarrow> exc + 'b) \<Rightarrow> exc + 'b" where
  "rbind r f = (case r of Inl e \<Rightarrow> Inl e | Inr x \<Rightarrow> f x)"

lemma rbind_simps [simp]: "rbind (Inl e) f = Inl e" "rbind (Inr x) f = f x"
  by (simp_all add: rbind_def)

lemma rbind_Inr_iff: "rbind r f = Inr y \<longleftrightarrow> (\<exists>x. r = Inr x \<and> f x = Inr y)"
  by (cases r) auto

lemma rbind_Inl_iff:
  "rbind r f = Inl e \<longleftrightarrow> r = Inl e \<or> (\<exists>x. r = Inr x \<and> f x = Inl e)"
  by (cases r) auto

text \<open>A comprehension \<open>[f(x) for x in xs]\<close> whose body may raise.\<close>

fun rmap :: "('a \<Rightarrow> exc + 'b) \<Rightarrow> 'a list \<Rightarrow> exc + 'b list" where
  "rmap f [] = Inr []"
| "rmap f (x # xs) = rbind (f x) (\<lambda>y. rbind (rmap f xs) (\<lambda>ys. Inr (y # ys)))"

text \<open>A left fold whose step may raise.\<close>

fun rfold :: "('b \<Rightarrow> 'a \<Rightarrow> exc + 'b) \<Rightarrow> 'b \<Rightarrow> 'a list \<Rightarrow> exc + 'b" where
  "rfold f b [] = Inr b"
| "rfold f b (x # xs) = rbind (f b x) (\<lambda>b'. rfold f b' xs)"

lemma rmap_Inr: "(\<And>x. x \<in> set xs \<Longrightarrow> f x = Inr (g x)) \<Longrightarrow> rmap f xs = Inr (map g xs)"
  by (induction xs) auto

lemma rmap_length: "rmap f xs = Inr ys \<Longrightarrow> length ys = length xs"
  by (induction xs arbitrary: ys) (auto simp: rbind_Inr_iff)

section \<open>The handler monad\<close>

text \<open>
  A Python method over the state \<open>'s\<close> (the object, its socket, its sources of randomness
  and time): it returns a value or raises, and in both cases what it assigned so far stays.
\<close>

type_synonym ('s, 'a) py = "'s \<Rightarrow> (exc + 'a) \<times> 's"

definition ret :: "'a \<Rightarrow> ('s, 'a) py" where
  "ret x = (\<lambda>s. (Inr x, s))"

definition raise :: "exc \<Rightarrow> ('s, 'a) py" where
  "raise e = (\<lambda>s. (Inl e, s))"

definition bnd :: "('s, 'a) py \<Rightarrow> ('a \<Rightarrow> ('s, 'b) py) \<Rightarrow> ('s, 'b) py" where
  "bnd m k = (\<lambda>s. case m s of (Inl e, s') \<Rightarrow> (Inl e, s') | (Inr x, s') \<Rightarrow> k x s')"

definition seq :: "('s, 'a) py \<Rightarrow> ('s, 'b) py \<Rightarrow> ('s, 'b) py" where
  "seq m n = bnd m (\<lambda>_. n)"

definition gets :: "('s \<Rightarrow> 'a) \<Rightarrow> ('s, 'a) py" where
  "gets f = (\<lambda>s. (Inr (f s), s))"

definition modify :: "('s \<Rightarrow> 's) \<Rightarrow> ('s, unit) py" where
  "modify f = (\<lambda>s. (Inr (), f s))"

definition lift :: "exc + 'a \<Rightarrow> ('s, 'a) py" where
  "lift r = (\<lambda>s. (r, s))"

definition getr :: "('s \<Rightarrow> exc + 'a) \<Rightarrow> ('s, 'a) py" where
  \<comment> \<open>an expression over the state that may raise\<close>
  "getr f = (\<lambda>s. (f s, s))"

text \<open>\<open>try: m except ...: h\<close>; a handler that does not match re-raises.\<close>

definition try_except :: "('s, 'a) py \<Rightarrow> (exc \<Rightarrow> ('s, 'a) py) \<Rightarrow> ('s, 'a) py" where
  "try_except m h = (\<lambda>s. case m s of (Inl e, s') \<Rightarrow> h e s' | (Inr x, s') \<Rightarrow> (Inr x, s'))"

text \<open>\<open>try: m except: h else: k\<close>, for a \<open>return\<close> or \<open>continue\<close> in the except clause.\<close>

definition try_else ::
  "('s, 'a) py \<Rightarrow> (exc \<Rightarrow> ('s, 'b) py) \<Rightarrow> ('a \<Rightarrow> ('s, 'b) py) \<Rightarrow> ('s, 'b) py" where
  "try_else m h k = (\<lambda>s. case m s of (Inl e, s') \<Rightarrow> h e s' | (Inr x, s') \<Rightarrow> k x s')"

text \<open>\<open>try: m finally: f\<close>, for a finaliser that does not raise or return.\<close>

definition try_finally :: "('s, 'a) py \<Rightarrow> ('s \<Rightarrow> 's) \<Rightarrow> ('s, 'a) py" where
  "try_finally m f = (\<lambda>s. case m s of (r, s') \<Rightarrow> (r, f s'))"

lemma ret_apply [simp, py_simps]: "ret x s = (Inr x, s)"
  and raise_apply [simp, py_simps]: "raise e s = (Inl e, s)"
  and gets_apply [simp, py_simps]: "gets f s = (Inr (f s), s)"
  and modify_apply [simp, py_simps]: "modify g s = (Inr (), g s)"
  and lift_apply [simp, py_simps]: "lift r s = (r, s)"
  by (simp_all add: ret_def raise_def gets_def modify_def lift_def)

lemma getr_apply [simp, py_simps]: "getr f s = (f s, s)"
  by (simp add: getr_def)

lemma bnd_getr: "bnd (getr f) k s = (case f s of Inl e \<Rightarrow> (Inl e, s) | Inr x \<Rightarrow> k x s)"
  by (simp add: bnd_def)

lemma bnd_getr_Inr: "f s = Inr x \<Longrightarrow> bnd (getr f) k s = k x s"
  and bnd_getr_Inl: "f s = Inl e \<Longrightarrow> bnd (getr f) k s = (Inl e, s)"
  by (simp_all add: bnd_def)

lemma bnd_ret [simp, py_simps]: "bnd (ret x) k = k x"
  by (simp add: bnd_def fun_eq_iff)

lemma bnd_raise [simp, py_simps]: "bnd (raise e) k = raise e"
  by (simp add: bnd_def fun_eq_iff)

lemma bnd_gets [simp, py_simps]: "bnd (gets f) k s = k (f s) s"
  by (simp add: bnd_def)

lemma bnd_modify [simp, py_simps]: "bnd (modify g) k s = k () (g s)"
  by (simp add: bnd_def)

lemma bnd_lift_Inr [simp, py_simps]: "bnd (lift (Inr x)) k = k x"
  by (simp add: bnd_def fun_eq_iff)

lemma bnd_lift_Inl [simp, py_simps]: "bnd (lift (Inl e)) k = raise e"
  by (simp add: bnd_def fun_eq_iff)

lemma bnd_assoc [simp, py_simps]: "bnd (bnd m f) g = bnd m (\<lambda>x. bnd (f x) g)"
  by (auto simp: bnd_def fun_eq_iff split: prod.splits sum.splits)

lemma bnd_Inr: "m s = (Inr x, s') \<Longrightarrow> bnd m k s = k x s'"
  and bnd_Inl: "m s = (Inl e, s') \<Longrightarrow> bnd m k s = (Inl e, s')"
  by (simp_all add: bnd_def)

lemma seq_ret [simp, py_simps]: "seq (ret x) n = n"
  by (simp add: seq_def)

lemma seq_raise [simp, py_simps]: "seq (raise e) n = raise e"
  by (simp add: seq_def)

lemma seq_modify [simp, py_simps]: "seq (modify g) n s = n (g s)"
  by (simp add: seq_def)

lemma seq_bnd [simp, py_simps]: "seq (bnd m k) n = bnd m (\<lambda>x. seq (k x) n)"
  by (simp add: seq_def)

lemma seq_seq [simp, py_simps]: "seq (seq m n) p = seq m (seq n p)"
  by (simp add: seq_def)

lemma bnd_seq [simp, py_simps]: "bnd (seq m n) k = seq m (bnd n k)"
  by (simp add: seq_def)

lemma seq_Inr: "m s = (Inr x, s') \<Longrightarrow> seq m n s = n s'"
  and seq_Inl: "m s = (Inl e, s') \<Longrightarrow> seq m n s = (Inl e, s')"
  by (simp_all add: seq_def bnd_def)

lemma try_else_Inr: "m s = (Inr x, s') \<Longrightarrow> try_else m h k s = k x s'"
  and try_else_Inl: "m s = (Inl e, s') \<Longrightarrow> try_else m h k s = h e s'"
  and try_except_Inr: "m s = (Inr x, s') \<Longrightarrow> try_except m h' s = (Inr x, s')"
  and try_except_Inl: "m s = (Inl e, s') \<Longrightarrow> try_except m h' s = h' e s'"
  and try_finally_eq: "m s = (r, s') \<Longrightarrow> try_finally m f s = (r, f s')"
  by (simp_all add: try_else_def try_except_def try_finally_def)

lemma bnd_eq_Inr_iff:
  "bnd m k s = (Inr y, t) \<longleftrightarrow> (\<exists>x u. m s = (Inr x, u) \<and> k x u = (Inr y, t))"
  by (auto simp: bnd_def split: prod.splits sum.splits)

lemma seq_eq_Inr_iff:
  "seq m n s = (Inr y, t) \<longleftrightarrow> (\<exists>x u. m s = (Inr x, u) \<and> n u = (Inr y, t))"
  by (simp add: seq_def bnd_eq_Inr_iff)

text \<open>Running a composition backwards, whether it returned or raised.\<close>

lemma bnd_cases:
  assumes "bnd m k s = (r, t)"
  obtains e where "m s = (Inl e, t)" "r = Inl e" | x u where "m s = (Inr x, u)" "k x u = (r, t)"
  using assms by (auto simp: bnd_def split: prod.splits sum.splits)

lemma seq_cases:
  assumes "seq m n s = (r, t)"
  obtains e where "m s = (Inl e, t)" "r = Inl e" | x u where "m s = (Inr x, u)" "n u = (r, t)"
  using assms unfolding seq_def by (rule bnd_cases)

section \<open>What a handler keeps\<close>

text \<open>
  \<open>keeps P m\<close>: whenever \<open>P\<close> holds before \<open>m\<close> it holds after, whether \<open>m\<close> returned or
  raised. \<open>keeps\<close> composes along every combinator, so an invariant of a component is
  proved once per primitive.
\<close>

definition keeps :: "('s \<Rightarrow> bool) \<Rightarrow> ('s, 'a) py \<Rightarrow> bool" where
  "keeps P m \<longleftrightarrow> (\<forall>s. P s \<longrightarrow> P (snd (m s)))"

lemma keepsI: "(\<And>s r t. P s \<Longrightarrow> m s = (r, t) \<Longrightarrow> P t) \<Longrightarrow> keeps P m"
  by (metis keeps_def prod.collapse)

lemma keepsD: "keeps P m \<Longrightarrow> P s \<Longrightarrow> m s = (r, t) \<Longrightarrow> P t"
  by (metis keeps_def snd_conv)

lemma keeps_ret [keeps_intro]: "keeps P (ret x)"
  and keeps_raise [keeps_intro]: "keeps P (raise e)"
  and keeps_gets [keeps_intro]: "keeps P (gets f)"
  and keeps_lift [keeps_intro]: "keeps P (lift r)"
  and keeps_modify: "(\<And>s. P s \<Longrightarrow> P (g s)) \<Longrightarrow> keeps P (modify g)"
  by (simp_all add: keeps_def)

lemma keeps_getr [keeps_intro]: "keeps P (getr f)"
  by (simp add: keeps_def)

lemma keeps_bnd [keeps_intro]: "keeps P m \<Longrightarrow> (\<And>x. keeps P (k x)) \<Longrightarrow> keeps P (bnd m k)"
  unfolding keeps_def bnd_def by (auto split: prod.splits sum.splits)

lemma keeps_seq [keeps_intro]: "keeps P m \<Longrightarrow> keeps P n \<Longrightarrow> keeps P (seq m n)"
  by (simp add: seq_def keeps_bnd)

lemma keeps_try_except [keeps_intro]:
  "keeps P m \<Longrightarrow> (\<And>e. keeps P (h e)) \<Longrightarrow> keeps P (try_except m h)"
  by (auto simp: keeps_def try_except_def split: prod.splits sum.splits)

lemma keeps_try_else [keeps_intro]:
  "keeps P m \<Longrightarrow> (\<And>e. keeps P (h e)) \<Longrightarrow> (\<And>x. keeps P (k x)) \<Longrightarrow> keeps P (try_else m h k)"
  by (auto simp: keeps_def try_else_def split: prod.splits sum.splits)

lemma keeps_try_finally:
  "keeps P m \<Longrightarrow> (\<And>s. P s \<Longrightarrow> P (f s)) \<Longrightarrow> keeps P (try_finally m f)"
  by (auto simp: keeps_def try_finally_def split: prod.splits)

lemma keeps_if [keeps_intro]:
  "(b \<Longrightarrow> keeps P m) \<Longrightarrow> (\<not> b \<Longrightarrow> keeps P n) \<Longrightarrow> keeps P (if b then m else n)"
  by simp

lemma keeps_option [keeps_intro]:
  "(x = None \<Longrightarrow> keeps P m) \<Longrightarrow> (\<And>y. x = Some y \<Longrightarrow> keeps P (k y)) \<Longrightarrow>
   keeps P (case x of None \<Rightarrow> m | Some y \<Rightarrow> k y)"
  by (cases x) auto

lemma keeps_Let [keeps_intro]: "keeps P (k x) \<Longrightarrow> keeps P (let y = x in k y)"
  by simp

section \<open>What a handler raises\<close>

text \<open>\<open>raises Q m\<close>: every exception that escapes from \<open>m\<close> satisfies \<open>Q\<close>.\<close>

definition raises :: "(exc \<Rightarrow> bool) \<Rightarrow> ('s, 'a) py \<Rightarrow> bool" where
  "raises Q m \<longleftrightarrow> (\<forall>s e t. m s = (Inl e, t) \<longrightarrow> Q e)"

lemma raisesI: "(\<And>s e t. m s = (Inl e, t) \<Longrightarrow> Q e) \<Longrightarrow> raises Q m"
  by (auto simp: raises_def)

lemma raisesD: "raises Q m \<Longrightarrow> m s = (Inl e, t) \<Longrightarrow> Q e"
  by (auto simp: raises_def)

lemma raises_ret [raises_intro]: "raises Q (ret x)"
  by (simp add: raises_def)

lemma raises_gets [raises_intro]: "raises Q (gets f)"
  by (simp add: raises_def)

lemma raises_modify [raises_intro]: "raises Q (modify g)"
  by (simp add: raises_def)

lemma raises_raise: "Q e \<Longrightarrow> raises Q (raise e)"
  by (simp add: raises_def)

lemma raises_bnd [raises_intro]: "raises Q m \<Longrightarrow> (\<And>x. raises Q (k x)) \<Longrightarrow> raises Q (bnd m k)"
  unfolding raises_def bnd_def by (auto split: prod.splits sum.splits)

lemma raises_seq [raises_intro]: "raises Q m \<Longrightarrow> raises Q n \<Longrightarrow> raises Q (seq m n)"
  by (simp add: seq_def raises_bnd)

lemma raises_if [raises_intro]:
  "(b \<Longrightarrow> raises Q m) \<Longrightarrow> (\<not> b \<Longrightarrow> raises Q n) \<Longrightarrow> raises Q (if b then m else n)"
  by simp

text \<open>\<open>except Exception\<close> whose body raises nothing but what it does not catch.\<close>

lemma raises_catch [raises_intro]:
  "(\<And>e. is_exception e \<Longrightarrow> raises (\<lambda>e. \<not> is_exception e) (h e)) \<Longrightarrow>
   raises (\<lambda>e. \<not> is_exception e) (try_except m (\<lambda>e. if is_exception e then h e else raise e))"
  unfolding raises_def try_except_def by (auto split: prod.splits sum.splits if_splits)

section \<open>Python slices\<close>

text \<open>\<open>xs[i:]\<close>, \<open>xs[:-n]\<close>, \<open>xs[-n:]\<close> and \<open>xs[i:j]\<close> for non-negative \<open>i\<close>, \<open>j\<close>, \<open>n\<close>.\<close>

definition slice :: "nat \<Rightarrow> nat \<Rightarrow> 'a list \<Rightarrow> 'a list" where
  "slice i j xs = drop i (take j xs)"

definition slice_neg_stop :: "nat \<Rightarrow> nat \<Rightarrow> 'a list \<Rightarrow> 'a list" where
  \<comment> \<open>\<open>xs[i:-n]\<close>; with \<open>n = 0\<close> Python reads \<open>xs[i:0]\<close>\<close>
  "slice_neg_stop i n xs = (if n = 0 then [] else drop i (take (length xs - n) xs))"

definition slice_neg_start :: "nat \<Rightarrow> 'a list \<Rightarrow> 'a list" where
  \<comment> \<open>\<open>xs[-n:]\<close>; with \<open>n = 0\<close> Python reads \<open>xs[0:]\<close>\<close>
  "slice_neg_start n xs = (if n = 0 then xs else drop (length xs - n) xs)"

lemma slice_append_exact [simp]:
  "length xs = i \<Longrightarrow> length ys = n \<Longrightarrow> slice i (i + n) (xs @ ys @ zs) = ys"
  by (simp add: slice_def)

lemma slice_0 [simp]: "slice 0 j xs = take j xs"
  by (simp add: slice_def)

lemma append_eq_split:
  "length a = length c \<Longrightarrow> a @ b = c @ d \<longleftrightarrow> a = c \<and> b = d"
  by simp

section \<open>Python dictionaries\<close>

text \<open>
  A dict is an association list in insertion order: assigning to a present key keeps its
  place, a new key goes to the end.
\<close>

type_synonym ('k, 'v) pydict = "('k \<times> 'v) list"

fun dict_set :: "'k \<Rightarrow> 'v \<Rightarrow> ('k, 'v) pydict \<Rightarrow> ('k, 'v) pydict" where
  "dict_set k v [] = [(k, v)]"
| "dict_set k v ((k', v') # d) = (if k = k' then (k, v) # d else (k', v') # dict_set k v d)"

definition dict_setdefault :: "'k \<Rightarrow> 'v \<Rightarrow> ('k, 'v) pydict \<Rightarrow> ('k, 'v) pydict" where
  "dict_setdefault k v d = (if map_of d k = None then dict_set k v d else d)"

definition dict_del :: "'k \<Rightarrow> ('k, 'v) pydict \<Rightarrow> ('k, 'v) pydict" where
  "dict_del k d = filter (\<lambda>p. fst p \<noteq> k) d"

abbreviation dict_keys :: "('k, 'v) pydict \<Rightarrow> 'k list" where
  "dict_keys d \<equiv> map fst d"

abbreviation dict_ok :: "('k, 'v) pydict \<Rightarrow> bool" where
  "dict_ok d \<equiv> distinct (dict_keys d)"

lemma map_of_dict_set [simp]: "map_of (dict_set k v d) = (map_of d)(k \<mapsto> v)"
  by (induction k v d rule: dict_set.induct) auto

lemma keys_dict_set [simp]: "set (dict_keys (dict_set k v d)) = insert k (set (dict_keys d))"
  by (induction k v d rule: dict_set.induct) auto

lemma dict_ok_set [simp]: "dict_ok d \<Longrightarrow> dict_ok (dict_set k v d)"
proof (induction k v d rule: dict_set.induct)
  case (2 k v k' v' d)
  then show ?case
    using keys_dict_set [of k v d] by (simp del: keys_dict_set)
qed simp

lemma dict_set_fresh: "k \<notin> set (dict_keys d) \<Longrightarrow> dict_set k v d = d @ [(k, v)]"
  by (induction d) auto

lemma dict_keys_set:
  "dict_keys (dict_set k v d) = (if k \<in> set (dict_keys d) then dict_keys d else dict_keys d @ [k])"
  by (induction k v d rule: dict_set.induct) auto

lemma map_of_dict_del [simp]: "map_of (dict_del k d) = (map_of d)(k := None)"
  by (induction d) (auto simp: dict_del_def fun_eq_iff)

lemma dict_ok_del [simp]: "dict_ok d \<Longrightarrow> dict_ok (dict_del k d)"
  by (induction d) (auto simp: dict_del_def)

lemma set_values_dict_set: "snd ` set (dict_set k v d) \<subseteq> insert v (snd ` set d)"
  by (induction k v d rule: dict_set.induct) auto

end
