(* ===== verification/Sha256.thy ===== *)
theory Sha256
  imports Prelude
begin

text \<open>
  SHA-256 as FIPS 180-4 defines it, which is what \<open>hashlib.sha256(...).digest()\<close> computes:
  padding to 64-byte blocks, the message schedule, the compression function over eight
  \<open>32 word\<close> registers. The digest always has 32 bytes. The round
  constants are computed from their definition in the standard. The locale \<open>digest_fun\<close>
  is what the protocols use of a hash function.
\<close>

unbundle bit_operations_syntax

type_synonym word32 = "32 word"

section \<open>Big-endian words\<close>

definition be32 :: "word32 \<Rightarrow> bytes" where
  "be32 w = [ucast (drop_bit 24 w), ucast (drop_bit 16 w), ucast (drop_bit 8 w), ucast w]"

fun be32_words :: "bytes \<Rightarrow> word32 list" where
  "be32_words (a # b # c # d # bs) =
     (push_bit 24 (ucast a) OR push_bit 16 (ucast b) OR push_bit 8 (ucast c) OR ucast d)
     # be32_words bs"
| "be32_words bs = []"

section \<open>Functions and constants\<close>

definition rotr :: "nat \<Rightarrow> word32 \<Rightarrow> word32" where
  "rotr n w = drop_bit n w OR push_bit (32 - n) w"

definition sha_ch :: "word32 \<Rightarrow> word32 \<Rightarrow> word32 \<Rightarrow> word32" where
  "sha_ch x y z = (x AND y) XOR (NOT x AND z)"

definition sha_maj :: "word32 \<Rightarrow> word32 \<Rightarrow> word32 \<Rightarrow> word32" where
  "sha_maj x y z = (x AND y) XOR (x AND z) XOR (y AND z)"

definition sha_bsig0 :: "word32 \<Rightarrow> word32" where
  "sha_bsig0 x = rotr 2 x XOR rotr 13 x XOR rotr 22 x"

definition sha_bsig1 :: "word32 \<Rightarrow> word32" where
  "sha_bsig1 x = rotr 6 x XOR rotr 11 x XOR rotr 25 x"

definition sha_ssig0 :: "word32 \<Rightarrow> word32" where
  "sha_ssig0 x = rotr 7 x XOR rotr 18 x XOR drop_bit 3 x"

definition sha_ssig1 :: "word32 \<Rightarrow> word32" where
  "sha_ssig1 x = rotr 17 x XOR rotr 19 x XOR drop_bit 10 x"

text \<open>
  The round constants are the first 32 bits of the fractional parts of the cube roots of the
  first 64 primes: the integer cube root of \<open>p * 2^96\<close>, kept modulo \<open>2^32\<close>. The root is found
  bit by bit; \<open>icbrt_root\<close> shows it is the root.
\<close>

fun icbrt :: "nat \<Rightarrow> nat \<Rightarrow> nat \<Rightarrow> nat" where
  "icbrt 0 n r = r"
| "icbrt (Suc k) n r = icbrt k n (if (r + 2 ^ k) ^ 3 \<le> n then r + 2 ^ k else r)"

lemma icbrt_root:
  assumes "r ^ 3 \<le> n" and "n < (r + 2 ^ k) ^ 3"
  shows "icbrt k n r ^ 3 \<le> n \<and> n < Suc (icbrt k n r) ^ 3"
  using assms
proof (induction k arbitrary: r)
  case 0
  then show ?case by simp
next
  case (Suc k)
  have e: "r + 2 ^ Suc k = r + 2 ^ k + 2 ^ k" by simp
  show ?case
    using Suc.prems Suc.IH [of r] Suc.IH [of "r + 2 ^ k"]
    by (cases "(r + 2 ^ k) ^ 3 \<le> n") (simp_all del: power_Suc add: e not_le)
qed

lemma icbrt_unique:
  assumes "v ^ 3 \<le> n" and "n < Suc v ^ 3" and "n < (2 ^ k) ^ 3"
  shows "icbrt k n 0 = v"
proof -
  let ?r = "icbrt k n 0"
  have r: "?r ^ 3 \<le> n" "n < Suc ?r ^ 3"
    using icbrt_root [of 0 n k] assms(3) by auto
  have "v ^ 3 < Suc ?r ^ 3" and "?r ^ 3 < Suc v ^ 3"
    using r assms by linarith+
  then have "v < Suc ?r" and "?r < Suc v"
    using power_less_imp_less_base by blast+
  then show ?thesis by simp
qed

definition sha_primes :: "nat list" where
  "sha_primes = [
   2, 3, 5, 7, 11, 13, 17, 19, 23, 29, 31, 37, 41, 43, 47, 53,
   59, 61, 67, 71, 73, 79, 83, 89, 97, 101, 103, 107, 109, 113, 127, 131,
   137, 139, 149, 151, 157, 163, 167, 173, 179, 181, 191, 193, 197, 199, 211, 223,
   227, 229, 233, 239, 241, 251, 257, 263, 269, 271, 277, 281, 283, 293, 307, 311]"

definition sha_k :: "word32 list" where
  "sha_k = map (\<lambda>p. word_of_nat (icbrt 35 (p * 2 ^ 96) 0)) sha_primes"

lemma length_sha_k: "length sha_k = 64"
  by (simp add: sha_k_def sha_primes_def)

lemma sha_k_first: "sha_k ! 0 = 0x428a2f98"
  using icbrt_unique [of 5411319704 "2 * 2 ^ 96" 35] by (simp add: sha_k_def sha_primes_def)

lemma sha_k_last: "sha_k ! 63 = 0xc67178f2"
  using icbrt_unique [of 29099129074 "311 * 2 ^ 96" 35] by (simp add: sha_k_def sha_primes_def)

section \<open>Padding, schedule, compression\<close>

text \<open>The bit length as a 64-bit big-endian integer closes the last block.\<close>

definition sha_length_field :: "64 word \<Rightarrow> bytes" where
  "sha_length_field bits = map (\<lambda>i. ucast (drop_bit i bits)) [56, 48, 40, 32, 24, 16, 8, 0]"

definition sha_pad :: "bytes \<Rightarrow> bytes" where
  "sha_pad m = m @ [0x80] @ replicate ((119 - length m mod 64) mod 64) 0
     @ sha_length_field (8 * of_nat (length m))"

text \<open>
  The schedule is extended one word at a time; the accumulator holds the words so far in
  reverse, so \<open>W(t-2)\<close>, \<open>W(t-7)\<close>, \<open>W(t-15)\<close>, \<open>W(t-16)\<close> are at fixed places.
\<close>

fun sha_schedule :: "nat \<Rightarrow> word32 list \<Rightarrow> word32 list" where
  "sha_schedule 0 ws = rev ws"
| "sha_schedule (Suc n) ws =
     sha_schedule n ((sha_ssig1 (ws ! 1) + ws ! 6 + sha_ssig0 (ws ! 14) + ws ! 15) # ws)"

type_synonym sha_regs =
  "word32 \<times> word32 \<times> word32 \<times> word32 \<times> word32 \<times> word32 \<times> word32 \<times> word32"

fun sha_shift :: "word32 \<Rightarrow> word32 \<Rightarrow> sha_regs \<Rightarrow> sha_regs" where
  "sha_shift t1 t2 (a, b, c, d, e, f, g, h) = (t1 + t2, a, b, c, d + t1, e, f, g)"

fun sha_round :: "word32 \<times> word32 \<Rightarrow> sha_regs \<Rightarrow> sha_regs" where
  "sha_round (k, w) (a, b, c, d, e, f, g, h) =
     sha_shift (h + sha_bsig1 e + sha_ch e f g + k + w) (sha_bsig0 a + sha_maj a b c)
       (a, b, c, d, e, f, g, h)"

fun sha_add :: "sha_regs \<Rightarrow> sha_regs \<Rightarrow> sha_regs" where
  "sha_add (a, b, c, d, e, f, g, h) (a', b', c', d', e', f', g', h') =
     (a + a', b + b', c + c', d + d', e + e', f + f', g + g', h + h')"

definition sha_block :: "sha_regs \<Rightarrow> bytes \<Rightarrow> sha_regs" where
  "sha_block r blk =
     sha_add r (fold sha_round (zip sha_k (sha_schedule 48 (rev (be32_words blk)))) r)"

function sha_blocks :: "sha_regs \<Rightarrow> bytes \<Rightarrow> sha_regs" where
  "sha_blocks r bs = (if bs = [] then r else sha_blocks (sha_block r (take 64 bs)) (drop 64 bs))"
  by pat_completeness auto
termination
  by (relation "measure (\<lambda>(r, bs). length bs)") auto

declare sha_blocks.simps [simp del]

definition sha_init :: sha_regs where
  "sha_init = (0x6a09e667, 0xbb67ae85, 0x3c6ef372, 0xa54ff53a,
               0x510e527f, 0x9b05688c, 0x1f83d9ab, 0x5be0cd19)"

fun sha_bytes :: "sha_regs \<Rightarrow> bytes" where
  "sha_bytes (a, b, c, d, e, f, g, h) =
     be32 a @ be32 b @ be32 c @ be32 d @ be32 e @ be32 f @ be32 g @ be32 h"

definition sha256 :: "bytes \<Rightarrow> bytes" where
  "sha256 m = sha_bytes (sha_blocks sha_init (sha_pad m))"

section \<open>Facts\<close>

lemma length_be32 [simp]: "length (be32 w) = 4"
  by (simp add: be32_def)

lemma length_sha_bytes: "length (sha_bytes r) = 32"
  by (cases r rule: sha_bytes.cases) simp

lemma length_sha256 [simp]: "length (sha256 m) = 32"
  by (simp add: sha256_def length_sha_bytes)

text \<open>Padding always ends on a block boundary, and adds at most 72 bytes.\<close>

lemma length_sha_length_field [simp]: "length (sha_length_field b) = 8"
  by (simp add: sha_length_field_def)

lemma sha_pad_aligned: "length (sha_pad m) mod 64 = 0"
proof -
  define q r where "q = length m div 64" and "r = length m mod 64"
  have m: "length m = 64 * q + r" and r: "r < 64"
    by (simp_all add: q_def r_def)
  have "(119 - r) mod 64 = (if r \<le> 55 then 55 - r else 119 - r)"
    using r by (simp add: mod_if)
  then have "length (sha_pad m) = 64 * (q + (if r \<le> 55 then 1 else 2))"
    using r by (auto simp: sha_pad_def m)
  then show ?thesis by simp
qed

section \<open>The interface the protocols use\<close>

text \<open>
  A hash function of fixed output length. No function of this kind is injective, so
  binding statements exhibit a collision instead of denying one.
\<close>

definition collision :: "('a \<Rightarrow> 'b) \<Rightarrow> 'a \<Rightarrow> 'a \<Rightarrow> bool" where
  "collision H x y \<longleftrightarrow> x \<noteq> y \<and> H x = H y"

locale digest_fun =
  fixes H :: "bytes \<Rightarrow> bytes" and n :: nat
  assumes length_H: "length (H x) = n"
begin

lemma binds: "H x = H y \<Longrightarrow> x = y \<or> collision H x y"
  by (auto simp: collision_def)

text \<open>Two fields of which the first has a fixed length.\<close>

lemma binds_pair:
  assumes "H (a @ b) = H (c @ d)" and "length a = length c"
  shows "(a = c \<and> b = d) \<or> collision H (a @ b) (c @ d)"
  using binds [OF assms(1)] assms(2) by auto

text \<open>A hash chain link \<open>H(H x @ t)\<close>: equal links have equal inner values or a collision.\<close>

lemma binds_link:
  assumes "H (p @ H x) = H (p @ H y)"
  shows "x = y \<or> collision H x y \<or> collision H (p @ H x) (p @ H y)"
  using binds [OF assms] binds [of x y] by auto

end

interpretation sha: digest_fun sha256 32
  by unfold_locales simp

end
