(* ===== verification/Wire.thy ===== *)
theory Wire
  imports Prelude
begin

text \<open>
  The byte-level encodings of the standard library the protocols are built on: big-endian
  integers (\<open>struct.pack\<close> with \<open>>H\<close>, \<open>>I\<close>, \<open>>Q\<close>, \<open>int.to_bytes\<close>, \<open>int.from_bytes\<close>),
  hexadecimal text (\<open>bytes.hex\<close>, \<open>bytes.fromhex\<close>, \<open>binascii.hexlify\<close> and \<open>unhexlify\<close>),
  and strings. A Python string is held as its UTF-8 bytes in a \<open>string\<close>, so \<open>encode\<close> is a
  change of type and \<open>decode\<close> a validity check. The locale \<open>byte_codec\<close> states what an
  encoder and its decoder owe each other.
\<close>

locale byte_codec =
  fixes enc :: "'a \<Rightarrow> 'b" and dec :: "'b \<Rightarrow> exc + 'a" and ok :: "'a \<Rightarrow> bool"
  assumes dec_enc: "ok x \<Longrightarrow> dec (enc x) = Inr x"
begin

lemma enc_inj: "ok x \<Longrightarrow> ok y \<Longrightarrow> enc x = enc y \<Longrightarrow> x = y"
  by (metis dec_enc sum.inject(2))

lemma dec_enc_iff: "ok x \<Longrightarrow> ok y \<Longrightarrow> dec (enc x) = Inr y \<longleftrightarrow> x = y"
  by (metis dec_enc sum.inject(2))

end

section \<open>Big-endian integers\<close>

fun be_bytes :: "nat \<Rightarrow> int \<Rightarrow> bytes" where
  "be_bytes 0 n = []"
| "be_bytes (Suc k) n = be_bytes k (n div 256) @ [of_int n]"

definition be_int :: "bytes \<Rightarrow> int" where
  "be_int bs = foldl (\<lambda>a b. a * 256 + uint b) 0 bs"

lemma length_be_bytes [simp]: "length (be_bytes k n) = k"
  by (induction k arbitrary: n) auto

lemma be_int_snoc: "be_int (bs @ [b]) = be_int bs * 256 + uint b"
  by (simp add: be_int_def)

lemma be_int_nonneg: "0 \<le> be_int bs"
  by (induction bs rule: rev_induct) (auto simp: be_int_snoc, simp add: be_int_def)

lemma be_int_less: "be_int bs < 256 ^ length bs"
proof (induction bs rule: rev_induct)
  case Nil
  show ?case by (simp add: be_int_def)
next
  case (snoc b bs)
  have "uint b < 256" using uint_lt2p [of b] by simp
  then show ?case using snoc by (simp add: be_int_snoc)
qed

lemma be_int_be_bytes: "0 \<le> n \<Longrightarrow> n < 256 ^ k \<Longrightarrow> be_int (be_bytes k n) = n"
proof (induction k arbitrary: n)
  case 0
  then show ?case by (simp add: be_int_def)
next
  case (Suc k)
  define m :: int where "m = 256 ^ k"
  have "n < 256 * m" using Suc.prems by (simp add: m_def)
  then have "n div 256 < 256 ^ k" unfolding m_def [symmetric] by presburger
  then have "be_int (be_bytes k (n div 256)) = n div 256" using Suc by simp
  moreover have "uint (of_int n :: byte) = n mod 256" by (simp add: uint_word_of_int)
  ultimately show ?case by (simp add: be_int_snoc)
qed

lemma be_bytes_be_int: "be_bytes (length bs) (be_int bs) = bs"
proof (induction bs rule: rev_induct)
  case (snoc b bs)
  have b: "0 \<le> uint b" "uint b < 256" using uint_lt2p [of b] by auto
  then have "(be_int bs * 256 + uint b) div 256 = be_int bs" by simp
  moreover have "uint (of_int (be_int bs * 256 + uint b) :: byte) = uint b"
    using b by (simp add: uint_word_of_int del: of_int_add of_int_mult)
  then have "(of_int (be_int bs * 256 + uint b) :: byte) = b" by (rule word_uint_eqI)
  ultimately show ?case using snoc by (simp add: be_int_snoc)
qed (simp add: be_int_def)

text \<open>\<open>struct.pack\<close> raises \<open>struct.error\<close> out of range; \<open>struct.unpack\<close> on a wrong length.\<close>

definition struct_pack :: "nat \<Rightarrow> int \<Rightarrow> exc + bytes" where
  "struct_pack k n =
     (if 0 \<le> n \<and> n < 256 ^ k then Inr (be_bytes k n) else Inl (LibRaised StructKind))"

definition struct_unpack :: "nat \<Rightarrow> bytes \<Rightarrow> exc + int" where
  "struct_unpack k bs = (if length bs = k then Inr (be_int bs) else Inl (LibRaised StructKind))"

abbreviation pack_H :: "int \<Rightarrow> exc + bytes" where "pack_H \<equiv> struct_pack 2"
abbreviation pack_I :: "int \<Rightarrow> exc + bytes" where "pack_I \<equiv> struct_pack 4"
abbreviation pack_Q :: "int \<Rightarrow> exc + bytes" where "pack_Q \<equiv> struct_pack 8"

lemma struct_pack_ok: "0 \<le> n \<Longrightarrow> n < 256 ^ k \<Longrightarrow> struct_pack k n = Inr (be_bytes k n)"
  by (simp add: struct_pack_def)

lemma struct_unpack_be_bytes:
  "0 \<le> n \<Longrightarrow> n < 256 ^ k \<Longrightarrow> struct_unpack k (be_bytes k n) = Inr n"
  by (simp add: struct_unpack_def be_int_be_bytes)

interpretation be: byte_codec "be_bytes k" "struct_unpack k" "\<lambda>n. 0 \<le> n \<and> n < 256 ^ k" for k
  by unfold_locales (simp add: struct_unpack_be_bytes)

section \<open>Strings\<close>

definition str_bytes :: "string \<Rightarrow> bytes" where
  "str_bytes s = map of_char s"

definition bytes_str :: "bytes \<Rightarrow> string" where
  "bytes_str bs = map (\<lambda>b. char_of (unat b)) bs"

lemma length_str_bytes [simp]: "length (str_bytes s) = length s"
  and length_bytes_str [simp]: "length (bytes_str bs) = length bs"
  by (simp_all add: str_bytes_def bytes_str_def)

lemma str_bytes_append [simp]: "str_bytes (s @ t) = str_bytes s @ str_bytes t"
  by (simp add: str_bytes_def)

lemma unat_of_char [simp]: "unat (of_char c :: byte) = of_char c"
proof -
  have "(of_nat (of_char c) :: byte) = of_char c" by (simp add: of_nat_of_char)
  then have "unat (of_char c :: byte) = unat (of_nat (of_char c) :: byte)" by simp
  also have "\<dots> = of_char c mod 256" by (simp add: unat_of_nat)
  finally show ?thesis by simp
qed

lemma unat_byte: "unat (b :: byte) < 256"
  using unsigned_less [where 'a = nat, of b] by simp

lemma bytes_str_str_bytes [simp]: "bytes_str (str_bytes s) = s"
  by (induction s) (auto simp: bytes_str_def str_bytes_def)

lemma str_bytes_bytes_str [simp]: "str_bytes (bytes_str bs) = bs"
proof -
  have "of_char (char_of (unat b) :: char) = b" for b :: byte
  proof -
    have "unat b < 256" by (rule unat_byte)
    then have "unat (of_char (char_of (unat b)) :: byte) = unat b" by simp
    then show ?thesis by (simp only: word_unat_eq_iff)
  qed
  then show ?thesis by (induction bs) (auto simp: bytes_str_def str_bytes_def)
qed

text \<open>
  Well-formed UTF-8: no stray continuation byte, no overlong form, no surrogate, nothing
  beyond \<open>U+10FFFF\<close>.
\<close>

definition utf8_cont :: "byte \<Rightarrow> bool" where
  "utf8_cont b \<longleftrightarrow> 0x80 \<le> b \<and> b \<le> 0xBF"

fun utf8_valid :: "bytes \<Rightarrow> bool" where
  "utf8_valid [] = True"
| "utf8_valid (a # bs) =
     (if a < 0x80 then utf8_valid bs
      else if 0xC2 \<le> a \<and> a \<le> 0xDF then
        (case bs of b # bs' \<Rightarrow> utf8_cont b \<and> utf8_valid bs' | _ \<Rightarrow> False)
      else if 0xE0 \<le> a \<and> a \<le> 0xEF then
        (case bs of b # c # bs' \<Rightarrow>
           utf8_cont b \<and> utf8_cont c \<and> (a = 0xE0 \<longrightarrow> 0xA0 \<le> b) \<and> (a = 0xED \<longrightarrow> b \<le> 0x9F)
           \<and> utf8_valid bs' | _ \<Rightarrow> False)
      else if 0xF0 \<le> a \<and> a \<le> 0xF4 then
        (case bs of b # c # d # bs' \<Rightarrow>
           utf8_cont b \<and> utf8_cont c \<and> utf8_cont d \<and> (a = 0xF0 \<longrightarrow> 0x90 \<le> b)
           \<and> (a = 0xF4 \<longrightarrow> b \<le> 0x8F) \<and> utf8_valid bs' | _ \<Rightarrow> False)
      else False)"

definition utf8_decode :: "bytes \<Rightarrow> exc + string" where
  "utf8_decode bs = (if utf8_valid bs then Inr (bytes_str bs) else Inl (LibRaised UnicodeKind))"

definition ascii :: "string \<Rightarrow> bool" where
  "ascii s \<longleftrightarrow> (\<forall>c \<in> set s. (of_char c :: nat) < 128)"

lemma ascii_simps [simp]:
  "ascii []" "ascii (c # s) \<longleftrightarrow> (of_char c :: nat) < 128 \<and> ascii s"
  "ascii (s @ t) \<longleftrightarrow> ascii s \<and> ascii t"
  by (auto simp: ascii_def)

lemma utf8_valid_ascii: "ascii s \<Longrightarrow> utf8_valid (str_bytes s)"
proof (induction s)
  case (Cons c s)
  then have "(of_char c :: byte) < 0x80" by (simp add: word_less_nat_alt)
  then show ?case using Cons by (simp add: str_bytes_def)
qed (simp add: str_bytes_def)

lemma utf8_decode_ascii: "ascii s \<Longrightarrow> utf8_decode (str_bytes s) = Inr s"
  by (simp add: utf8_decode_def utf8_valid_ascii)

interpretation utf8: byte_codec str_bytes utf8_decode ascii
  by unfold_locales (rule utf8_decode_ascii)

section \<open>Hexadecimal\<close>

definition hex_digits :: string where
  "hex_digits = ''0123456789abcdef''"

definition hex_of_byte :: "byte \<Rightarrow> string" where
  "hex_of_byte b = [hex_digits ! (unat b div 16), hex_digits ! (unat b mod 16)]"

text \<open>\<open>b.hex()\<close> and \<open>binascii.hexlify(b).decode()\<close>.\<close>

definition hexlify :: "bytes \<Rightarrow> string" where
  "hexlify bs = concat (map hex_of_byte bs)"

text \<open>The value of a hexadecimal digit, of either case.\<close>

definition hex_val :: "char \<Rightarrow> nat option" where
  "hex_val c = (let n = of_char c in
     if 48 \<le> n \<and> n \<le> 57 then Some (n - 48)
     else if 97 \<le> n \<and> n \<le> 102 then Some (n - 87)
     else if 65 \<le> n \<and> n \<le> 70 then Some (n - 55) else None)"

definition py_space :: "char \<Rightarrow> bool" where
  \<comment> \<open>ASCII whitespace: tab to carriage return, and space\<close>
  "py_space c \<longleftrightarrow> (let n = (of_char c :: nat) in 9 \<le> n \<and> n \<le> 13 \<or> n = 32)"

text \<open>\<open>bytes.fromhex\<close> skips whitespace between bytes, never inside one.\<close>

fun fromhex :: "string \<Rightarrow> exc + bytes" where
  "fromhex [] = Inr []"
| "fromhex [c] = (if py_space c then Inr [] else Inl (LibRaised ValueKind))"
| "fromhex (c # d # s) =
     (if py_space c then fromhex (d # s)
      else case (hex_val c, hex_val d) of
        (Some h, Some l) \<Rightarrow> rbind (fromhex s) (\<lambda>bs. Inr (of_nat (16 * h + l) # bs))
      | _ \<Rightarrow> Inl (LibRaised ValueKind))"

text \<open>\<open>binascii.unhexlify\<close> takes hexadecimal digits only (\<open>binascii.Error\<close> is a \<open>ValueError\<close>).\<close>

fun unhexlify :: "string \<Rightarrow> exc + bytes" where
  "unhexlify [] = Inr []"
| "unhexlify [c] = Inl (LibRaised ValueKind)"
| "unhexlify (c # d # s) =
     (case (hex_val c, hex_val d) of
        (Some h, Some l) \<Rightarrow> rbind (unhexlify s) (\<lambda>bs. Inr (of_nat (16 * h + l) # bs))
      | _ \<Rightarrow> Inl (LibRaised ValueKind))"

lemma hex_digits_nth:
  "n < 16 \<Longrightarrow> hex_val (hex_digits ! n) = Some n"
  "n < 16 \<Longrightarrow> \<not> py_space (hex_digits ! n)"
  "n < 16 \<Longrightarrow> (of_char (hex_digits ! n) :: nat) < 128"
  "n < 16 \<Longrightarrow> (of_char (hex_digits ! n) :: nat) > 34"
  "n < 16 \<Longrightarrow> (of_char (hex_digits ! n) :: nat) \<noteq> 92"
proof -
  have all: "\<forall>n \<in> set [0..<16]. hex_val (hex_digits ! n) = Some n \<and> \<not> py_space (hex_digits ! n)
    \<and> (of_char (hex_digits ! n) :: nat) < 128 \<and> (of_char (hex_digits ! n) :: nat) > 34
    \<and> (of_char (hex_digits ! n) :: nat) \<noteq> 92"
    by code_simp
  assume "n < 16"
  then have n: "n \<in> set [0..<16]" by simp
  from bspec [OF all n] show "hex_val (hex_digits ! n) = Some n" "\<not> py_space (hex_digits ! n)"
    "(of_char (hex_digits ! n) :: nat) < 128" "(of_char (hex_digits ! n) :: nat) > 34"
    "(of_char (hex_digits ! n) :: nat) \<noteq> 92"
    by simp_all
qed

lemma byte_nibbles:
  "unat b div 16 < 16" "unat b mod 16 < 16" "of_nat (16 * (unat b div 16) + unat b mod 16) = b"
  for b :: byte
proof -
  have "unat b < 256" by (rule unat_byte)
  then show "unat b div 16 < 16" by simp
  show "unat b mod 16 < 16" by simp
  have "16 * (unat b div 16) + unat b mod 16 = unat b" by simp
  then have "(of_nat (16 * (unat b div 16) + unat b mod 16) :: byte) = of_nat (unat b)"
    by (simp only:)
  also have "\<dots> = b" by simp
  finally show "of_nat (16 * (unat b div 16) + unat b mod 16) = b" .
qed

lemma hexlify_simps [simp]:
  "hexlify [] = []" "hexlify (b # bs) = hex_of_byte b @ hexlify bs"
  "hexlify (bs @ cs) = hexlify bs @ hexlify cs"
  by (simp_all add: hexlify_def)

lemma length_hexlify [simp]: "length (hexlify bs) = 2 * length bs"
  by (induction bs) (auto simp: hex_of_byte_def)

lemma ascii_hexlify [simp]: "ascii (hexlify bs)"
  by (induction bs) (auto simp: hex_of_byte_def hex_digits_nth byte_nibbles)

lemma fromhex_hexlify [simp]: "fromhex (hexlify bs) = Inr bs"
proof (induction bs)
  case (Cons b bs)
  then show ?case
    by (simp add: hex_of_byte_def hex_digits_nth byte_nibbles del: of_nat_add of_nat_mult)
qed simp

lemma unhexlify_hexlify [simp]: "unhexlify (hexlify bs) = Inr bs"
proof (induction bs)
  case (Cons b bs)
  then show ?case
    by (simp add: hex_of_byte_def hex_digits_nth byte_nibbles del: of_nat_add of_nat_mult)
qed simp

interpretation fromhex: byte_codec hexlify fromhex "\<lambda>_. True"
  by unfold_locales simp

interpretation unhexlify: byte_codec hexlify unhexlify "\<lambda>_. True"
  by unfold_locales simp

lemma unhexlify_length: "unhexlify s = Inr bs \<Longrightarrow> length s = 2 * length bs"
  by (induction s arbitrary: bs rule: unhexlify.induct)
    (auto simp: rbind_Inr_iff split: option.splits)

lemma unhexlify_error: "unhexlify s = Inl e \<Longrightarrow> e = LibRaised ValueKind"
  by (induction s rule: unhexlify.induct) (auto simp: rbind_Inl_iff split: option.splits)

lemma fromhex_error: "fromhex s = Inl e \<Longrightarrow> e = LibRaised ValueKind"
  by (induction s rule: fromhex.induct) (auto simp: rbind_Inl_iff split: option.splits if_splits)

end
