(* ===== verification/Cryptolib.thy ===== *)
theory Cryptolib
  imports Sha256 Wire
begin

text \<open>
  The third-party \<open>cryptography\<close> package, whose code is not in the repository: AES-GCM,
  P-256 points and keys, ECDSA over a given digest, ECDH. It is a record of functions that
  every definition using it takes as an argument. \<open>aead_ok\<close> and \<open>ec_ok\<close> are the documented
  behaviour that theorems name as hypotheses; \<open>ref_lib\<close> is a small concrete instance showing
  that they can hold.
\<close>

record cryptolib =
  aes_encrypt :: "bytes \<Rightarrow> bytes \<Rightarrow> bytes \<Rightarrow> exc + bytes"
    \<comment> \<open>\<open>AESGCM(key).encrypt(nonce, data, None)\<close>\<close>
  aes_decrypt :: "bytes \<Rightarrow> bytes \<Rightarrow> bytes \<Rightarrow> exc + bytes"
    \<comment> \<open>\<open>AESGCM(key).decrypt(nonce, data, None)\<close>\<close>
  ec_point_ok :: "bytes \<Rightarrow> bool"
    \<comment> \<open>whether \<open>from_encoded_point\<close> accepts the bytes; it raises \<open>ValueError\<close> otherwise\<close>
  ec_public :: "bytes \<Rightarrow> bytes"
    \<comment> \<open>the uncompressed public point of the private key made from this randomness\<close>
  ec_sign :: "bytes \<Rightarrow> bytes \<Rightarrow> bytes"
    \<comment> \<open>\<open>sign(digest, ECDSA(Prehashed(SHA256)))\<close> with the private key\<close>
  ec_verify :: "bytes \<Rightarrow> bytes \<Rightarrow> bytes \<Rightarrow> bool"
    \<comment> \<open>public point, signature, digest; \<open>verify\<close> raises \<open>InvalidSignature\<close> otherwise\<close>
  ecdh :: "bytes \<Rightarrow> bytes \<Rightarrow> bytes"
    \<comment> \<open>\<open>exchange(ECDH(), public)\<close>\<close>

text \<open>AES-256-GCM with a 12-byte nonce: 16 bytes of tag, and decryption undoes encryption.\<close>

definition aead_ok :: "cryptolib \<Rightarrow> bool" where
  "aead_ok L \<longleftrightarrow> (\<forall>k n p. length k = 32 \<longrightarrow> length n = 12 \<longrightarrow>
     (\<exists>c. aes_encrypt L k n p = Inr c \<and> length c = length p + 16 \<and> aes_decrypt L k n c = Inr p))"

text \<open>
  A generated public key encodes to 65 bytes that decode again, a signature verifies under
  its own key, and the two sides of a Diffie-Hellman exchange agree.
\<close>

definition ec_ok :: "cryptolib \<Rightarrow> bool" where
  "ec_ok L \<longleftrightarrow> (\<forall>sk. length (ec_public L sk) = 65 \<and> ec_point_ok L (ec_public L sk))
     \<and> (\<forall>sk d. ec_verify L (ec_public L sk) (ec_sign L sk d) d)
     \<and> (\<forall>a b. ecdh L a (ec_public L b) = ecdh L b (ec_public L a))"

lemma aead_okE:
  assumes "aead_ok L" and "length k = 32" and "length n = 12"
  obtains c where "aes_encrypt L k n p = Inr c" "length c = length p + 16" "aes_decrypt L k n c = Inr p"
  using assms unfolding aead_ok_def by blast

lemma ec_okD:
  assumes "ec_ok L"
  shows "length (ec_public L sk) = 65" "ec_point_ok L (ec_public L sk)"
    "ec_verify L (ec_public L sk) (ec_sign L sk d) d"
    "ecdh L a (ec_public L b) = ecdh L b (ec_public L a)"
  using assms by (auto simp: ec_ok_def)

section \<open>A concrete instance\<close>

definition pad64 :: "bytes \<Rightarrow> bytes" where
  "pad64 b = take 64 (b @ replicate 64 0)"

definition ref_lib :: cryptolib where
  "ref_lib = \<lparr>
     aes_encrypt = (\<lambda>k n p. Inr (p @ take 16 k)),
     aes_decrypt = (\<lambda>k n c. if length c < 16 \<or> drop (length c - 16) c \<noteq> take 16 k
                            then Inl (LibRaised InvalidTagKind) else Inr (take (length c - 16) c)),
     ec_point_ok = (\<lambda>p. length p = 65 \<and> take 1 p = [4]),
     ec_public = (\<lambda>sk. 4 # pad64 sk),
     ec_sign = (\<lambda>sk d. pad64 sk @ d),
     ec_verify = (\<lambda>pk sig d. sig = drop 1 pk @ d),
     ecdh = (\<lambda>sk pk. map2 (+) (pad64 sk) (drop 1 pk))\<rparr>"

lemma length_pad64 [simp]: "length (pad64 b) = 64"
  by (simp add: pad64_def)

lemma aead_ok_ref_lib: "aead_ok ref_lib"
  by (simp add: aead_ok_def ref_lib_def)

lemma map2_add_commute: "map2 (+) xs ys = map2 (+) ys (xs :: 'a :: ab_semigroup_add list)"
  by (induction xs ys rule: list_induct2') (auto simp: add.commute)

lemma ec_ok_ref_lib: "ec_ok ref_lib"
  by (simp add: ec_ok_def ref_lib_def map2_add_commute)

end
