(* ===== verification/Pyfloat.thy ===== *)
theory Pyfloat
  imports Prelude "HOL-Library.Log_Nat"
begin

text \<open>
  Python's \<open>float\<close>: IEEE-754 binary64 with round-half-even. A value is not-a-number, an
  infinity or a finite rational; \<open>rnd\<close> is rounding to the nearest representable rational
  (53 bits of significand, smallest exponent -1074) and \<open>fl\<close> adds the overflow to infinity.
  The sign of zero is not represented: it is invisible to every comparison, and Python raises
  on a zero divisor whatever its sign. The facts the components need are that \<open>rnd\<close> is
  monotone and keeps 0, 1 and 100, and that it recovers a double from whatever is close to it.
\<close>

section \<open>Rounding\<close>

text \<open>The nearest integer, ties to the even one.\<close>

definition rne :: "rat \<Rightarrow> int" where
  "rne x = (let f = \<lfloor>x\<rfloor>; r = x - of_int f in
     if r < 1 / 2 then f else if 1 / 2 < r then f + 1 else if even f then f else f + 1)"

lemma rne_bounds: "\<lfloor>x\<rfloor> \<le> rne x \<and> rne x \<le> \<lfloor>x\<rfloor> + 1"
  by (simp add: rne_def Let_def)

lemma rne_of_int [simp]: "rne (of_int n) = n"
  by (simp add: rne_def)

lemma rne_mono: "x \<le> y \<Longrightarrow> rne x \<le> rne y"
proof -
  assume xy: "x \<le> y"
  then have f: "\<lfloor>x\<rfloor> \<le> \<lfloor>y\<rfloor>" by (rule floor_mono)
  show ?thesis
  proof (cases "\<lfloor>x\<rfloor> = \<lfloor>y\<rfloor>")
    case True
    then show ?thesis using xy by (auto simp: rne_def Let_def)
  next
    case False
    with f have "\<lfloor>x\<rfloor> + 1 \<le> \<lfloor>y\<rfloor>" by simp
    then show ?thesis using rne_bounds [of x] rne_bounds [of y] by linarith
  qed
qed

text \<open>\<open>bexp x\<close> is the exponent \<open>e\<close> with \<open>2^e \<le> x < 2^(e+1)\<close>, for positive \<open>x\<close>.\<close>

definition bexp :: "rat \<Rightarrow> int" where
  "bexp x = (case quotient_of x of (n, d) \<Rightarrow>
     let k = bitlen n - bitlen d in if 2 powi k \<le> x then k else k - 1)"

definition quantum :: "rat \<Rightarrow> int" where
  "quantum x = max (bexp x - 52) (-1074)"

definition rnd_pos :: "rat \<Rightarrow> rat" where
  "rnd_pos x = of_int (rne (x / 2 powi quantum x)) * 2 powi quantum x"

definition rnd :: "rat \<Rightarrow> rat" where
  "rnd x = (if x = 0 then 0 else if 0 < x then rnd_pos x else - rnd_pos (- x))"

lemma bitlen_powi: "0 < n \<Longrightarrow> 2 powi (bitlen n - 1) \<le> (of_int n :: rat)"
  "0 < n \<Longrightarrow> (of_int n :: rat) < 2 powi (bitlen n)"
proof -
  assume n: "0 < n"
  from bitlen_bounds [OF n] have b: "2 ^ nat (bitlen n - 1) \<le> n" "n < 2 ^ nat (bitlen n)"
    by auto
  have pos: "0 < bitlen n"
  proof (rule ccontr)
    assume "\<not> 0 < bitlen n"
    then have "n < 1" using b(2) by simp
    then show False using n by simp
  qed
  have "(2::rat) powi (bitlen n - 1) = of_int (2 ^ nat (bitlen n - 1))"
    using pos by (simp add: power_int_def)
  then show "2 powi (bitlen n - 1) \<le> (of_int n :: rat)"
    using b(1) by (metis of_int_le_iff)
  have "(2::rat) powi (bitlen n) = of_int (2 ^ nat (bitlen n))"
    using pos by (simp add: power_int_def)
  then show "(of_int n :: rat) < 2 powi (bitlen n)"
    using b(2) by (metis of_int_less_iff)
qed

lemma bexp_bounds:
  assumes "0 < x"
  shows "2 powi bexp x \<le> x" and "x < 2 powi (bexp x + 1)"
proof -
  obtain n d where q: "quotient_of x = (n, d)" by (cases "quotient_of x")
  have d: "0 < d" by (rule quotient_of_denom_pos [OF q])
  have x: "x = of_int n / of_int d" by (rule quotient_of_div [OF q])
  have n: "0 < n" using assms d by (simp add: x zero_less_divide_iff)
  define k where "k = bitlen n - bitlen d"
  have be: "bexp x = (if 2 powi k \<le> x then k else k - 1)"
    by (simp add: bexp_def q k_def)
  have up: "x < 2 powi (k + 1)"
  proof -
    have "x < 2 powi (bitlen n) / of_int d"
      unfolding x using bitlen_powi(2) [OF n] d by (intro divide_strict_right_mono) auto
    also have "\<dots> \<le> 2 powi (bitlen n) / 2 powi (bitlen d - 1)"
      using bitlen_powi(1) [OF d] d by (intro divide_left_mono) (auto intro: mult_pos_pos)
    also have "\<dots> = 2 powi (k + 1)"
      by (simp add: k_def flip: power_int_diff) (simp add: algebra_simps)
    finally show ?thesis .
  qed
  have low: "2 powi (k - 1) \<le> x"
  proof -
    have "2 powi (k - 1) = 2 powi (bitlen n - 1) / (2 powi (bitlen d) :: rat)"
      by (simp add: k_def flip: power_int_diff) (simp add: algebra_simps)
    also have "\<dots> \<le> of_int n / 2 powi (bitlen d)"
      using bitlen_powi(1) [OF n] by (intro divide_right_mono) auto
    also have "\<dots> \<le> x"
      unfolding x using bitlen_powi(2) [OF d] d n
      by (intro divide_left_mono) (auto intro: mult_pos_pos)
    finally show ?thesis .
  qed
  show "2 powi bexp x \<le> x" using be low by auto
  show "x < 2 powi (bexp x + 1)" using be up by (auto simp: not_le)
qed

lemma bexp_mono: "0 < x \<Longrightarrow> x \<le> y \<Longrightarrow> bexp x \<le> bexp y"
proof (rule ccontr)
  assume x: "0 < x" "x \<le> y" and "\<not> bexp x \<le> bexp y"
  then have "bexp y + 1 \<le> bexp x" by simp
  then have "(2::rat) powi (bexp y + 1) \<le> 2 powi bexp x" by (simp add: power_int_increasing)
  then show False using bexp_bounds(1) [of x] bexp_bounds(2) [of y] x by linarith
qed

lemma powi2_less_imp: "(2::rat) powi a < 2 powi b \<Longrightarrow> a < b"
  by (rule ccontr) (use power_int_increasing [of b a "2::rat"] in simp)

lemma bexp_unique: "2 powi e \<le> x \<Longrightarrow> x < 2 powi (e + 1) \<Longrightarrow> bexp x = e"
proof -
  assume e: "2 powi e \<le> x" "x < 2 powi (e + 1)"
  have x: "0 < x" by (rule less_le_trans [OF _ e(1)]) simp
  have "(2::rat) powi bexp x < 2 powi (e + 1)" using bexp_bounds(1) [OF x] e(2) by simp
  then have "bexp x < e + 1" by (rule powi2_less_imp)
  moreover have "(2::rat) powi e < 2 powi (bexp x + 1)" using bexp_bounds(2) [OF x] e(1) by simp
  then have "e < bexp x + 1" by (rule powi2_less_imp)
  ultimately show ?thesis by simp
qed

lemma rnd_pos_le:
  assumes "0 < x"
  shows "rnd_pos x \<le> 2 powi (quantum x + 53)"
proof -
  define q where "q = quantum x"
  have "x < 2 powi (bexp x + 1)" by (rule bexp_bounds(2) [OF assms])
  also have "\<dots> \<le> 2 powi (q + 53)" by (intro power_int_increasing) (simp_all add: q_def quantum_def)
  finally have "x / 2 powi q \<le> of_int (2 ^ 53)"
    by (simp add: field_simps power_int_add)
  then have "rne (x / 2 powi q) \<le> 2 ^ 53" by (metis rne_mono rne_of_int)
  then have "(of_int (rne (x / 2 powi q)) :: rat) \<le> of_int (2 ^ 53)" by (simp only: of_int_le_iff)
  then have "of_int (rne (x / 2 powi q)) * 2 powi q \<le> of_int (2 ^ 53) * (2 powi q :: rat)"
    by (intro mult_right_mono) auto
  then show ?thesis by (simp add: rnd_pos_def q_def power_int_add mult.commute)
qed

lemma rnd_pos_ge:
  assumes "2 powi (quantum x + 52) \<le> x"
  shows "2 powi (quantum x + 52) \<le> rnd_pos x"
proof -
  define q where "q = quantum x"
  have "of_int (2 ^ 52) \<le> x / 2 powi q"
    using assms by (simp add: field_simps power_int_add q_def)
  then have "2 ^ 52 \<le> rne (x / 2 powi q)" by (metis rne_mono rne_of_int)
  then have "(of_int (2 ^ 52) :: rat) \<le> of_int (rne (x / 2 powi q))" by (simp only: of_int_le_iff)
  then have "of_int (2 ^ 52) * (2 powi q :: rat) \<le> of_int (rne (x / 2 powi q)) * 2 powi q"
    by (intro mult_right_mono) auto
  then show ?thesis by (simp add: rnd_pos_def q_def power_int_add mult.commute)
qed

lemma rnd_pos_mono:
  assumes "0 < x" and "x \<le> y"
  shows "rnd_pos x \<le> rnd_pos y"
proof (cases "quantum x = quantum y")
  case True
  have "x / 2 powi quantum x \<le> y / 2 powi quantum x"
    using assms(2) by (intro divide_right_mono) auto
  then have "(of_int (rne (x / 2 powi quantum x)) :: rat) \<le> of_int (rne (y / 2 powi quantum x))"
    by (simp add: rne_mono)
  then show ?thesis
    unfolding rnd_pos_def True [symmetric] by (intro mult_right_mono) auto
next
  case False
  have b: "bexp x \<le> bexp y" by (rule bexp_mono [OF assms])
  with False have q: "quantum x < quantum y" and qy: "quantum y = bexp y - 52"
    by (auto simp: quantum_def)
  have y: "0 < y" using assms by simp
  have "rnd_pos x \<le> 2 powi (quantum x + 53)" by (rule rnd_pos_le [OF assms(1)])
  also have "\<dots> \<le> 2 powi (quantum y + 52)" using q by (intro power_int_increasing) auto
  also have "\<dots> \<le> rnd_pos y"
    by (rule rnd_pos_ge) (use bexp_bounds(1) [OF y] qy in simp)
  finally show ?thesis .
qed

lemma rnd_pos_nonneg: "0 < x \<Longrightarrow> 0 \<le> rnd_pos x"
  unfolding rnd_pos_def
  by (intro mult_nonneg_nonneg) (use rne_mono [of 0 "x / 2 powi quantum x"] rne_of_int [of 0] in auto)

lemma rnd_0 [simp]: "rnd 0 = 0"
  by (simp add: rnd_def)

lemma rnd_minus [simp]: "rnd (- x) = - rnd x"
  by (auto simp: rnd_def)

lemma rnd_nonneg: "0 \<le> x \<Longrightarrow> 0 \<le> rnd x"
  by (simp add: rnd_def rnd_pos_nonneg)

lemma rnd_nonpos: "x \<le> 0 \<Longrightarrow> rnd x \<le> 0"
  using rnd_nonneg [of "- x"] by simp

lemma rnd_mono: "x \<le> y \<Longrightarrow> rnd x \<le> rnd y"
proof -
  assume xy: "x \<le> y"
  consider "0 < x" | "y < 0" | "x \<le> 0" "0 \<le> y" by linarith
  then show ?thesis
  proof cases
    case 1
    then show ?thesis using xy rnd_pos_mono [of x y] by (simp add: rnd_def)
  next
    case 2
    then show ?thesis using xy rnd_pos_mono [of "- y" "- x"] by (simp add: rnd_def)
  next
    case 3
    then show ?thesis using rnd_nonpos [of x] rnd_nonneg [of y] by linarith
  qed
qed

text \<open>Integers below \<open>2^53\<close> are represented exactly.\<close>

lemma rnd_small_int:
  assumes "0 \<le> n" and "n < 2 ^ 53"
  shows "rnd (of_int n) = of_int n"
proof (cases "n = 0")
  case False
  with assms(1) have n: "0 < (of_int n :: rat)" by simp
  have "2 powi bexp (of_int n) \<le> (of_int n :: rat)" by (rule bexp_bounds(1) [OF n])
  also have "\<dots> < of_int (2 ^ 53)" using assms(2) by (simp only: of_int_less_iff)
  also have "\<dots> = 2 powi 53" by (simp add: power_int_def)
  finally have "bexp (of_int n) < 53" by (rule powi2_less_imp)
  then have q: "quantum (of_int n) \<le> 0" by (simp add: quantum_def)
  then have "(of_int n :: rat) / 2 powi quantum (of_int n) = of_int (n * 2 ^ nat (- quantum (of_int n)))"
    by (simp add: power_int_def divide_simps)
  then have "rne ((of_int n :: rat) / 2 powi quantum (of_int n)) = n * 2 ^ nat (- quantum (of_int n))"
    by (simp only: rne_of_int)
  then show ?thesis
    using n q by (simp add: rnd_def rnd_pos_def power_int_def divide_simps)
qed simp

lemma rnd_numeral: "numeral k < (2 ^ 53 :: int) \<Longrightarrow> rnd (numeral k) = numeral k"
  using rnd_small_int [of "numeral k"] by simp

lemma rnd_1 [simp]: "rnd 1 = 1"
  using rnd_small_int [of 1] by simp

section \<open>Representable values\<close>

text \<open>
  A rational is representable when it is an integer of at most 53 bits times a power of two no
  smaller than the least one. What \<open>rnd\<close> returns is, and rounding gives a representable value back
  from everything closer to it than one part in \<open>2^54\<close>.
\<close>

lemma rne_error: "\<bar>x - of_int (rne x)\<bar> \<le> 1 / 2"
proof -
  have "of_int \<lfloor>x\<rfloor> \<le> x" "x < of_int \<lfloor>x\<rfloor> + 1" by linarith+
  then show ?thesis by (auto simp: rne_def Let_def)
qed

lemma rne_near:
  assumes "\<bar>x - of_int n\<bar> < 1 / 2"
  shows "rne x = n"
proof -
  have "\<lfloor>x\<rfloor> = n \<or> \<lfloor>x\<rfloor> = n - 1"
    using assms by linarith
  then show ?thesis using assms by (auto simp: rne_def Let_def)
qed

lemma powi2_split: "a \<le> b \<Longrightarrow> (2::rat) powi b = of_int (2 ^ nat (b - a)) * 2 powi a"
proof -
  assume ab: "a \<le> b"
  have "(2::rat) powi b = 2 powi (b - a) * 2 powi a" by (simp flip: power_int_add)
  then show ?thesis using ab by (simp add: power_int_def)
qed

text \<open>Rounding gives back an integer multiple of the quantum that lies closer than half of it.\<close>

lemma rnd_near:
  assumes y: "0 < y" and "\<bar>y - of_int n * 2 powi quantum y\<bar> < 2 powi quantum y / 2"
  shows "rnd y = of_int n * 2 powi quantum y"
proof -
  have "y / 2 powi quantum y - of_int n = (y - of_int n * 2 powi quantum y) / 2 powi quantum y"
    by (simp add: field_simps)
  then have "\<bar>y / 2 powi quantum y - of_int n\<bar> = \<bar>y - of_int n * 2 powi quantum y\<bar> / 2 powi quantum y"
    by (simp only: abs_divide) simp
  also have "\<dots> < 1 / 2" using assms(2) by (simp add: divide_simps)
  finally have "rne (y / 2 powi quantum y) = n" by (rule rne_near)
  then show ?thesis using y by (simp add: rnd_def rnd_pos_def)
qed

lemma quantum_le:
  assumes "0 < y" and "y < 2 powi (q + 53)" and "-1074 \<le> q"
  shows "quantum y \<le> q"
proof -
  have "(2::rat) powi bexp y < 2 powi (q + 53)" using bexp_bounds(1) [OF assms(1)] assms(2) by simp
  then have "bexp y < q + 53" by (rule powi2_less_imp)
  then show ?thesis using assms(3) by (simp add: quantum_def)
qed

lemma below_top: "0 < y \<Longrightarrow> y < 2 powi (quantum y + 53)"
proof -
  assume "0 < y"
  then have "y < 2 powi (bexp y + 1)" by (rule bexp_bounds(2))
  also have "\<dots> \<le> 2 powi (quantum y + 53)" by (intro power_int_increasing) (simp_all add: quantum_def)
  finally show ?thesis .
qed

lemma rnd_exact:
  assumes m: "0 < m" "m < 2 ^ 53" and q: "-1074 \<le> q"
  shows "rnd (of_int m * 2 powi q) = of_int m * 2 powi q"
proof -
  let ?x = "of_int m * 2 powi q :: rat"
  have x: "0 < ?x" using m(1) by simp
  have "(of_int m :: rat) < of_int (2 ^ 53)" using m(2) by (simp only: of_int_less_iff)
  then have "?x < of_int (2 ^ 53) * 2 powi q" by (intro mult_strict_right_mono) simp_all
  then have "?x < 2 powi (q + 53)" by (simp add: power_int_add)
  then have le: "quantum ?x \<le> q" by (rule quantum_le [OF x _ q])
  have eq: "of_int (m * 2 ^ nat (q - quantum ?x)) * 2 powi quantum ?x = ?x"
    using powi2_split [OF le] by simp
  show ?thesis using rnd_near [OF x, of "m * 2 ^ nat (q - quantum ?x)"] unfolding eq by simp
qed

text \<open>Every rounded value is representable, and rounding it again changes nothing.\<close>

lemma rnd_idem [simp]: "rnd (rnd x) = rnd x"
proof -
  have pos: "rnd (rnd_pos x) = rnd_pos x" if x: "0 < x" for x
  proof -
    define m where "m = rne (x / 2 powi quantum x)"
    have eq: "rnd_pos x = of_int m * 2 powi quantum x" by (simp add: rnd_pos_def m_def)
    have q: "-1074 \<le> quantum x" by (simp add: quantum_def)
    have "of_int m * 2 powi quantum x \<le> of_int (2 ^ 53) * (2 powi quantum x :: rat)"
      using rnd_pos_le [OF x] unfolding eq by (simp add: power_int_add mult.commute)
    then have le: "m \<le> 2 ^ 53" by (subst (asm) mult_le_cancel_right_pos) (simp_all only: of_int_le_iff, simp)
    have "0 \<le> of_int m * (2 powi quantum x :: rat)" using rnd_pos_nonneg [OF x] unfolding eq .
    then have "0 \<le> (of_int m :: rat)" using mult_le_cancel_right_pos [of "2 powi quantum x" 0 "of_int m :: rat"] by simp
    then have "0 \<le> m" by simp
    then consider "m = 0" | "0 < m" "m < 2 ^ 53" | "m = 2 ^ 53" using le by linarith
    then show ?thesis
    proof cases
      case 3
      have "of_int (2 ^ 53) * (2 powi quantum x :: rat) = of_int 1 * 2 powi (quantum x + 53)"
        by (simp add: power_int_add)
      then show ?thesis using rnd_exact [of 1 "quantum x + 53"] q unfolding eq 3 by simp
    qed (use rnd_exact q in \<open>simp_all add: eq\<close>)
  qed
  show ?thesis
    unfolding rnd_def [of x] using pos [of x] pos [of "- x"] by auto
qed

text \<open>
  A double is recovered from any rational closer to it than one part in \<open>2^54\<close>.
\<close>

lemma near_top:
  "x \<le> (2 ^ 53 - 1) * u \<Longrightarrow> (y - x) * 2 ^ 54 < x \<Longrightarrow> 0 < u \<Longrightarrow> y < 2 ^ 53 * u"
  "(2 ^ 53 + 1) * u \<le> x \<Longrightarrow> y < 2 ^ 53 * u \<Longrightarrow> (x - y) * 2 ^ 54 < x \<Longrightarrow> 0 < u \<Longrightarrow> False"
  for x y u :: rat
  by simp_all

lemma rnd_close:
  assumes x: "0 < x" "rnd x = x" and close: "\<bar>y - x\<bar> * 2 ^ 54 < x"
  shows "rnd y = x"
proof -
  define m where "m = rne (x / 2 powi quantum x)"
  define q where "q = quantum x"
  have xm: "x = of_int m * 2 powi q" using x by (simp add: rnd_def rnd_pos_def m_def q_def)
  have q: "-1074 \<le> q" by (simp add: q_def quantum_def)
  have u: "0 < (2 powi i :: rat)" for i by simp
  have "x < 2 powi (q + 53)" unfolding q_def by (rule below_top [OF x(1)])
  then have "of_int m * 2 powi q < of_int (2 ^ 53) * (2 powi q :: rat)"
    unfolding xm by (simp add: power_int_add mult.commute)
  then have m53: "m < 2 ^ 53" by (subst (asm) mult_less_cancel_right_pos) (simp_all only: of_int_less_iff, simp)
  have y: "0 < y" using close x(1) by (simp add: abs_if split: if_splits)
  have "y < 2 powi (q + 53)"
  proof -
    have "of_int m \<le> (of_int (2 ^ 53 - 1) :: rat)" using m53 by (simp only: of_int_le_iff)
    then have "x \<le> (2 ^ 53 - 1) * 2 powi q" unfolding xm by (intro mult_right_mono) simp_all
    moreover have "(y - x) * 2 ^ 54 < x" using close by (simp add: abs_if split: if_splits)
    ultimately have "y < 2 ^ 53 * 2 powi q" using u [of q] by (rule near_top(1))
    then show ?thesis by (simp add: power_int_add mult.commute)
  qed
  then have le: "quantum y \<le> q" by (rule quantum_le [OF y _ q])
  define Q where "Q = quantum y"
  define N where "N = m * 2 ^ nat (q - Q)"
  have xN: "x = of_int N * 2 powi Q"
    unfolding xm N_def by (subst powi2_split [OF le [folded Q_def]]) simp
  have "N \<le> 2 ^ 53"
  proof (rule ccontr)
    assume "\<not> N \<le> 2 ^ 53"
    then have N: "2 ^ 53 + 1 \<le> N" by simp
    then have "(of_int (2 ^ 53 + 1) :: rat) \<le> of_int N" by (simp only: of_int_le_iff)
    then have "(2 ^ 53 + 1) * 2 powi Q \<le> x" unfolding xN by (intro mult_right_mono) simp_all
    moreover have "y < 2 ^ 53 * 2 powi Q" using below_top [OF y] by (simp add: Q_def power_int_add mult.commute)
    moreover have "(x - y) * 2 ^ 54 < x" using close by (simp add: abs_if split: if_splits)
    ultimately show False using u [of Q] by (rule near_top(2))
  qed
  then have "(of_int N :: rat) \<le> of_int (2 ^ 53)" by (simp only: of_int_le_iff)
  then have "x \<le> 2 ^ 53 * 2 powi Q" unfolding xN by (intro mult_right_mono) simp_all
  then have "\<bar>y - x\<bar> < 2 powi Q / 2" using close by simp
  then show ?thesis using rnd_near [OF y, of N] unfolding xN Q_def by simp
qed


lemma rnd_least: "0 < x \<Longrightarrow> rnd x = x \<Longrightarrow> 2 powi (-1074) \<le> x"
proof -
  assume x: "0 < x" "rnd x = x"
  have eq: "x = of_int (rne (x / 2 powi quantum x)) * 2 powi quantum x" using x by (simp add: rnd_def rnd_pos_def)
  then have "0 < of_int (rne (x / 2 powi quantum x)) * (2 powi quantum x :: rat)" using x(1) by simp
  then have "0 < (of_int (rne (x / 2 powi quantum x)) :: rat)"
    using mult_less_cancel_right_pos [of "2 powi quantum x" 0 "of_int (rne (x / 2 powi quantum x)) :: rat"] by simp
  then have "(1::rat) \<le> of_int (rne (x / 2 powi quantum x))" by simp
  then have "1 * 2 powi quantum x \<le> of_int (rne (x / 2 powi quantum x)) * (2 powi quantum x :: rat)"
    by (rule mult_right_mono) simp
  then have "2 powi quantum x \<le> x" using eq by simp
  moreover have "(2::rat) powi (-1074) \<le> 2 powi quantum x"
    by (intro power_int_increasing) (simp_all add: quantum_def)
  ultimately show ?thesis by simp
qed

section \<open>Values and operations\<close>

text \<open>\<open>Inf True\<close> is minus infinity.\<close>

datatype pyfloat = NaN | Inf bool | Fin rat

definition fl_limit :: rat where
  \<comment> \<open>two to the power 1024\<close>
  "fl_limit = 4294967296 ^ 32"

definition fl :: "rat \<Rightarrow> pyfloat" where
  "fl x = (let r = rnd x in if fl_limit \<le> \<bar>r\<bar> then Inf (x < 0) else Fin r)"

fun fneg :: "pyfloat \<Rightarrow> pyfloat" where
  "fneg NaN = NaN"
| "fneg (Inf s) = Inf (\<not> s)"
| "fneg (Fin x) = Fin (- x)"

fun fabs :: "pyfloat \<Rightarrow> pyfloat" where
  "fabs NaN = NaN"
| "fabs (Inf s) = Inf False"
| "fabs (Fin x) = Fin \<bar>x\<bar>"

fun fadd :: "pyfloat \<Rightarrow> pyfloat \<Rightarrow> pyfloat" where
  "fadd (Fin x) (Fin y) = fl (x + y)"
| "fadd (Inf s) (Inf t) = (if s = t then Inf s else NaN)"
| "fadd (Inf s) (Fin y) = Inf s"
| "fadd (Fin x) (Inf t) = Inf t"
| "fadd _ _ = NaN"

definition fsub :: "pyfloat \<Rightarrow> pyfloat \<Rightarrow> pyfloat" where
  "fsub x y = fadd x (fneg y)"

fun fmul :: "pyfloat \<Rightarrow> pyfloat \<Rightarrow> pyfloat" where
  "fmul (Fin x) (Fin y) = fl (x * y)"
| "fmul (Inf s) (Inf t) = Inf (s \<noteq> t)"
| "fmul (Inf s) (Fin y) = (if y = 0 then NaN else Inf (s \<noteq> (y < 0)))"
| "fmul (Fin x) (Inf t) = (if x = 0 then NaN else Inf (t \<noteq> (x < 0)))"
| "fmul _ _ = NaN"

text \<open>Division raises on a zero divisor, not-a-number numerators included.\<close>

fun fdiv :: "pyfloat \<Rightarrow> pyfloat \<Rightarrow> exc + pyfloat" where
  "fdiv x (Fin y) = (if y = 0 then Inl (LibRaised ZeroDivisionKind)
     else Inr (case x of NaN \<Rightarrow> NaN | Inf s \<Rightarrow> Inf (s \<noteq> (y < 0)) | Fin a \<Rightarrow> fl (a / y)))"
| "fdiv x (Inf t) = Inr (case x of Fin a \<Rightarrow> Fin 0 | _ \<Rightarrow> NaN)"
| "fdiv x NaN = Inr NaN"

text \<open>Every comparison with not-a-number is false.\<close>

fun flt :: "pyfloat \<Rightarrow> pyfloat \<Rightarrow> bool" where
  "flt (Fin x) (Fin y) = (x < y)"
| "flt (Inf s) (Fin y) = s"
| "flt (Fin x) (Inf t) = (\<not> t)"
| "flt (Inf s) (Inf t) = (s \<and> \<not> t)"
| "flt _ _ = False"

fun fle :: "pyfloat \<Rightarrow> pyfloat \<Rightarrow> bool" where
  "fle (Fin x) (Fin y) = (x \<le> y)"
| "fle (Inf s) (Fin y) = s"
| "fle (Fin x) (Inf t) = (\<not> t)"
| "fle (Inf s) (Inf t) = (s \<or> \<not> t)"
| "fle _ _ = False"

definition feq :: "pyfloat \<Rightarrow> pyfloat \<Rightarrow> bool" where
  "feq x y \<longleftrightarrow> x = y \<and> x \<noteq> NaN"

text \<open>Builtin \<open>max(a, b)\<close> and \<open>min(a, b)\<close>: the first argument unless the second is better.\<close>

definition pymax :: "pyfloat \<Rightarrow> pyfloat \<Rightarrow> pyfloat" where
  "pymax a b = (if flt a b then b else a)"

definition pymin :: "pyfloat \<Rightarrow> pyfloat \<Rightarrow> pyfloat" where
  "pymin a b = (if flt b a then b else a)"

text \<open>\<open>round(x, n)\<close> rounds the exact value to \<open>n\<close> decimals, ties to even, then to a float.\<close>

fun fround :: "nat \<Rightarrow> pyfloat \<Rightarrow> pyfloat" where
  "fround n (Fin x) = fl (of_int (rne (x * 10 ^ n)) / 10 ^ n)"
| "fround n x = x"

text \<open>The conversion of an int, which raises when the value is too large.\<close>

definition float_of_int :: "int \<Rightarrow> exc + pyfloat" where
  "float_of_int n = (case fl (of_int n) of Fin x \<Rightarrow> Inr (Fin x) | _ \<Rightarrow> Inl (LibRaised OverflowKind))"

section \<open>Facts on bounded values\<close>

text \<open>\<open>in_unit\<close> and \<open>in_range\<close> say that a float is finite and lies between two bounds.\<close>

definition in_range :: "rat \<Rightarrow> rat \<Rightarrow> pyfloat \<Rightarrow> bool" where
  "in_range a b x \<longleftrightarrow> (case x of Fin r \<Rightarrow> a \<le> r \<and> r \<le> b | _ \<Rightarrow> False)"

lemma in_range_Fin [simp]: "in_range a b (Fin r) \<longleftrightarrow> a \<le> r \<and> r \<le> b"
  and in_range_special [simp]: "\<not> in_range a b NaN" "\<not> in_range a b (Inf s)"
  by (simp_all add: in_range_def)

lemma in_rangeE: "in_range a b x \<Longrightarrow> (\<And>r. x = Fin r \<Longrightarrow> a \<le> r \<Longrightarrow> r \<le> b \<Longrightarrow> P) \<Longrightarrow> P"
  by (cases x) auto

lemma fl_small: "\<bar>rnd x\<bar> < fl_limit \<Longrightarrow> fl x = Fin (rnd x)"
  by (simp add: fl_def Let_def)

lemma fl_limit_gt: "(2 ^ 53 :: rat) < fl_limit"
  by (simp add: fl_limit_def)

text \<open>The finite values a Python float can have, and the values themselves.\<close>

definition double :: "rat \<Rightarrow> bool" where
  "double x \<longleftrightarrow> rnd x = x \<and> \<bar>x\<bar> < fl_limit"

definition is_double :: "pyfloat \<Rightarrow> bool" where
  "is_double x \<longleftrightarrow> (case x of Fin r \<Rightarrow> double r | _ \<Rightarrow> True)"

lemma is_double_simps [simp]: "is_double NaN" "is_double (Inf s)" "is_double (Fin r) \<longleftrightarrow> double r"
  by (simp_all add: is_double_def)

lemma double_minus [simp]: "double (- x) \<longleftrightarrow> double x"
  by (simp add: double_def)

lemma is_double_fl [simp]: "is_double (fl x)"
  by (simp add: fl_def Let_def double_def)

lemma fl_uminus: "fl y = Fin x \<Longrightarrow> fl (- y) = Fin (- x)"
  by (auto simp: fl_def Let_def split: if_splits)

lemma is_double_fround [simp]: "is_double (fround n x)"
  by (cases x) simp_all

lemma fl_in_range:
  assumes "a \<le> x" and "x \<le> b" and "rnd a = a" and "rnd b = b"
    and "- (2 ^ 53) \<le> a" and "b \<le> 2 ^ 53"
  shows "in_range a b (fl x)"
proof -
  have r: "a \<le> rnd x" "rnd x \<le> b" using rnd_mono [OF assms(1)] rnd_mono [OF assms(2)] assms by auto
  then have "\<bar>rnd x\<bar> \<le> 2 ^ 53" using assms by linarith
  then have "\<bar>rnd x\<bar> < fl_limit" using fl_limit_gt by linarith
  then show ?thesis using r by (simp add: fl_small)
qed

lemma fround_in_range:
  assumes "in_range (of_int a) (of_int b) x" and "rnd (of_int a) = of_int a" "rnd (of_int b) = of_int b"
    and "- (2 ^ 53) \<le> a" "b \<le> 2 ^ 53"
  shows "in_range (of_int a) (of_int b) (fround n x)"
proof -
  obtain r where r: "x = Fin r" "of_int a \<le> r" "r \<le> of_int b" using assms(1) by (rule in_rangeE)
  have "of_int (a * 10 ^ n) \<le> r * 10 ^ n" "r * 10 ^ n \<le> of_int (b * 10 ^ n)" using r by simp_all
  then have "a * 10 ^ n \<le> rne (r * 10 ^ n)" "rne (r * 10 ^ n) \<le> b * 10 ^ n" using rne_mono rne_of_int by metis+
  then have "(of_int (a * 10 ^ n) :: rat) \<le> of_int (rne (r * 10 ^ n))" "(of_int (rne (r * 10 ^ n)) :: rat) \<le> of_int (b * 10 ^ n)"
    by (simp_all only: of_int_le_iff)
  then have "of_int a \<le> of_int (rne (r * 10 ^ n)) / (10 ^ n :: rat)" "of_int (rne (r * 10 ^ n)) / (10 ^ n :: rat) \<le> of_int b"
    by (simp_all add: field_simps)
  moreover have "- (2 ^ 53) \<le> (of_int a :: rat)" "(of_int b :: rat) \<le> 2 ^ 53"
    using assms(4,5) by (metis of_int_le_iff of_int_minus of_int_numeral of_int_power)+
  ultimately show ?thesis unfolding r(1) fround.simps using assms(2,3) by (intro fl_in_range)
qed

lemma fl_unit: "0 \<le> x \<Longrightarrow> x \<le> 1 \<Longrightarrow> in_range 0 1 (fl x)"
  by (rule fl_in_range) auto

lemma pymin_in_range: "in_range a b x \<Longrightarrow> in_range a b y \<Longrightarrow> in_range a b (pymin x y)"
  and pymax_in_range: "in_range a b x \<Longrightarrow> in_range a b y \<Longrightarrow> in_range a b (pymax x y)"
  by (auto simp: pymin_def pymax_def)

text \<open>Clamping \<open>max(a, min(b, x))\<close> lands between the bounds whatever \<open>x\<close> is.\<close>

lemma clamp_in_range: "a \<le> b \<Longrightarrow> in_range a b (pymax (Fin a) (pymin (Fin b) x))"
  by (cases x) (auto simp: pymin_def pymax_def)

end
