(* ===== verification/Pyval.thy ===== *)
theory Pyval
  imports Pyfloat Wire
begin

text \<open>
  The dynamically typed values that travel in messages and sensor readings, with the Python
  operations the sources apply to them: \<open>v.get(k, d)\<close>, \<open>v[k]\<close>, numeric arithmetic and
  comparison across \<open>bool\<close>, \<open>int\<close> and \<open>float\<close>, \<open>float(v)\<close>, \<open>sorted\<close>. An operation
  on a value of the wrong type raises \<open>TypeError\<close> or \<open>AttributeError\<close>, as it does there.
\<close>

datatype pyval =
    PNone
  | PBool bool
  | PInt int
  | PFloat pyfloat
  | PStr string
  | PBytes bytes
  | PList "pyval list"
  | PDict "(string \<times> pyval) list"

abbreviation type_error :: exc where "type_error \<equiv> LibRaised TypeKind"
abbreviation attribute_error :: exc where "attribute_error \<equiv> LibRaised AttributeKind"

text \<open>\<open>str(KeyError(k))\<close> is the quoted key.\<close>

definition key_error :: "string \<Rightarrow> exc" where
  "key_error k = Raised KeyKind ([CHR 0x27] @ k @ [CHR 0x27])"

text \<open>\<open>v.get(k, d)\<close>: only a dict has the attribute.\<close>

fun get_or :: "string \<Rightarrow> pyval \<Rightarrow> pyval \<Rightarrow> exc + pyval" where
  "get_or k d (PDict m) = Inr (case map_of m k of None \<Rightarrow> d | Some v \<Rightarrow> v)"
| "get_or k d _ = Inl attribute_error"

text \<open>\<open>v[k]\<close> for a string \<open>k\<close>.\<close>

fun get_item :: "string \<Rightarrow> pyval \<Rightarrow> exc + pyval" where
  "get_item k (PDict m) = (case map_of m k of None \<Rightarrow> Inl (key_error k) | Some v \<Rightarrow> Inr v)"
| "get_item k _ = Inl type_error"

text \<open>\<open>v[k] = x\<close> for a string \<open>k\<close>.\<close>

fun set_item :: "string \<Rightarrow> pyval \<Rightarrow> pyval \<Rightarrow> exc + pyval" where
  "set_item k x (PDict m) = Inr (PDict (dict_set k x m))"
| "set_item k x _ = Inl type_error"

fun as_bytes :: "pyval \<Rightarrow> exc + bytes" where
  \<comment> \<open>what \<open>b''.join\<close>, \<open>hexlify\<close> and slicing into \<open>bytes\<close> accept\<close>
  "as_bytes (PBytes b) = Inr b"
| "as_bytes _ = Inl type_error"

fun as_str :: "pyval \<Rightarrow> exc + string" where
  "as_str (PStr s) = Inr s"
| "as_str _ = Inl type_error"

section \<open>Numbers\<close>

datatype pynum = NInt int | NFlt pyfloat

fun as_num :: "pyval \<Rightarrow> pynum option" where
  "as_num (PBool b) = Some (NInt (if b then 1 else 0))"
| "as_num (PInt n) = Some (NInt n)"
| "as_num (PFloat x) = Some (NFlt x)"
| "as_num _ = None"

fun of_num :: "pynum \<Rightarrow> pyval" where
  "of_num (NInt n) = PInt n"
| "of_num (NFlt x) = PFloat x"

fun num_float :: "pynum \<Rightarrow> exc + pyfloat" where
  "num_float (NInt n) = float_of_int n"
| "num_float (NFlt x) = Inr x"

definition float_op :: "(pyfloat \<Rightarrow> pyfloat \<Rightarrow> exc + pyfloat) \<Rightarrow> pynum \<Rightarrow> pynum \<Rightarrow> exc + pynum" where
  "float_op f a b = rbind (num_float a) (\<lambda>x. rbind (num_float b) (\<lambda>y. rbind (f x y) (\<lambda>z. Inr (NFlt z))))"

fun num_add :: "pynum \<Rightarrow> pynum \<Rightarrow> exc + pynum" where
  "num_add (NInt a) (NInt b) = Inr (NInt (a + b))"
| "num_add a b = float_op (\<lambda>x y. Inr (fadd x y)) a b"

fun num_sub :: "pynum \<Rightarrow> pynum \<Rightarrow> exc + pynum" where
  "num_sub (NInt a) (NInt b) = Inr (NInt (a - b))"
| "num_sub a b = float_op (\<lambda>x y. Inr (fsub x y)) a b"

text \<open>True division; of two ints it rounds the exact quotient once.\<close>

definition num_div :: "pynum \<Rightarrow> pynum \<Rightarrow> exc + pynum" where
  "num_div a b = (case (a, b) of
     (NInt m, NInt n) \<Rightarrow>
       if n = 0 then Inl (LibRaised ZeroDivisionKind)
       else (case fl (of_int m / of_int n) of Fin x \<Rightarrow> Inr (NFlt (Fin x)) | _ \<Rightarrow> Inl (LibRaised OverflowKind))
   | _ \<Rightarrow> float_op fdiv a b)"

fun num_abs :: "pynum \<Rightarrow> pynum" where
  "num_abs (NInt n) = NInt \<bar>n\<bar>"
| "num_abs (NFlt x) = NFlt (fabs x)"

text \<open>Comparison of an int with a float is exact, without conversion.\<close>

definition exact :: "pynum \<Rightarrow> pyfloat" where
  "exact a = (case a of NInt n \<Rightarrow> Fin (of_int n) | NFlt x \<Rightarrow> x)"

definition num_lt :: "pynum \<Rightarrow> pynum \<Rightarrow> bool" where
  "num_lt a b = flt (exact a) (exact b)"

definition num_binop :: "(pynum \<Rightarrow> pynum \<Rightarrow> exc + pynum) \<Rightarrow> pyval \<Rightarrow> pyval \<Rightarrow> exc + pyval" where
  "num_binop f x y = (case (as_num x, as_num y) of
     (Some a, Some b) \<Rightarrow> rbind (f a b) (\<lambda>c. Inr (of_num c)) | _ \<Rightarrow> Inl type_error)"

text \<open>
  \<open>x + y\<close> where one side is known to be a number, or where a non-numeric sum raises
  \<open>TypeError\<close> in the next operation anyway.
\<close>

definition py_add :: "pyval \<Rightarrow> pyval \<Rightarrow> exc + pyval" where
  "py_add = num_binop num_add"

definition py_sub :: "pyval \<Rightarrow> pyval \<Rightarrow> exc + pyval" where
  "py_sub = num_binop num_sub"

definition py_div :: "pyval \<Rightarrow> pyval \<Rightarrow> exc + pyval" where
  "py_div = num_binop num_div"

definition py_abs :: "pyval \<Rightarrow> exc + pyval" where
  "py_abs x = (case as_num x of Some a \<Rightarrow> Inr (of_num (num_abs a)) | None \<Rightarrow> Inl type_error)"

text \<open>
  \<open>x < y\<close>: numbers, or two strings (compared by code point, which is the order of their
  UTF-8 bytes). Two lists also compare, but where the sources sort values the sorted list is
  then used as numbers, so a list ends in \<open>TypeError\<close> either way.
\<close>

definition str_lt :: "string \<Rightarrow> string \<Rightarrow> bool" where
  "str_lt s t = ((map of_char s, map of_char t :: nat list) \<in> lexord {(a, b). a < b})"

fun py_lt :: "pyval \<Rightarrow> pyval \<Rightarrow> exc + bool" where
  "py_lt (PStr s) (PStr t) = Inr (str_lt s t)"
| "py_lt x y = (case (as_num x, as_num y) of
     (Some a, Some b) \<Rightarrow> Inr (num_lt a b) | _ \<Rightarrow> Inl type_error)"

text \<open>
  \<open>list.sort\<close>: a stable insertion by \<open><\<close>. On values that \<open><\<close> orders totally every stable
  sort gives this list; with a not-a-number among them the order CPython leaves depends on its
  merge strategy and is not modelled.
\<close>

fun py_insort :: "pyval \<Rightarrow> pyval list \<Rightarrow> exc + pyval list" where
  "py_insort x [] = Inr [x]"
| "py_insort x (y # ys) = rbind (py_lt y x) (\<lambda>b.
     if b then rbind (py_insort x ys) (\<lambda>zs. Inr (y # zs)) else Inr (x # y # ys))"

fun py_sort :: "pyval list \<Rightarrow> exc + pyval list" where
  "py_sort [] = Inr []"
| "py_sort (x # xs) = rbind (py_sort xs) (py_insort x)"

section \<open>Decimal text\<close>

definition is_digit :: "char \<Rightarrow> bool" where
  "is_digit c \<longleftrightarrow> (let n = (of_char c :: nat) in 48 \<le> n \<and> n \<le> 57)"

definition digits_val :: "string \<Rightarrow> int" where
  "digits_val s = foldl (\<lambda>n c. 10 * n + (of_char c - 48)) 0 s"

function dec_str :: "int \<Rightarrow> string" where
  "dec_str n = (if n < 10 then [char_of (48 + n)] else dec_str (n div 10) @ [char_of (48 + n mod 10)])"
  by pat_completeness auto
termination
  by (relation "measure nat") auto

declare dec_str.simps [simp del]

definition int_str :: "int \<Rightarrow> string" where
  "int_str n = (if n < 0 then ''-'' @ dec_str (- n) else dec_str n)"

text \<open>
  The decimal \<open>[sign] int [. frac] [e exp]\<close> as an exact rational, rounded once to a float.
\<close>

definition dec_value :: "bool \<Rightarrow> string \<Rightarrow> string \<Rightarrow> int \<Rightarrow> pyfloat" where
  "dec_value neg ip fp ex = (let m = of_int (digits_val (ip @ fp)) * 10 powi (ex - int (length fp))
     in fl (if neg then - m else m))"

text \<open>
  \<open>float(s)\<close> of a string: optional white space and sign, then \<open>inf\<close>, \<open>infinity\<close> or \<open>nan\<close> in
  any case, or a decimal whose digits may be grouped by single underscores. Decimal digits beyond
  ASCII, which Python accepts too, raise \<open>ValueError\<close> here.
\<close>

function digit_part :: "string \<Rightarrow> string \<times> string" where
  "digit_part s = (case s of [] \<Rightarrow> ([], [])
     | c # r \<Rightarrow> if is_digit c then
         (let q = (case r of u # d # r' \<Rightarrow> if u = CHR ''_'' \<and> is_digit d then d # r' else r | _ \<Rightarrow> r);
              (ds, rest) = digit_part q in (c # ds, rest))
       else ([], s))"
  by pat_completeness auto
termination
  by (relation "measure length") (auto split: list.splits if_splits)

declare digit_part.simps [simp del]

definition lower :: "string \<Rightarrow> string" where
  "lower s = map (\<lambda>c. let n = (of_char c :: nat) in if 65 \<le> n \<and> n \<le> 90 then char_of (n + 32) else c) s"

definition strip_ws :: "string \<Rightarrow> string" where
  "strip_ws s = rev (dropWhile py_space (rev (dropWhile py_space s)))"

fun sign_part :: "string \<Rightarrow> bool \<times> string" where
  "sign_part (c # r) = (if c = CHR ''-'' then (True, r) else if c = CHR ''+'' then (False, r) else (False, c # r))"
| "sign_part [] = (False, [])"

definition exp_value :: "string \<Rightarrow> int option" where
  \<comment> \<open>the whole rest of the literal is an exponent, or nothing\<close>
  "exp_value s = (case s of [] \<Rightarrow> Some 0
     | e # r \<Rightarrow> if e \<in> {CHR ''e'', CHR ''E''} then
         (let (neg, r') = sign_part r; (ds, rest) = digit_part r' in
          if ds \<noteq> [] \<and> rest = [] then Some (if neg then - digits_val ds else digits_val ds) else None)
       else None)"

definition float_of_str :: "string \<Rightarrow> exc + pyfloat" where
  "float_of_str s =
     (let (neg, t) = sign_part (strip_ws s) in
      if lower t \<in> {''inf'', ''infinity''} then Inr (Inf neg)
      else if lower t = ''nan'' then Inr NaN
      else let (ip, r1) = digit_part t;
               (fp, r2) = (case r1 of c # q \<Rightarrow> if c = CHR ''.'' then digit_part q else ([], r1) | [] \<Rightarrow> ([], r1)) in
        if ip = [] \<and> fp = [] then Inl (LibRaised ValueKind)
        else (case exp_value r2 of None \<Rightarrow> Inl (LibRaised ValueKind)
              | Some ex \<Rightarrow> Inr (dec_value neg ip fp ex)))"

text \<open>
  \<open>float.__repr__\<close>: the shortest decimal that reads back as the same float, positional
  between \<open>1e-4\<close> and \<open>1e16\<close>, with an exponent outside.
\<close>

definition sig_digits :: "rat \<Rightarrow> int \<Rightarrow> nat \<Rightarrow> int" where
  "sig_digits x e k = rne (x * 10 powi (int k - e))"

definition dec_exp :: "rat \<Rightarrow> int" where
  \<comment> \<open>the \<open>e\<close> with \<open>10^(e-1) \<le> x < 10^e\<close>, searched among the exponents of doubles\<close>
  "dec_exp x = hd (filter (\<lambda>e. x < 10 powi e) [-324..309])"

definition shortest :: "rat \<Rightarrow> nat" where
  "shortest x = hd (filter (\<lambda>k. fl (of_int (sig_digits x (dec_exp x) k) * 10 powi (dec_exp x - int k)) = Fin x)
     [1..<17] @ [17])"

fun strip_zeros :: "string \<Rightarrow> string" where
  "strip_zeros s = (if s \<noteq> [] \<and> last s = CHR ''0'' then strip_zeros (butlast s) else s)"

declare strip_zeros.simps [simp del]

definition repr_pos :: "rat \<Rightarrow> string" where
  "repr_pos x = (let k = shortest x; m = sig_digits x (dec_exp x) k; ds = strip_zeros (dec_str m);
       p = dec_exp x + int (length (dec_str m)) - int k in
     if -4 < p \<and> p \<le> 16 then
       (if p \<le> 0 then ''0.'' @ replicate (nat (- p)) (CHR ''0'') @ ds
        else if nat p < length ds then take (nat p) ds @ ''.'' @ drop (nat p) ds
        else ds @ replicate (nat p - length ds) (CHR ''0'') @ ''.0'')
     else take 1 ds @ (if length ds = 1 then [] else ''.'' @ drop 1 ds) @ ''e''
       @ (if p - 1 < 0 then ''-'' else ''+'')
       @ (let t = dec_str \<bar>p - 1\<bar> in if length t < 2 then ''0'' @ t else t))"

fun float_repr :: "pyfloat \<Rightarrow> string" where
  "float_repr NaN = ''nan''"
| "float_repr (Inf s) = (if s then ''-inf'' else ''inf'')"
| "float_repr (Fin x) = (if x = 0 then ''0.0'' else if x < 0 then ''-'' @ repr_pos (- x) else repr_pos x)"

section \<open>Facts\<close>

lemma as_bytes_Inr_iff [simp]: "as_bytes v = Inr b \<longleftrightarrow> v = PBytes b"
  by (cases v) auto

lemma as_str_Inr_iff [simp]: "as_str v = Inr s \<longleftrightarrow> v = PStr s"
  by (cases v) auto

lemma py_insort_set:
  "py_insort x ys = Inr zs \<Longrightarrow> set zs = insert x (set ys) \<and> length zs = Suc (length ys)"
proof (induction ys arbitrary: zs)
  case (Cons y ys)
  then obtain b where b: "py_lt y x = Inr b" by (auto simp: rbind_Inr_iff)
  show ?case
  proof (cases b)
    case True
    with Cons.prems b obtain us where "py_insort x ys = Inr us" "zs = y # us"
      by (auto simp: rbind_Inr_iff)
    then show ?thesis using Cons.IH by auto
  next
    case False
    then show ?thesis using Cons.prems b by auto
  qed
qed simp

lemma py_sort_set: "py_sort xs = Inr zs \<Longrightarrow> set zs = set xs \<and> length zs = length xs"
proof (induction xs arbitrary: zs)
  case (Cons x xs)
  then obtain ys where y: "py_sort xs = Inr ys" and i: "py_insort x ys = Inr zs"
    by (auto simp: rbind_Inr_iff)
  from py_insort_set [OF i] Cons.IH [OF y] show ?case by simp
qed simp

end
