(* ===== verification/Decimal.thy ===== *)
theory Decimal
  imports Pyval
begin

text \<open>
  The decimal text of numbers. \<open>str(n)\<close> of an int is its digits; \<open>repr(x)\<close> of a float is built from
  the fewest digits that read back as \<open>x\<close>, and seventeen always do, so its value is \<open>x\<close> and
  its text is short. The reading side is in \<open>Json\<close>.
\<close>

section \<open>Integers\<close>

lemma digit_char:
  assumes "0 \<le> n" and "n < 10"
  shows "is_digit (char_of (48 + n :: int))" "of_char (char_of (48 + n :: int)) = 48 + n"
    "char_of (48 + n :: int) = CHR ''0'' \<longleftrightarrow> n = 0" "char_of (48 + n :: int) \<noteq> CHR ''-''"
proof -
  obtain k where n: "n = int k" using assms(1) nonneg_int_cases by blast
  have c: "char_of (48 + n) = (char_of (48 + k) :: char)"
    unfolding n by (metis char_of_nat of_nat_add of_nat_numeral)
  have oc: "(of_char (char_of (48 + n) :: char) :: nat) = 48 + k"
    unfolding c using assms n by simp
  then show "is_digit (char_of (48 + n))" using assms by (simp add: is_digit_def n)
  show "of_char (char_of (48 + n)) = 48 + n" using assms by simp
  have "char_of (48 + n) = CHR ''0'' \<longleftrightarrow> (of_char (char_of (48 + n) :: char) :: nat) = 48"
  proof -
    have z: "(of_char (CHR ''0'') :: nat) = 48" by simp
    show ?thesis unfolding z [symmetric] of_char_eq_iff ..
  qed
  then show "char_of (48 + n) = CHR ''0'' \<longleftrightarrow> n = 0" using oc n by simp
  show "char_of (48 + n) \<noteq> CHR ''-''"
  proof
    assume "char_of (48 + n) = CHR ''-''"
    then have "(of_char (char_of (48 + n) :: char) :: nat) = 45" by simp
    then show False using oc by simp
  qed
qed

lemma dec_str_facts:
  assumes "0 \<le> n"
  shows "dec_str n \<noteq> [] \<and> (\<forall>c \<in> set (dec_str n). is_digit c) \<and> digits_val (dec_str n) = n
    \<and> (hd (dec_str n) = CHR ''0'' \<longrightarrow> n = 0) \<and> hd (dec_str n) \<noteq> CHR ''-''"
  using assms
proof (induction n rule: dec_str.induct)
  case (1 n)
  show ?case
  proof (cases "n < 10")
    case True
    then show ?thesis
      using 1 digit_char [of n] by (simp add: dec_str.simps [of n] digits_val_def)
  next
    case False
    with 1 have IH: "dec_str (n div 10) \<noteq> [] \<and> (\<forall>c \<in> set (dec_str (n div 10)). is_digit c)
      \<and> digits_val (dec_str (n div 10)) = n div 10
      \<and> (hd (dec_str (n div 10)) = CHR ''0'' \<longrightarrow> n div 10 = 0) \<and> hd (dec_str (n div 10)) \<noteq> CHR ''-''"
      by simp
    moreover have "n div 10 \<noteq> 0" using False by simp
    ultimately show ?thesis
      using False digit_char [of "n mod 10"] by (simp add: dec_str.simps [of n] digits_val_def)
  qed
qed

lemma length_dec_str: "n < 10 ^ Suc k \<Longrightarrow> length (dec_str n) \<le> Suc k"
proof (induction k arbitrary: n)
  case (Suc k)
  then have "n div 10 < 10 ^ Suc k" by auto
  then show ?case using Suc.IH [of "n div 10"] by (simp add: dec_str.simps [of n])
qed (simp add: dec_str.simps)

section \<open>The value of digits\<close>

abbreviation digits :: "string \<Rightarrow> bool" where
  "digits \<equiv> list_all is_digit"

lemma digits_val_append: "digits_val (s @ t) = digits_val s * 10 ^ length t + digits_val t"
proof -
  have "foldl (\<lambda>n c. 10 * n + (of_char c - 48)) a t = a * 10 ^ length t + digits_val t" for a
  proof (induction t rule: rev_induct)
    case (snoc c t)
    then show ?case by (simp add: digits_val_def)
  qed (simp add: digits_val_def)
  then show ?thesis by (simp add: digits_val_def [of "s @ t"] digits_val_def [of s])
qed

lemma digits_val_zeros [simp]: "digits_val (replicate n (CHR ''0'')) = 0"
  by (induction n) (simp_all add: digits_val_def)

lemma digits_val_Nil [simp]: "digits_val [] = 0"
  by (simp add: digits_val_def)

lemma digits_val_zero [simp]: "digits_val (CHR ''0'' # s) = digits_val s"
  by (simp add: digits_val_def)

lemma digits_zeros [simp]: "digits (replicate n (CHR ''0''))"
  by (induction n) (simp_all add: is_digit_def)

lemma strip_zeros_split: "\<exists>n. s = strip_zeros s @ replicate n (CHR ''0'')"
proof (induction s rule: strip_zeros.induct)
  case (1 s)
  show ?case
  proof (cases "s \<noteq> [] \<and> last s = CHR ''0''")
    case True
    then obtain n where "butlast s = strip_zeros (butlast s) @ replicate n (CHR ''0'')" using 1 by blast
    moreover have "s = butlast s @ [CHR ''0'']" using True append_butlast_last_id [of s] by simp
    ultimately have "s = strip_zeros (butlast s) @ replicate (Suc n) (CHR ''0'')"
      by (metis append.assoc replicate_append_same replicate_Suc)
    moreover have "strip_zeros s = strip_zeros (butlast s)" using True by (subst strip_zeros.simps) simp
    ultimately show ?thesis by (simp only:) blast
  next
    case False
    then show ?thesis by (auto simp: strip_zeros.simps [of s] intro: exI [of _ 0])
  qed
qed

text \<open>The significant digits of a positive number, without the zeros at its end.\<close>

lemma stripped_digits:
  assumes "0 < m"
  shows "\<exists>z. dec_str m = strip_zeros (dec_str m) @ replicate z (CHR ''0'') \<and> m = digits_val (strip_zeros (dec_str m)) * 10 ^ z"
    "strip_zeros (dec_str m) \<noteq> []" "digits (strip_zeros (dec_str m))" "hd (strip_zeros (dec_str m)) \<noteq> CHR ''0''"
proof -
  note f = dec_str_facts [of m]
  define ds where "ds = strip_zeros (dec_str m)"
  obtain z where z: "dec_str m = ds @ replicate z (CHR ''0'')" using strip_zeros_split [of "dec_str m"] by (auto simp: ds_def)
  have v: "m = digits_val ds * 10 ^ z"
    using f assms unfolding z by (simp add: digits_val_append)
  then have ne: "ds \<noteq> []" using assms by (auto simp: digits_val_def)
  have "digits ds" using f assms unfolding z by (simp add: list_all_iff)
  moreover have "hd ds \<noteq> CHR ''0''" using f assms ne unfolding z by simp
  ultimately show "\<exists>z. dec_str m = strip_zeros (dec_str m) @ replicate z (CHR ''0'') \<and> m = digits_val (strip_zeros (dec_str m)) * 10 ^ z"
    "strip_zeros (dec_str m) \<noteq> []" "digits (strip_zeros (dec_str m))" "hd (strip_zeros (dec_str m)) \<noteq> CHR ''0''"
    using z v ne unfolding ds_def by blast+
qed

section \<open>The shortest digits of a float\<close>

lemma rat_power_limit: "fl_limit \<le> 10 powi 309"
  by (simp add: fl_limit_def power_int_def)

lemma dec_exp_bound:
  assumes "0 < x" and "x < fl_limit"
  shows "x < 10 powi dec_exp x" "-324 \<le> dec_exp x" "dec_exp x \<le> 309"
proof -
  define es :: "int list" where "es = [-324..309]"
  have es: "set es = {-324..309}" by (simp only: es_def set_upto)
  have "x < 10 powi 309" using assms(2) rat_power_limit by (rule less_le_trans)
  then have "309 \<in> set (filter (\<lambda>e. x < 10 powi e) es)" by (simp only: set_filter es) simp
  then have "filter (\<lambda>e. x < 10 powi e) es \<noteq> []" by (metis empty_iff empty_set)
  from hd_in_set [OF this] have "dec_exp x \<in> {e \<in> set es. x < 10 powi e}"
    by (simp only: dec_exp_def es_def set_filter)
  then show "x < 10 powi dec_exp x" "-324 \<le> dec_exp x" "dec_exp x \<le> 309" by (simp_all only: es) simp_all
qed

lemma shortest_bound: "shortest x \<le> 17"
proof -
  have "hd (filter P [1..<17] @ [17]) \<in> set (filter P [1..<17] @ [17])" for P :: "nat \<Rightarrow> bool"
    by (rule hd_in_set) simp
  from this [of "\<lambda>k. fl (of_int (sig_digits x (dec_exp x) k) * 10 powi (dec_exp x - int k)) = Fin x"]
  show ?thesis by (auto simp: shortest_def)
qed

lemma sig_digits_bound:
  assumes "0 < x" and "x < 10 powi e" and "k \<le> 17"
  shows "0 \<le> sig_digits x e k" "sig_digits x e k < 10 ^ 18"
proof -
  have "x * 10 powi (int k - e) \<le> 10 powi e * 10 powi (int k - e)"
    using assms(2) by (intro mult_right_mono) simp_all
  also have "\<dots> = 10 powi (e + (int k - e))" by (rule power_int_add [symmetric]) simp
  also have "\<dots> = of_int (10 ^ k)" by simp
  finally have "sig_digits x e k \<le> 10 ^ k"
    unfolding sig_digits_def using rne_mono rne_of_int by metis
  also have "\<dots> \<le> 10 ^ 17" using assms(3) by (intro power_increasing) simp_all
  finally show "sig_digits x e k < 10 ^ 18" by simp
  have "rne (of_int 0) \<le> rne (x * 10 powi (int k - e))" using assms(1) by (intro rne_mono) simp
  then show "0 \<le> sig_digits x e k" unfolding sig_digits_def rne_of_int .
qed

lemma hd_filter_upto: "P b \<Longrightarrow> a \<le> b \<Longrightarrow> hd (filter P [a..b]) = a \<or> \<not> P (hd (filter P [a..b]) - 1)" for a b :: int
proof (induction "nat (b - a)" arbitrary: a)
  case (Suc n)
  have ab: "[a..b] = a # [a + 1..b]" using Suc.prems(2) by (rule upto_rec1)
  show ?case
  proof (cases "P a")
    case False
    then have "a < b" using Suc.prems by (cases "a = b") auto
    then have "hd (filter P [a + 1..b]) = a + 1 \<or> \<not> P (hd (filter P [a + 1..b]) - 1)"
      using Suc by (intro Suc.hyps(1)) auto
    then show ?thesis using False by (auto simp: ab)
  qed (simp add: ab)
qed auto

lemma dec_exp_least:
  assumes "0 < x" and "rnd x = x" and "x < fl_limit"
  shows "10 powi (dec_exp x - 1) \<le> x"
proof -
  have "x < 10 powi 309" using assms(3) rat_power_limit by (rule less_le_trans)
  from hd_filter_upto [of "\<lambda>e. x < 10 powi e", OF this, of "-324"]
  have "dec_exp x = -324 \<or> \<not> x < 10 powi (dec_exp x - 1)" unfolding dec_exp_def by linarith
  then consider "dec_exp x = -324" | "\<not> x < 10 powi (dec_exp x - 1)" by blast
  then show ?thesis
  proof cases
    case 1
    have "inverse (10 ^ 325 :: rat) \<le> inverse (2 ^ 1074)" by (rule le_imp_inverse_le) simp_all
    then have "(10::rat) powi (-325) \<le> 2 powi (-1074)" by (simp only: power_int_minus power_int_numeral)
    then show ?thesis using rnd_least [OF assms(1,2)] 1 by simp
  qed simp
qed

text \<open>Seventeen digits determine a double.\<close>

lemma seventeen_digits:
  assumes "0 < x" and "double x"
  shows "fl (of_int (sig_digits x (dec_exp x) 17) * 10 powi (dec_exp x - 17)) = Fin x"
proof -
  define u :: rat where "u = 10 powi (dec_exp x - 17)"
  define y where "y = of_int (sig_digits x (dec_exp x) 17) * u"
  have d: "rnd x = x" "x < fl_limit" using assms by (simp_all add: double_def)
  have u: "0 < u" "10 powi (17 - dec_exp x) = 1 / u"
    by (simp_all add: u_def power_int_diff)
  have "10 powi (dec_exp x - 1) = 10 ^ 16 * u" by (simp add: u_def power_int_diff)
  then have xu: "10 ^ 16 * u \<le> x" using dec_exp_least [OF assms(1) d] by simp
  have "\<bar>x / u - of_int (sig_digits x (dec_exp x) 17)\<bar> \<le> 1 / 2"
    using rne_error [of "x * 10 powi (17 - dec_exp x)"] by (simp add: sig_digits_def u(2))
  then have "\<bar>x / u - of_int (sig_digits x (dec_exp x) 17)\<bar> * u \<le> 1 / 2 * u"
    using u(1) by (intro mult_right_mono) simp_all
  moreover have "\<bar>x / u - of_int (sig_digits x (dec_exp x) 17)\<bar> * u = \<bar>y - x\<bar>"
  proof -
    have "(x / u - of_int (sig_digits x (dec_exp x) 17)) * u = x - y"
      using u(1) by (simp add: y_def left_diff_distrib)
    then show ?thesis using u(1) abs_mult_pos [of u "x / u - of_int (sig_digits x (dec_exp x) 17)"] by (simp add: abs_minus_commute)
  qed
  ultimately have "\<bar>y - x\<bar> * 2 ^ 54 < x" using xu u(1) by simp
  then have "rnd y = x" by (rule rnd_close [OF assms(1) d(1)])
  then show ?thesis using fl_small [of y] assms by (simp add: double_def y_def u_def)
qed

lemma shortest_reads:
  assumes "0 < x" and "double x"
  shows "fl (of_int (sig_digits x (dec_exp x) (shortest x)) * 10 powi (dec_exp x - int (shortest x))) = Fin x"
proof -
  define P where "P = (\<lambda>k. fl (of_int (sig_digits x (dec_exp x) k) * 10 powi (dec_exp x - int k)) = Fin x)"
  have "P 17" unfolding P_def using seventeen_digits [OF assms] by simp
  then have "P (hd (filter P [1..<17] @ [17]))"
    by (cases "filter P [1..<17]") (auto dest: filter_eq_ConsD)
  then show ?thesis by (simp add: shortest_def P_def)
qed

lemma power_int_shift: "(10::rat) ^ z * 10 powi i = 10 powi (int z + i)"
  by (simp add: power_int_add)

text \<open>The text of a positive double: its digits \<open>ds\<close>, and the place \<open>p\<close> of the decimal point.\<close>

definition repr_text :: "string \<Rightarrow> int \<Rightarrow> string" where
  "repr_text ds p =
     (if -4 < p \<and> p \<le> 16 then
       (if p \<le> 0 then ''0.'' @ replicate (nat (- p)) (CHR ''0'') @ ds
        else if nat p < length ds then take (nat p) ds @ ''.'' @ drop (nat p) ds
        else ds @ replicate (nat p - length ds) (CHR ''0'') @ ''.0'')
     else take 1 ds @ (if length ds = 1 then [] else ''.'' @ drop 1 ds) @ ''e''
       @ (if p - 1 < 0 then ''-'' else ''+'')
       @ (let t = dec_str \<bar>p - 1\<bar> in if length t < 2 then ''0'' @ t else t))"

lemma repr_pos_text:
  assumes x: "0 < x" "double x"
  obtains ds p where "repr_pos x = repr_text ds p" "ds \<noteq> []" "digits ds" "hd ds \<noteq> CHR ''0''"
    "fl (of_int (digits_val ds) * 10 powi (p - int (length ds))) = Fin x"
proof -
  define e k where "e = dec_exp x" and "k = shortest x"
  define m where "m = sig_digits x e k"
  define ds where "ds = strip_zeros (dec_str m)"
  define p where "p = e + int (length (dec_str m)) - int k"
  have y: "fl (of_int m * 10 powi (e - int k)) = Fin x"
    using shortest_reads [OF x] by (simp add: m_def e_def k_def)
  have "0 \<le> m" using sig_digits_bound(1) [OF x(1) dec_exp_bound(1) shortest_bound] x
    by (simp add: m_def e_def k_def double_def)
  moreover have "m \<noteq> 0" using y x(1) by (auto simp: fl_def fl_limit_def)
  ultimately have m: "0 < m" by simp
  note ds = stripped_digits [OF m, folded ds_def]
  obtain z where z: "dec_str m = ds @ replicate z (CHR ''0'')" "m = digits_val ds * 10 ^ z" using ds(1) by blast
  have "p - int (length ds) = int z + (e - int k)" by (simp add: p_def z(1))
  then have "of_int (digits_val ds) * 10 powi (p - int (length ds)) = (of_int m * 10 powi (e - int k) :: rat)"
    by (subst z(2)) (simp add: mult.assoc power_int_shift)
  moreover have "repr_pos x = repr_text ds p"
    by (simp add: repr_pos_def repr_text_def Let_def ds_def m_def p_def e_def k_def)
  ultimately show ?thesis using that y ds(2-4) by simp
qed

lemma repr_text_chars:
  assumes "digits ds" "ds \<noteq> []"
  shows "\<forall>c \<in> set (repr_text ds p). is_digit c \<or> c \<in> {CHR ''.'', CHR ''e'', CHR ''-'', CHR ''+''}"
    "repr_text ds p \<noteq> [] \<and> is_digit (hd (repr_text ds p))"
proof -
  have "\<forall>c \<in> set (dec_str \<bar>p - 1\<bar>). is_digit c" using dec_str_facts [of "\<bar>p - 1\<bar>"] by simp
  then show "\<forall>c \<in> set (repr_text ds p). is_digit c \<or> c \<in> {CHR ''.'', CHR ''e'', CHR ''-'', CHR ''+''}"
    using assms(1) by (auto simp: repr_text_def Let_def list_all_iff is_digit_def dest: in_set_takeD in_set_dropD)
  show "repr_text ds p \<noteq> [] \<and> is_digit (hd (repr_text ds p))"
    using assms by (cases ds; cases "nat p") (auto simp: repr_text_def is_digit_def)
qed

section \<open>The length of a float's text\<close>

lemma length_strip_zeros: "length (strip_zeros s) \<le> length s"
  by (induction s rule: strip_zeros.induct) (subst strip_zeros.simps, auto)

lemma length_repr_pos:
  assumes "0 < x" and "x < fl_limit"
  shows "length (repr_pos x) \<le> 40"
proof -
  note e = dec_exp_bound [OF assms]
  define k where "k = shortest x"
  define m where "m = sig_digits x (dec_exp x) k"
  define ds where "ds = strip_zeros (dec_str m)"
  define p where "p = dec_exp x + int (length (dec_str m)) - int k"
  have k: "k \<le> 17" unfolding k_def by (rule shortest_bound)
  have "m < 10 ^ Suc 17" using sig_digits_bound(2) [OF assms(1) e(1) k] by (simp add: m_def)
  from length_dec_str [OF this] have m: "length (dec_str m) \<le> 18" by simp
  then have ds: "length ds \<le> 18" unfolding ds_def using length_strip_zeros order_trans by blast
  have p: "-350 \<le> p" "p \<le> 350" using e k m by (simp_all add: p_def)
  then have "length (dec_str \<bar>p - 1\<bar>) \<le> Suc 2" by (intro length_dec_str) simp
  then show ?thesis
    using ds p unfolding repr_pos_def Let_def k_def [symmetric] m_def [symmetric] ds_def [symmetric] p_def [symmetric]
    by auto
qed

end
