(* ===== verification/Json.thy ===== *)
theory Json
  imports Decimal
begin

text \<open>
  The part of the standard \<open>json\<close> module the protocols use: \<open>json.dumps(v)\<close> with its default
  separators and \<open>ensure_ascii\<close>, and \<open>json.loads(s)\<close>. Strings are UTF-8 bytes; an escaped
  lone surrogate is held in the three-byte form. \<open>loads\<close> takes fuel twice the length of the
  text, more than its recursion needs. Main result: \<open>loads\<close> reads back what \<open>dumps\<close> wrote,
  floats included, for values whose strings are ASCII.
\<close>

abbreviation json_error :: exc where "json_error \<equiv> LibRaised JsonKind"

section \<open>Writing\<close>

definition hex4 :: "nat \<Rightarrow> string" where
  "hex4 n = [hex_digits ! (n div 4096 mod 16), hex_digits ! (n div 256 mod 16),
             hex_digits ! (n div 16 mod 16), hex_digits ! (n mod 16)]"

definition esc_cp :: "nat \<Rightarrow> string" where
  "esc_cp n =
     (if n = 34 then [CHR 0x5C, CHR 0x22] else if n = 92 then [CHR 0x5C, CHR 0x5C]
      else if n = 10 then [CHR 0x5C, CHR ''n''] else if n = 13 then [CHR 0x5C, CHR ''r'']
      else if n = 9 then [CHR 0x5C, CHR ''t''] else if n = 12 then [CHR 0x5C, CHR ''f'']
      else if n = 8 then [CHR 0x5C, CHR ''b'']
      else if 32 \<le> n \<and> n \<le> 126 then [char_of n]
      else if n < 65536 then [CHR 0x5C, CHR ''u''] @ hex4 n
      else [CHR 0x5C, CHR ''u''] @ hex4 (55296 + (n - 65536) div 1024)
           @ [CHR 0x5C, CHR ''u''] @ hex4 (56320 + (n - 65536) mod 1024))"

text \<open>The code points of a (well-formed) UTF-8 string.\<close>

fun utf8_cps :: "nat list \<Rightarrow> nat list" where
  "utf8_cps [] = []"
| "utf8_cps (a # r) =
     (if a < 128 then a # utf8_cps r
      else if a < 224 then (case r of b # r' \<Rightarrow> ((a - 192) * 64 + (b - 128)) # utf8_cps r' | _ \<Rightarrow> [])
      else if a < 240 then (case r of
          b # c # r' \<Rightarrow> ((a - 224) * 4096 + (b - 128) * 64 + (c - 128)) # utf8_cps r' | _ \<Rightarrow> [])
      else (case r of
          b # c # d # r' \<Rightarrow>
            ((a - 240) * 262144 + (b - 128) * 4096 + (c - 128) * 64 + (d - 128)) # utf8_cps r'
        | _ \<Rightarrow> []))"

definition json_str :: "string \<Rightarrow> string" where
  "json_str s = [CHR 0x22] @ concat (map esc_cp (utf8_cps (map of_char s))) @ [CHR 0x22]"

definition json_float :: "pyfloat \<Rightarrow> string" where
  "json_float x = (case x of NaN \<Rightarrow> ''NaN'' | Inf s \<Rightarrow> (if s then ''-Infinity'' else ''Infinity'')
     | Fin r \<Rightarrow> float_repr x)"

fun dumps :: "pyval \<Rightarrow> exc + string"
and dumps_items :: "pyval list \<Rightarrow> exc + string"
and dumps_members :: "(string \<times> pyval) list \<Rightarrow> exc + string" where
  "dumps PNone = Inr ''null''"
| "dumps (PBool b) = Inr (if b then ''true'' else ''false'')"
| "dumps (PInt n) = Inr (int_str n)"
| "dumps (PFloat x) = Inr (json_float x)"
| "dumps (PStr s) = Inr (json_str s)"
| "dumps (PBytes b) = Inl type_error"
| "dumps (PList vs) = rbind (dumps_items vs) (\<lambda>t. Inr (''['' @ t @ '']''))"
| "dumps (PDict d) = rbind (dumps_members d) (\<lambda>t. Inr (''{'' @ t @ ''}''))"
| "dumps_items [] = Inr []"
| "dumps_items (v # vs) = rbind (dumps v) (\<lambda>t.
     if vs = [] then Inr t else rbind (dumps_items vs) (\<lambda>u. Inr (t @ '', '' @ u)))"
| "dumps_members [] = Inr []"
| "dumps_members ((k, v) # d) = rbind (dumps v) (\<lambda>t.
     if d = [] then Inr (json_str k @ '': '' @ t)
     else rbind (dumps_members d) (\<lambda>u. Inr (json_str k @ '': '' @ t @ '', '' @ u)))"

section \<open>Reading\<close>

definition json_ws :: "char \<Rightarrow> bool" where
  "json_ws c \<longleftrightarrow> c \<in> {CHR '' '', CHR 0x09, CHR 0x0A, CHR 0x0D}"

definition skip_ws :: "string \<Rightarrow> string" where
  "skip_ws s = dropWhile json_ws s"

definition utf8_encode :: "nat \<Rightarrow> string" where
  "utf8_encode n =
     (if n < 128 then [char_of n]
      else if n < 2048 then map char_of [192 + n div 64, 128 + n mod 64]
      else if n < 65536 then map char_of [224 + n div 4096, 128 + n div 64 mod 64, 128 + n mod 64]
      else map char_of [240 + n div 262144, 128 + n div 4096 mod 64, 128 + n div 64 mod 64,
                        128 + n mod 64])"

definition esc_char :: "char \<Rightarrow> char option" where
  "esc_char c =
     (if c \<in> {CHR 0x22, CHR 0x5C, CHR ''/''} then Some c
      else if c = CHR ''b'' then Some (CHR 0x08) else if c = CHR ''f'' then Some (CHR 0x0C)
      else if c = CHR ''n'' then Some (CHR 0x0A) else if c = CHR ''r'' then Some (CHR 0x0D)
      else if c = CHR ''t'' then Some (CHR 0x09) else None)"

definition hex4_val :: "char \<Rightarrow> char \<Rightarrow> char \<Rightarrow> char \<Rightarrow> nat option" where
  "hex4_val a b c d = (case (hex_val a, hex_val b, hex_val c, hex_val d) of
     (Some w, Some x, Some y, Some z) \<Rightarrow> Some (((w * 16 + x) * 16 + y) * 16 + z) | _ \<Rightarrow> None)"

text \<open>A low surrogate escape that completes the pair begun by \<open>u\<close>.\<close>

fun low_surrogate :: "nat \<Rightarrow> string \<Rightarrow> nat option" where
  "low_surrogate u (b # x # p # q # r # t # s) =
     (if 55296 \<le> u \<and> u \<le> 56319 \<and> b = CHR 0x5C \<and> x = CHR ''u'' then
        (case hex4_val p q r t of
           Some v \<Rightarrow> if 56320 \<le> v \<and> v \<le> 57343
                     then Some (65536 + (u - 55296) * 1024 + (v - 56320)) else None
         | None \<Rightarrow> None)
      else None)"
| "low_surrogate u _ = None"

text \<open>The body of a string literal, after its opening quote.\<close>

function jstring :: "string \<Rightarrow> exc + (string \<times> string)" where
  "jstring [] = Inl json_error"
| "jstring (c # s) =
     (if c = CHR 0x22 then Inr ([], s)
      else if c = CHR 0x5C then
        (case s of [] \<Rightarrow> Inl json_error
         | e # s' \<Rightarrow>
           (case esc_char e of
              Some d \<Rightarrow> rbind (jstring s') (\<lambda>(t, r). Inr (d # t, r))
            | None \<Rightarrow>
              (if e \<noteq> CHR ''u'' then Inl json_error
               else case s' of
                 p # q # r # t # s'' \<Rightarrow>
                   (case hex4_val p q r t of
                      None \<Rightarrow> Inl json_error
                    | Some u \<Rightarrow>
                      (case low_surrogate u s'' of
                         Some n \<Rightarrow> rbind (jstring (drop 6 s'')) (\<lambda>(x, y). Inr (utf8_encode n @ x, y))
                       | None \<Rightarrow> rbind (jstring s'') (\<lambda>(x, y). Inr (utf8_encode u @ x, y))))
               | _ \<Rightarrow> Inl json_error)))
      else if (of_char c :: nat) < 32 then Inl json_error
      else rbind (jstring s) (\<lambda>(t, r). Inr (c # t, r)))"
  by pat_completeness auto
termination
  by (relation "measure length") (auto split: list.splits)

declare jstring.simps(2) [simp del]

text \<open>A number, with the interpreter's limit of 4300 digits on an integer literal.\<close>

definition int_part :: "string \<Rightarrow> (string \<times> string) option" where
  "int_part s = (case s of [] \<Rightarrow> None
     | c # r \<Rightarrow> if c = CHR ''0'' then Some ([c], r)
               else if is_digit c then Some (takeWhile is_digit s, dropWhile is_digit s) else None)"

definition frac_part :: "string \<Rightarrow> (string \<times> string) option" where
  "frac_part s = (case s of c # r \<Rightarrow>
     if c = CHR ''.'' \<and> takeWhile is_digit r \<noteq> []
     then Some (takeWhile is_digit r, dropWhile is_digit r) else None | [] \<Rightarrow> None)"

definition exp_part :: "string \<Rightarrow> (int \<times> string) option" where
  "exp_part s = (case s of c # r \<Rightarrow>
     if c \<in> {CHR ''e'', CHR ''E''} then
       (let neg = (r \<noteq> [] \<and> hd r = CHR ''-'');
            r' = (if r \<noteq> [] \<and> hd r \<in> {CHR ''-'', CHR ''+''} then tl r else r);
            ds = takeWhile is_digit r'
        in if ds = [] then None
           else Some ((if neg then - digits_val ds else digits_val ds), dropWhile is_digit r'))
     else None | [] \<Rightarrow> None)"

definition jnum_unsigned :: "bool \<Rightarrow> string \<Rightarrow> exc + (pyval \<times> string)" where
  "jnum_unsigned neg s = (case int_part s of
     None \<Rightarrow> Inl json_error
   | Some (ip, s2) \<Rightarrow>
     (case frac_part s2 of
        None \<Rightarrow>
          (case exp_part s2 of
             None \<Rightarrow> if 4300 < length ip then Inl (LibRaised ValueKind)
                     else Inr (PInt (if neg then - digits_val ip else digits_val ip), s2)
           | Some (ex, s4) \<Rightarrow> Inr (PFloat (dec_value neg ip [] ex), s4))
      | Some (fp, s3) \<Rightarrow>
          (case exp_part s3 of
             None \<Rightarrow> Inr (PFloat (dec_value neg ip fp 0), s3)
           | Some (ex, s4) \<Rightarrow> Inr (PFloat (dec_value neg ip fp ex), s4))))"

definition strip_prefix :: "string \<Rightarrow> string \<Rightarrow> string option" where
  "strip_prefix p s = (if take (length p) s = p then Some (drop (length p) s) else None)"

definition jnumber :: "string \<Rightarrow> exc + (pyval \<times> string)" where
  "jnumber s = (case s of
     c # r \<Rightarrow> if c = CHR ''-'' then
                (case strip_prefix ''Infinity'' r of
                   Some r' \<Rightarrow> Inr (PFloat (Inf True), r') | None \<Rightarrow> jnum_unsigned True r)
              else jnum_unsigned False s
   | [] \<Rightarrow> Inl json_error)"

text \<open>The literal names.\<close>

definition json_names :: "(string \<times> pyval) list" where
  "json_names = [(''null'', PNone), (''true'', PBool True), (''false'', PBool False),
     (''NaN'', PFloat NaN), (''Infinity'', PFloat (Inf False))]"

fun jname :: "(string \<times> pyval) list \<Rightarrow> string \<Rightarrow> (pyval \<times> string) option" where
  "jname [] s = None"
| "jname ((p, v) # t) s = (case strip_prefix p s of Some r \<Rightarrow> Some (v, r) | None \<Rightarrow> jname t s)"

fun jval :: "nat \<Rightarrow> string \<Rightarrow> exc + (pyval \<times> string)"
and jitems :: "nat \<Rightarrow> string \<Rightarrow> exc + (pyval list \<times> string)"
and jmembers :: "nat \<Rightarrow> (string \<times> pyval) list \<Rightarrow> string \<Rightarrow> exc + ((string \<times> pyval) list \<times> string)"
where
  "jval 0 s = Inl json_error"
| "jval (Suc n) s = (case s of
     [] \<Rightarrow> Inl json_error
   | c # r \<Rightarrow>
     if c = CHR 0x22 then rbind (jstring r) (\<lambda>(t, r'). Inr (PStr t, r'))
     else if c = CHR ''{'' then
       (if take 1 (skip_ws r) = ''}'' then Inr (PDict [], drop 1 (skip_ws r))
        else rbind (jmembers n [] (skip_ws r)) (\<lambda>(d, r'). Inr (PDict d, r')))
     else if c = CHR ''['' then
       (if take 1 (skip_ws r) = '']'' then Inr (PList [], drop 1 (skip_ws r))
        else rbind (jitems n (skip_ws r)) (\<lambda>(vs, r'). Inr (PList vs, r')))
     else case jname json_names s of
            Some vr \<Rightarrow> Inr vr
          | None \<Rightarrow> jnumber s)"
| "jitems 0 s = Inl json_error"
| "jitems (Suc n) s = rbind (jval n s) (\<lambda>(v, r).
     case skip_ws r of
       c # r' \<Rightarrow> if c = CHR '','' then rbind (jitems n (skip_ws r')) (\<lambda>(vs, r''). Inr (v # vs, r''))
                else if c = CHR '']'' then Inr ([v], r') else Inl json_error
     | [] \<Rightarrow> Inl json_error)"
| "jmembers 0 d s = Inl json_error"
| "jmembers (Suc n) d s = (case s of
     [] \<Rightarrow> Inl json_error
   | q # s' \<Rightarrow> if q \<noteq> CHR 0x22 then Inl json_error
     else rbind (jstring s') (\<lambda>(k, r).
       case skip_ws r of
         [] \<Rightarrow> Inl json_error
       | c # r1 \<Rightarrow> if c \<noteq> CHR '':'' then Inl json_error
         else rbind (jval n (skip_ws r1)) (\<lambda>(v, r2).
           case skip_ws r2 of
             e # r3 \<Rightarrow> if e = CHR '','' then jmembers n (dict_set k v d) (skip_ws r3)
                      else if e = CHR ''}'' then Inr (dict_set k v d, r3) else Inl json_error
           | [] \<Rightarrow> Inl json_error)))"

definition loads :: "string \<Rightarrow> exc + pyval" where
  "loads s = rbind (jval (2 * length s + 2) (skip_ws s)) (\<lambda>(v, r).
     if skip_ws r = [] then Inr v else Inl json_error)"

section \<open>Strings read back\<close>

lemma hex4_val_hex4:
  "n < 65536 \<Longrightarrow> hex4_val (hex_digits ! (n div 4096 mod 16)) (hex_digits ! (n div 256 mod 16))
     (hex_digits ! (n div 16 mod 16)) (hex_digits ! (n mod 16)) = Some n"
proof -
  assume n: "n < 65536"
  define a b c where "a = n div 16" and "b = a div 16" and "c = b div 16"
  have abc: "n div 256 = b" "n div 4096 = c" "c mod 16 = c"
    using n by (simp_all add: a_def b_def c_def flip: div_mult2_eq)
  define r s t where "r = n mod 16" and "s = a mod 16" and "t = b mod 16"
  have "n = a * 16 + r" "a = b * 16 + s" "b = c * 16 + t"
    by (simp_all add: a_def b_def c_def r_def s_def t_def)
  then have "((c * 16 + t) * 16 + s) * 16 + r = n" by simp
  then have "((c * 16 + b mod 16) * 16 + a mod 16) * 16 + n mod 16 = n"
    unfolding r_def s_def t_def .
  then show ?thesis
    using abc by (simp add: hex4_val_def hex_digits_nth flip: a_def)
qed

lemma low_surrogate_small: "u < 55296 \<Longrightarrow> low_surrogate u s = None"
  by (cases "(u, s)" rule: low_surrogate.cases) auto

lemma jstring_unicode_escape:
  "n < 128 \<Longrightarrow> jstring ([CHR 0x5C, CHR ''u''] @ hex4 n @ s) = rbind (jstring s) (\<lambda>(t, r). Inr (char_of n # t, r))"
  using hex4_val_hex4 [of n]
  by (simp add: jstring.simps(2) hex4_def esc_char_def low_surrogate_small utf8_encode_def)

lemma char_of_specials:
  "char_of (34 :: nat) = CHR 0x22" "char_of (92 :: nat) = CHR 0x5C" "char_of (10 :: nat) = CHR 0x0A"
  "char_of (13 :: nat) = CHR 0x0D" "char_of (9 :: nat) = CHR 0x09" "char_of (12 :: nat) = CHR 0x0C"
  "char_of (8 :: nat) = CHR 0x08"
  by code_simp+

lemma jstring_esc_cp:
  assumes "(of_char c :: nat) < 128"
  shows "jstring (esc_cp (of_char c) @ s) = rbind (jstring s) (\<lambda>(t, r). Inr (c # t, r))"
proof -
  define n where "n = (of_char c :: nat)"
  have c: "c = char_of n" by (simp add: n_def)
  consider "n \<in> {34, 92, 10, 13, 9, 12, 8}"
    | "32 \<le> n" "n \<le> 126" "n \<noteq> 34" "n \<noteq> 92"
    | "n < 32 \<or> n = 127" "n \<notin> {34, 92, 10, 13, 9, 12, 8}"
    using assms unfolding n_def by fastforce
  then show ?thesis
  proof cases
    case 1
    then have "c \<in> {CHR 0x22, CHR 0x5C, CHR 0x0A, CHR 0x0D, CHR 0x09, CHR 0x0C, CHR 0x08}"
      unfolding c using char_of_specials by auto
    then show ?thesis
      by (elim insertE emptyE) (simp_all add: esc_cp_def jstring.simps(2) esc_char_def)
  next
    case 2
    then have "c \<noteq> CHR 0x22" "c \<noteq> CHR 0x5C" by (auto simp: n_def)
    then show ?thesis using 2 by (simp add: esc_cp_def jstring.simps(2) flip: n_def c)
  next
    case 3
    then have "esc_cp n = [CHR 0x5C, CHR ''u''] @ hex4 n" by (auto simp: esc_cp_def)
    then show ?thesis
      using jstring_unicode_escape [of n s] assms by (simp add: n_def)
  qed
qed

lemma utf8_cps_ascii: "ascii s \<Longrightarrow> utf8_cps (map of_char s) = map of_char s"
  by (induction s) auto

lemma jstring_concat:
  "ascii s \<Longrightarrow> jstring (concat (map esc_cp (map of_char s)) @ CHR 0x22 # r) = Inr (s, r)"
  by (induction s) (simp_all add: jstring_esc_cp jstring.simps(2))

lemma jstring_json_str: "ascii s \<Longrightarrow> \<exists>u. json_str s = CHR 0x22 # u \<and> (\<forall>r. jstring (u @ r) = Inr (s, r))"
  using jstring_concat [of s] by (auto simp: json_str_def utf8_cps_ascii)

section \<open>Integers read back\<close>

definition json_delim :: "string \<Rightarrow> bool" where
  "json_delim r \<longleftrightarrow> (r = [] \<or> hd r \<in> {CHR '','', CHR '']'', CHR ''}'', CHR 0x0A})"

lemma takeWhile_digits:
  assumes "\<forall>c \<in> set s. is_digit c" and "json_delim r"
  shows "takeWhile is_digit (s @ r) = s" "dropWhile is_digit (s @ r) = r"
proof -
  have "takeWhile is_digit r = [] \<and> dropWhile is_digit r = r"
    using assms(2) by (cases r) (auto simp: json_delim_def is_digit_def)
  then show "takeWhile is_digit (s @ r) = s" "dropWhile is_digit (s @ r) = r"
    using assms(1) by (simp_all add: takeWhile_append2 dropWhile_append2)
qed

lemma int_part_dec_str:
  assumes "0 \<le> n" and "json_delim r"
  shows "int_part (dec_str n @ r) = Some (dec_str n, r)"
proof -
  obtain c s where d: "dec_str n = c # s" using dec_str_facts [OF assms(1)] by (cases "dec_str n") auto
  show ?thesis
  proof (cases "c = CHR ''0''")
    case True
    then have "n = 0" using dec_str_facts [OF assms(1)] d by simp
    then have "dec_str n = [c]" using d by (simp add: dec_str.simps [of 0])
    then show ?thesis using True by (simp add: int_part_def)
  next
    case False
    then show ?thesis
      using takeWhile_digits [of "dec_str n" r] dec_str_facts [OF assms(1)] assms(2) d
      by (simp add: int_part_def)
  qed
qed

lemma jnum_unsigned_dec_str:
  assumes "0 \<le> n" and "length (dec_str n) \<le> 4300" and "json_delim r"
  shows "jnum_unsigned neg (dec_str n @ r) = Inr (PInt (if neg then - n else n), r)"
proof -
  have "frac_part r = None" "exp_part r = None"
    using assms(3) by (cases r; auto simp: json_delim_def frac_part_def exp_part_def)+
  then show ?thesis
    using assms dec_str_facts [OF assms(1)] by (simp add: jnum_unsigned_def int_part_dec_str)
qed

lemma strip_prefix_hd: "p \<noteq> [] \<Longrightarrow> s = [] \<or> hd s \<noteq> hd p \<Longrightarrow> strip_prefix p s = None"
  by (cases p; cases s) (auto simp: strip_prefix_def)

lemma strip_prefix_append [simp]: "strip_prefix p (p @ s) = Some s"
  by (simp add: strip_prefix_def)

lemma jnumber_int_str:
  assumes "length (dec_str \<bar>n\<bar>) \<le> 4300" and "json_delim r"
  shows "jnumber (int_str n @ r) = Inr (PInt n, r)"
proof (cases "n < 0")
  case True
  have "hd (dec_str (- n) @ r) \<noteq> CHR ''I''"
    using dec_str_facts [of "- n"] True by (cases "dec_str (- n)") (auto simp: is_digit_def)
  then have "strip_prefix ''Infinity'' (dec_str (- n) @ r) = None" by (intro strip_prefix_hd) auto
  then show ?thesis
    using True jnum_unsigned_dec_str [of "- n" r True] assms by (simp add: jnumber_def int_str_def)
next
  case False
  then obtain c s where d: "dec_str n = c # s" and c: "c \<noteq> CHR ''-''"
    using dec_str_facts [of n] by (cases "dec_str n") auto
  then show ?thesis
    using False jnum_unsigned_dec_str [of n r False] assms by (simp add: jnumber_def int_str_def)
qed

section \<open>Floats read back\<close>

definition nondigit :: "string \<Rightarrow> bool" where
  "nondigit r \<longleftrightarrow> r = [] \<or> \<not> is_digit (hd r)"

lemma digits_run:
  assumes "digits s" and "nondigit r"
  shows "takeWhile is_digit (s @ r) = s" "dropWhile is_digit (s @ r) = r"
  using assms by (auto simp: nondigit_def list_all_iff takeWhile_append dropWhile_append takeWhile_eq_Nil_iff dropWhile_eq_self_iff)

definition whole :: "string \<Rightarrow> bool" where
  "whole ip \<longleftrightarrow> ip \<noteq> [] \<and> digits ip \<and> (hd ip = CHR ''0'' \<longrightarrow> ip = ''0'')"

lemma int_part_whole: "whole ip \<Longrightarrow> nondigit r \<Longrightarrow> int_part (ip @ r) = Some (ip, r)"
  using digits_run [of ip r] by (cases ip) (auto simp: whole_def int_part_def)

lemma delim_stops: "json_delim r \<Longrightarrow> nondigit r" "json_delim r \<Longrightarrow> frac_part r = None" "json_delim r \<Longrightarrow> exp_part r = None"
  by (cases r; auto simp: json_delim_def nondigit_def is_digit_def frac_part_def exp_part_def)+

lemma frac_part_dot: "digits fp \<Longrightarrow> fp \<noteq> [] \<Longrightarrow> nondigit r \<Longrightarrow> frac_part (CHR ''.'' # fp @ r) = Some (fp, r)"
  using digits_run [of fp r] by (simp add: frac_part_def)

lemma exp_part_e: "digits es \<Longrightarrow> es \<noteq> [] \<Longrightarrow> nondigit r \<Longrightarrow>
    exp_part (CHR ''e'' # (if neg then CHR ''-'' else CHR ''+'') # es @ r) = Some (if neg then - digits_val es else digits_val es, r)"
  using digits_run [of es r] by (simp add: exp_part_def Let_def)

lemma nondigit_simps [simp]: "nondigit (CHR ''.'' # s)" "nondigit (CHR ''e'' # s)"
  by (simp_all add: nondigit_def is_digit_def)

lemma read_point:
  assumes "whole ip" and "digits fp" "fp \<noteq> []" and "json_delim r"
  shows "jnum_unsigned neg (ip @ CHR ''.'' # fp @ r) = Inr (PFloat (dec_value neg ip fp 0), r)"
  using assms by (simp add: jnum_unsigned_def int_part_whole frac_part_dot delim_stops)

lemma read_exponent:
  assumes "whole ip" and "digits fp" and "digits es" "es \<noteq> []" and "json_delim r"
  shows "jnum_unsigned neg (ip @ (if fp = [] then [] else CHR ''.'' # fp)
      @ CHR ''e'' # (if eneg then CHR ''-'' else CHR ''+'') # es @ r)
    = Inr (PFloat (dec_value neg ip fp (if eneg then - digits_val es else digits_val es)), r)"
proof -
  have e: "exp_part (CHR ''e'' # (if eneg then CHR ''-'' else CHR ''+'') # es @ r)
      = Some (if eneg then - digits_val es else digits_val es, r)"
    using assms by (intro exp_part_e delim_stops)
  show ?thesis
  proof (cases "fp = []")
    case True
    have "frac_part (CHR ''e'' # s) = None" for s by (simp add: frac_part_def)
    then show ?thesis using e assms(1) True by (simp add: jnum_unsigned_def int_part_whole)
  next
    case False
    then show ?thesis using e assms by (simp add: jnum_unsigned_def int_part_whole frac_part_dot)
  qed
qed

lemma whole_take: "digits ds \<Longrightarrow> ds \<noteq> [] \<Longrightarrow> hd ds \<noteq> CHR ''0'' \<Longrightarrow> 0 < n \<Longrightarrow> whole (take n ds)"
  by (cases ds; cases n) (auto simp: whole_def list_all_iff dest: in_set_takeD)

lemma read_repr_pos:
  assumes x: "0 < x" "double x" and r: "json_delim r"
  shows "jnum_unsigned neg (repr_pos x @ r) = Inr (PFloat (Fin (if neg then - x else x)), r)"
proof -
  obtain ds p where ds: "repr_pos x = repr_text ds p" "ds \<noteq> []" "digits ds" "hd ds \<noteq> CHR ''0''"
    "fl (of_int (digits_val ds) * 10 powi (p - int (length ds))) = Fin x"
    by (rule repr_pos_text [OF x])
  define v where "v = (of_int (digits_val ds) * 10 powi (p - int (length ds)) :: rat)"
  have v: "fl (if neg then - v else v) = Fin (if neg then - x else x)"
    using ds(5) fl_uminus by (simp add: v_def)
  have dv: "dec_value neg ip fp ex = Fin (if neg then - x else x)"
    if "of_int (digits_val (ip @ fp)) * 10 powi (ex - int (length fp)) = v" for ip fp ex
    using v that by (simp add: dec_value_def Let_def)
  note shape = ds(1) [unfolded repr_text_def]
  consider "-4 < p" "p \<le> 0" | "0 < p" "p \<le> 16" "nat p < length ds" | "0 < p" "p \<le> 16" "length ds \<le> nat p"
    | "\<not> (-4 < p \<and> p \<le> 16)" by linarith
  then show ?thesis
  proof cases
    case 1
    have "dec_value neg ''0'' (replicate (nat (- p)) (CHR ''0'') @ ds) 0 = Fin (if neg then - x else x)"
      using 1 by (intro dv) (simp add: v_def digits_val_append)
    moreover have "repr_pos x @ r = ''0'' @ CHR ''.'' # (replicate (nat (- p)) (CHR ''0'') @ ds) @ r"
      using shape 1 by simp
    ultimately show ?thesis
      using read_point [of "''0''" "replicate (nat (- p)) (CHR ''0'') @ ds" r neg] ds(2,3) r
      by (simp add: whole_def is_digit_def)
  next
    case 2
    have "dec_value neg (take (nat p) ds) (drop (nat p) ds) 0 = Fin (if neg then - x else x)"
      using 2 by (intro dv) (simp add: v_def of_nat_diff)
    moreover have "digits (drop (nat p) ds)" using ds(3) by (auto simp: list_all_iff dest: in_set_dropD)
    moreover have "repr_pos x @ r = take (nat p) ds @ CHR ''.'' # drop (nat p) ds @ r" using shape 2 by simp
    moreover have "whole (take (nat p) ds)" using ds 2 by (intro whole_take) simp_all
    ultimately show ?thesis
      using read_point [of "take (nat p) ds" "drop (nat p) ds" r neg] 2(3) r by simp
  next
    case 3
    define j where "j = nat p - length ds"
    have j: "p - int (length ds) = int j" using 3 by (simp add: j_def)
    have "dec_value neg (ds @ replicate j (CHR ''0'')) ''0'' 0 = Fin (if neg then - x else x)"
      by (intro dv) (simp add: v_def j digits_val_append)
    moreover have "whole (ds @ replicate j (CHR ''0''))"
      using ds(2-4) by (simp add: whole_def)
    moreover have "repr_pos x @ r = (ds @ replicate j (CHR ''0'')) @ CHR ''.'' # ''0'' @ r"
      using shape 3 by (simp add: j_def)
    ultimately show ?thesis
      using read_point [of "ds @ replicate j (CHR ''0'')" "''0''" r neg] r
      by (simp add: is_digit_def)
  next
    case 4
    define t where "t = dec_str \<bar>p - 1\<bar>"
    define es where "es = (if length t < 2 then ''0'' @ t else t)"
    have t: "t \<noteq> []" "digits t" "digits_val t = \<bar>p - 1\<bar>"
      using dec_str_facts [of "\<bar>p - 1\<bar>"] by (simp_all add: t_def list_all_iff)
    have es: "es \<noteq> []" "digits es" "digits_val es = \<bar>p - 1\<bar>"
      using t by (simp_all add: es_def is_digit_def)
    obtain c ds' where c: "ds = c # ds'" using ds(2) by (cases ds) auto
    have "(if p - 1 < 0 then - digits_val es else digits_val es) = p - 1" by (simp add: es(3))
    moreover have "dec_value neg [c] ds' (p - 1) = Fin (if neg then - x else x)"
      by (intro dv) (simp add: v_def c diff_diff_eq)
    moreover have "whole [c]" "digits ds'" using ds(3,4) by (simp_all add: c whole_def)
    moreover have "repr_pos x @ r = [c] @ (if ds' = [] then [] else CHR ''.'' # ds')
        @ CHR ''e'' # (if p - 1 < 0 then CHR ''-'' else CHR ''+'') # es @ r"
      unfolding shape if_not_P [OF 4] es_def t_def Let_def c by simp
    ultimately show ?thesis
      using read_exponent [of "[c]" ds' es r neg "p - 1 < 0"] es(1,2) r by simp
  qed
qed

lemma json_float_chars:
  assumes "is_double x"
  shows "\<exists>c t. json_float x = c # t \<and> (is_digit c \<or> c \<in> {CHR ''-'', CHR ''N'', CHR ''I''})" "ascii (json_float x)"
proof -
  have pos: "repr_pos r \<noteq> [] \<and> is_digit (hd (repr_pos r)) \<and> ascii (repr_pos r)" if r: "0 < r" "double r" for r
  proof -
    obtain ds p where d: "repr_pos r = repr_text ds p" "ds \<noteq> []" "digits ds" by (rule repr_pos_text [OF r])
    have "ascii (repr_text ds p)"
      using repr_text_chars(1) [OF d(3,2), of p] by (fastforce simp: ascii_def is_digit_def Let_def)
    then show ?thesis using repr_text_chars(2) [OF d(3,2), of p] d(1) by simp
  qed
  have "(\<exists>c t. json_float x = c # t \<and> (is_digit c \<or> c \<in> {CHR ''-'', CHR ''N'', CHR ''I''})) \<and> ascii (json_float x)"
  proof (cases x)
    case (Fin r)
    consider "r = 0" | "0 < r" | "r < 0" by linarith
    then show ?thesis
    proof cases
      case 2
      then show ?thesis using Fin assms pos [of r] by (cases "repr_pos r") (simp_all add: json_float_def)
    qed (use Fin assms pos [of "- r"] in \<open>simp_all add: json_float_def is_digit_def\<close>)
  qed (simp_all add: json_float_def)
  then show "\<exists>c t. json_float x = c # t \<and> (is_digit c \<or> c \<in> {CHR ''-'', CHR ''N'', CHR ''I''})" "ascii (json_float x)" by blast+
qed

lemma jnumber_float:
  assumes "double x" and "json_delim r"
  shows "jnumber (float_repr (Fin x) @ r) = Inr (PFloat (Fin x), r)"
proof -
  have head: "repr_pos y \<noteq> [] \<and> is_digit (hd (repr_pos y))" if "0 < y" "double y" for y
    using repr_pos_text [OF that] repr_text_chars(2) by metis
  consider "x = 0" | "0 < x" | "x < 0" by linarith
  then show ?thesis
  proof cases
    case 1
    have "dec_value False ''0'' ''0'' 0 = Fin 0" by (simp add: dec_value_def fl_def fl_limit_def)
    then show ?thesis
      using read_point [of "''0''" "''0''" r False] assms(2) 1 by (simp add: jnumber_def whole_def is_digit_def)
  next
    case 2
    then have "repr_pos x \<noteq> []" "hd (repr_pos x) \<noteq> CHR ''-''" using head [of x] assms(1) by (auto simp: is_digit_def)
    then show ?thesis
      using read_repr_pos [OF 2 assms, of False] 2 by (cases "repr_pos x") (simp_all add: jnumber_def)
  next
    case 3
    then have "repr_pos (- x) \<noteq> []" "hd (repr_pos (- x)) \<noteq> CHR ''I''" using head [of "- x"] assms(1) by (auto simp: is_digit_def)
    then have "strip_prefix ''Infinity'' (repr_pos (- x) @ r) = None" by (intro strip_prefix_hd) simp_all
    then show ?thesis using read_repr_pos [of "- x" r True] 3 assms by (simp add: jnumber_def)
  qed
qed

section \<open>Values read back\<close>

text \<open>
  The values whose text \<open>loads\<close> provably reads back: every float Python has, no bytes, ASCII
  strings, integer literals within the interpreter's limit, distinct keys (which a dict has).
\<close>

fun json_plain :: "pyval \<Rightarrow> bool"
and json_plain_items :: "pyval list \<Rightarrow> bool"
and json_plain_members :: "(string \<times> pyval) list \<Rightarrow> bool" where
  "json_plain PNone = True"
| "json_plain (PBool b) = True"
| "json_plain (PInt n) = (length (dec_str \<bar>n\<bar>) \<le> 4300)"
| "json_plain (PFloat x) = is_double x"
| "json_plain (PStr s) = ascii s"
| "json_plain (PBytes b) = False"
| "json_plain (PList vs) = json_plain_items vs"
| "json_plain (PDict d) = (dict_ok d \<and> json_plain_members d)"
| "json_plain_items [] = True"
| "json_plain_items (v # vs) = (json_plain v \<and> json_plain_items vs)"
| "json_plain_members [] = True"
| "json_plain_members ((k, v) # d) = (ascii k \<and> json_plain v \<and> json_plain_members d)"

lemma json_plain_members_iff: "json_plain_members d \<longleftrightarrow> (\<forall>(k, v) \<in> set d. ascii k \<and> json_plain v)"
  by (induction d) auto

definition json_lead :: "char \<Rightarrow> bool" where
  \<comment> \<open>what can begin a value\<close>
  "json_lead c \<longleftrightarrow> \<not> json_ws c \<and> c \<notin> {CHR '']'', CHR ''}'', CHR '','', CHR '':''}"

lemma digit_lead: "is_digit c \<Longrightarrow> json_lead c"
  by (auto simp: is_digit_def json_lead_def json_ws_def)

lemma int_str_lead:
  "\<exists>c t. int_str n = c # t \<and> json_lead c \<and> c \<notin> {CHR 0x22, CHR ''{'', CHR ''['', CHR ''n'', CHR ''t'', CHR ''f'', CHR ''N'', CHR ''I''}"
proof (cases "n < 0")
  case True
  then show ?thesis by (simp add: int_str_def json_lead_def json_ws_def)
next
  case False
  then obtain c t where d: "dec_str n = c # t" "is_digit c"
    using dec_str_facts [of n] by (cases "dec_str n") auto
  moreover have "c \<notin> {CHR 0x22, CHR ''{'', CHR ''['', CHR ''n'', CHR ''t'', CHR ''f'', CHR ''N'', CHR ''I''}"
    using d(2) by (auto simp: is_digit_def)
  ultimately show ?thesis using False by (simp add: int_str_def digit_lead)
qed

lemma json_float_lead: "is_double x \<Longrightarrow> \<exists>c t. json_float x = c # t \<and> json_lead c"
  using json_float_chars(1) [of x] digit_lead by (auto simp: json_lead_def json_ws_def)

lemma dumps_lead: "dumps v = Inr t \<Longrightarrow> json_plain v \<Longrightarrow> \<exists>c u. t = c # u \<and> json_lead c"
proof (cases v)
  case (PInt n)
  moreover assume "dumps v = Inr t"
  ultimately show ?thesis using int_str_lead [of n] by auto
next
  case (PStr s)
  moreover assume "dumps v = Inr t"
  ultimately show ?thesis by (auto simp: json_str_def json_lead_def json_ws_def)
next
  case (PFloat x)
  moreover assume "dumps v = Inr t" "json_plain v"
  ultimately show ?thesis using json_float_lead [of x] by auto
qed (auto simp: json_lead_def json_ws_def rbind_Inr_iff split: if_splits)

lemma skip_ws_lead: "json_lead c \<Longrightarrow> skip_ws (c # s) = c # s"
  by (simp add: skip_ws_def json_lead_def)

lemma skip_ws_space: "skip_ws (CHR '' '' # s) = skip_ws s"
  by (simp add: skip_ws_def json_ws_def)

lemma skip_ws_punct [simp]:
  "skip_ws (CHR '','' # s) = CHR '','' # s" "skip_ws (CHR '']'' # s) = CHR '']'' # s"
  "skip_ws (CHR ''}'' # s) = CHR ''}'' # s" "skip_ws (CHR '':'' # s) = CHR '':'' # s"
  "skip_ws (CHR 0x22 # s) = CHR 0x22 # s" "skip_ws [] = []"
  by (simp_all add: skip_ws_def json_ws_def)

declare jval.simps(2) [simp del] jitems.simps(2) [simp del] jmembers.simps(2) [simp del]

lemma jval_quote: "jval (Suc n) (CHR 0x22 # s) = rbind (jstring s) (\<lambda>(t, r). Inr (PStr t, r))"
  and jval_bracket: "jval (Suc n) (CHR ''['' # s) =
     (if take 1 (skip_ws s) = '']'' then Inr (PList [], drop 1 (skip_ws s))
      else rbind (jitems n (skip_ws s)) (\<lambda>(vs, r). Inr (PList vs, r)))"
  and jval_brace: "jval (Suc n) (CHR ''{'' # s) =
     (if take 1 (skip_ws s) = ''}'' then Inr (PDict [], drop 1 (skip_ws s))
      else rbind (jmembers n [] (skip_ws s)) (\<lambda>(d, r). Inr (PDict d, r)))"
  by (simp_all add: jval.simps(2))

lemma jval_name: "jname json_names (c # s) = Some x \<Longrightarrow>
    c \<notin> {CHR 0x22, CHR ''{'', CHR ''[''} \<Longrightarrow> jval (Suc n) (c # s) = Inr x"
  by (simp add: jval.simps(2))

lemma jname_None: "(\<And>p. p \<in> set (map fst tbl) \<Longrightarrow> strip_prefix p s = None) \<Longrightarrow> jname tbl s = None"
  by (induction tbl s rule: jname.induct) auto

lemma jval_int:
  assumes "length (dec_str \<bar>n\<bar>) \<le> 4300" and "json_delim r"
  shows "jval (Suc k) (int_str n @ r) = Inr (PInt n, r)"
proof -
  obtain c t where i: "int_str n = c # t"
    "c \<notin> {CHR 0x22, CHR ''{'', CHR ''['', CHR ''n'', CHR ''t'', CHR ''f'', CHR ''N'', CHR ''I''}"
    using int_str_lead [of n] by (elim exE conjE) (rule that)
  have "strip_prefix p (c # t @ r) = None" if "p \<in> set (map fst json_names)" for p
    by (rule strip_prefix_hd) (use that i(2) in \<open>auto simp: json_names_def\<close>)
  then have "jname json_names (c # t @ r) = None"
    by (rule jname_None)
  moreover have "jnumber (c # t @ r) = Inr (PInt n, r)"
    using jnumber_int_str [OF assms] unfolding i(1) by simp
  ultimately have "jval (Suc k) (c # t @ r) = Inr (PInt n, r)"
    using i(2) by (simp add: jval.simps(2))
  then show ?thesis by (simp only: i(1) append_Cons)
qed

lemma jval_float:
  assumes "is_double x" and "json_delim r"
  shows "jval (Suc k) (json_float x @ r) = Inr (PFloat x, r)"
proof (cases x)
  case NaN
  then show ?thesis by (simp add: json_float_def jval_name json_names_def strip_prefix_def)
next
  case (Inf s)
  then show ?thesis
    by (cases s) (simp_all add: json_float_def jval.simps(2) json_names_def strip_prefix_def jnumber_def)
next
  case (Fin q)
  have num: "jnumber (json_float x @ r) = Inr (PFloat x, r)"
    using jnumber_float [of q r] assms Fin by (simp add: json_float_def)
  obtain c t where c: "json_float x = c # t" "is_digit c \<or> c \<in> {CHR ''-'', CHR ''N'', CHR ''I''}"
    using json_float_chars(1) [OF assms(1)] by blast
  have "c \<noteq> CHR ''N'' \<and> c \<noteq> CHR ''I''"
    using num by (auto simp: c(1) jnumber_def jnum_unsigned_def int_part_def is_digit_def)
  then have lead: "c \<notin> {CHR 0x22, CHR ''{'', CHR ''['', CHR ''n'', CHR ''t'', CHR ''f'', CHR ''N'', CHR ''I''}"
    using c(2) by (auto simp: is_digit_def)
  have "strip_prefix p (c # t @ r) = None" if "p \<in> set (map fst json_names)" for p
    by (rule strip_prefix_hd) (use that lead in \<open>auto simp: json_names_def\<close>)
  then have "jname json_names (c # t @ r) = None" by (rule jname_None)
  then show ?thesis using num lead unfolding c(1) by (simp add: jval.simps(2))
qed

lemma dumps_items_lead:
  "dumps_items vs = Inr t \<Longrightarrow> json_plain_items vs \<Longrightarrow> vs \<noteq> [] \<Longrightarrow> \<exists>c u. t = c # u \<and> json_lead c"
  by (cases vs) (auto simp: rbind_Inr_iff split: if_splits dest!: dumps_lead)

lemma dumps_members_lead:
  "dumps_members d = Inr t \<Longrightarrow> d \<noteq> [] \<Longrightarrow> \<exists>u. t = CHR 0x22 # u"
  by (cases d) (auto simp: rbind_Inr_iff json_str_def split: if_splits)

lemma lead_skip_append: "\<exists>c u. t = c # u \<and> json_lead c \<Longrightarrow> skip_ws (t @ r) = t @ r"
  by (auto simp: skip_ws_lead)

lemma dumps_nonempty: "dumps v = Inr t \<Longrightarrow> json_plain v \<Longrightarrow> 0 < length t"
  using dumps_lead by fastforce

text \<open>The three readers against the three writers, by induction on the writers.\<close>

lemma reads_back:
  shows jval_dumps: "dumps v = Inr t \<Longrightarrow> json_plain v \<Longrightarrow> json_delim r \<Longrightarrow> 2 * length t < n
      \<Longrightarrow> jval n (t @ r) = Inr (v, r)"
    and jitems_dumps: "dumps_items vs = Inr u \<Longrightarrow> json_plain_items vs \<Longrightarrow> vs \<noteq> [] \<Longrightarrow> 2 * length u < m
      \<Longrightarrow> jitems (Suc m) (u @ CHR '']'' # r) = Inr (vs, r)"
    and jmembers_dumps: "dumps_members d = Inr w \<Longrightarrow> json_plain_members d \<Longrightarrow> d \<noteq> [] \<Longrightarrow>
        distinct (dict_keys (acc @ d)) \<Longrightarrow> 2 * length w < k
      \<Longrightarrow> jmembers (Suc k) acc (w @ CHR ''}'' # r) = Inr (acc @ d, r)"
proof (induction v and vs and d arbitrary: t r n and u r m and w r k acc
    rule: dumps_dumps_items_dumps_members.induct)
  case 1
  then show ?case by (cases n) (auto simp: jval_name json_names_def strip_prefix_def)
next
  case (2 b)
  then show ?case by (cases n; cases b) (auto simp: jval_name json_names_def strip_prefix_def)
next
  case (3 i)
  then show ?case using jval_int by (cases n) auto
next
  case (4 x)
  then show ?case using jval_float by (cases n) auto
next
  case (5 s)
  then obtain x where x: "json_str s = CHR 0x22 # x" "\<forall>r. jstring (x @ r) = Inr (s, r)"
    using jstring_json_str by auto
  have "t = CHR 0x22 # x" using 5 x by simp
  then show ?case using 5 x(2) by (cases n) (auto simp: jval_quote)
next
  case (7 vs)
  then obtain x where x: "dumps_items vs = Inr x" "t = ''['' @ x @ '']''" by (auto simp: rbind_Inr_iff)
  obtain n' where n: "n = Suc n'" using 7 by (cases n) auto
  show ?case
  proof (cases "vs = []")
    case True
    then show ?thesis using x n by (simp add: jval_bracket)
  next
    case False
    then obtain c y where y: "x = c # y" "json_lead c"
      using dumps_items_lead [OF x(1)] "7.prems"(2) by auto
    obtain n'' where n'': "n' = Suc n''" using 7 x n by (cases n') auto
    have "2 * length x < n''" using 7 x n n'' by simp
    then have "jitems (Suc n'') (x @ CHR '']'' # r) = Inr (vs, r)"
      using 7 x(1) False by simp
    moreover have "c \<noteq> CHR '']''" using y(2) by (auto simp: json_lead_def)
    ultimately show ?thesis
      using x y n n'' by (simp add: jval_bracket skip_ws_lead)
  qed
next
  case (8 d)
  then obtain x where x: "dumps_members d = Inr x" "t = ''{'' @ x @ ''}''" by (auto simp: rbind_Inr_iff)
  obtain n' where n: "n = Suc n'" using 8 by (cases n) auto
  show ?case
  proof (cases "d = []")
    case True
    then show ?thesis using x n by (simp add: jval_brace)
  next
    case False
    then obtain y where y: "x = CHR 0x22 # y"
      using dumps_members_lead [OF x(1)] by auto
    obtain n'' where n'': "n' = Suc n''" using 8 x n by (cases n') auto
    have "2 * length x < n''" using 8 x n n'' by simp
    then have "jmembers (Suc n'') [] (x @ CHR ''}'' # r) = Inr (d, r)"
      using 8 x(1) False by simp
    then show ?thesis using x y n n'' by (simp add: jval_brace)
  qed
next
  case (10 v vs)
  then obtain x where x: "dumps v = Inr x" by (auto simp: rbind_Inr_iff)
  show ?case
  proof (cases "vs = []")
    case True
    then have u: "u = x" using 10 x by simp
    have "jval m (x @ CHR '']'' # r) = Inr (v, CHR '']'' # r)"
      using 10 x u by (simp add: json_delim_def)
    then show ?thesis using True u by (simp add: jitems.simps(2))
  next
    case False
    then obtain y where y: "dumps_items vs = Inr y" "u = x @ '', '' @ y"
      using 10 x by (auto simp: rbind_Inr_iff)
    have l: "\<exists>c z. y = c # z \<and> json_lead c" using dumps_items_lead [OF y(1)] False "10.prems"(2) by simp
    have "jval m (x @ CHR '','' # CHR '' '' # y @ CHR '']'' # r)
        = Inr (v, CHR '','' # CHR '' '' # y @ CHR '']'' # r)"
      using "10.IH"(1) [OF x] "10.prems" y by (simp add: json_delim_def)
    moreover obtain m' where m: "m = Suc m'" using 10 by (cases m) auto
    moreover have "jitems (Suc m') (y @ CHR '']'' # r) = Inr (vs, r)"
      using "10.IH"(2) [OF False y(1)] "10.prems" False y m by simp
    ultimately show ?thesis
      using y l by (simp add: jitems.simps(2) skip_ws_space lead_skip_append)
  qed
next
  case (12 q v d)
  then obtain x where x: "dumps v = Inr x" by (auto simp: rbind_Inr_iff)
  obtain s where s: "json_str q = CHR 0x22 # s" "\<forall>r. jstring (s @ r) = Inr (q, r)"
    using jstring_json_str "12.prems"(2) by auto
  have l: "\<exists>c z. x = c # z \<and> json_lead c" using dumps_lead [OF x] "12.prems"(2) by simp
  have fresh: "dict_set q v acc = acc @ [(q, v)]"
    using "12.prems"(4) by (intro dict_set_fresh) auto
  show ?case
  proof (cases "d = []")
    case True
    then have w: "w = json_str q @ '': '' @ x" using 12 x by simp
    have "jval k (x @ CHR ''}'' # r) = Inr (v, CHR ''}'' # r)"
      using 12 x w by (simp add: json_delim_def)
    then show ?thesis
      using True w s l fresh by (simp add: jmembers.simps(2) skip_ws_space lead_skip_append)
  next
    case False
    then obtain y where y: "dumps_members d = Inr y" "w = json_str q @ '': '' @ x @ '', '' @ y"
      using 12 x by (auto simp: rbind_Inr_iff)
    obtain z where z: "y = CHR 0x22 # z" using dumps_members_lead [OF y(1)] False by auto
    have "jval k (x @ CHR '','' # CHR '' '' # y @ CHR ''}'' # r)
        = Inr (v, CHR '','' # CHR '' '' # y @ CHR ''}'' # r)"
      using "12.IH"(1) [OF x] "12.prems" y by (simp add: json_delim_def)
    moreover obtain k' where k: "k = Suc k'" using 12 by (cases k) auto
    moreover have "jmembers (Suc k') (acc @ [(q, v)]) (y @ CHR ''}'' # r) = Inr ((acc @ [(q, v)]) @ d, r)"
      using "12.IH"(2) [OF False y(1)] "12.prems" False y k by simp
    ultimately show ?thesis
      using y z l s fresh by (simp add: jmembers.simps(2) skip_ws_space lead_skip_append)
  qed
qed auto

text \<open>\<open>json.loads(json.dumps(v))\<close> is \<open>v\<close>.\<close>

lemma loads_dumps: "dumps v = Inr t \<Longrightarrow> json_plain v \<Longrightarrow> loads t = Inr v"
  using jval_dumps [of v t "[]" "2 * length t + 2"] lead_skip_append [of t "[]"] dumps_lead [of v t]
  by (simp add: loads_def json_delim_def)

lemma dumps_plain: "json_plain v \<Longrightarrow> \<exists>t. dumps v = Inr t"
  and dumps_items_plain: "json_plain_items vs \<Longrightarrow> \<exists>t. dumps_items vs = Inr t"
  and dumps_members_plain: "json_plain_members d \<Longrightarrow> \<exists>t. dumps_members d = Inr t"
  by (induction v and vs and d rule: json_plain_json_plain_items_json_plain_members.induct) auto

text \<open>What \<open>dumps\<close> writes is ASCII, so encoding and decoding it loses nothing.\<close>

lemma ascii_esc_cp: "(of_char c :: nat) < 128 \<Longrightarrow> ascii (esc_cp (of_char c))"
  by (auto simp: esc_cp_def hex4_def hex_digits_nth)

lemma ascii_json_str: "ascii s \<Longrightarrow> ascii (json_str s)"
proof -
  assume s: "ascii s"
  have "ascii (concat (map esc_cp (map of_char s)))" using s
    by (induction s) (auto simp: ascii_esc_cp)
  then show ?thesis using s by (simp add: json_str_def utf8_cps_ascii)
qed

lemma is_digit_ascii: "is_digit c \<Longrightarrow> (of_char c :: nat) < 128"
  by (simp add: is_digit_def Let_def)

lemma ascii_dec_str: "0 \<le> n \<Longrightarrow> ascii (dec_str n)"
  using dec_str_facts [of n] by (auto simp: ascii_def is_digit_ascii)

lemma ascii_dumps: "json_plain v \<Longrightarrow> dumps v = Inr t \<Longrightarrow> ascii t"
  and ascii_dumps_items: "json_plain_items vs \<Longrightarrow> dumps_items vs = Inr u \<Longrightarrow> ascii u"
  and ascii_dumps_members: "json_plain_members d \<Longrightarrow> dumps_members d = Inr w \<Longrightarrow> ascii w"
  by (induction v and vs and d arbitrary: t and u and w
      rule: json_plain_json_plain_items_json_plain_members.induct)
    (auto simp: rbind_Inr_iff ascii_json_str int_str_def ascii_dec_str json_float_chars(2) split: if_splits)

text \<open>Only a bytes value cannot be dumped.\<close>

lemma dumps_error: "dumps v = Inl e \<Longrightarrow> e = type_error"
  and dumps_items_error: "dumps_items vs = Inl e \<Longrightarrow> e = type_error"
  and dumps_members_error: "dumps_members d = Inl e \<Longrightarrow> e = type_error"
  by (induction v and vs and d rule: dumps_dumps_items_dumps_members.induct)
    (auto simp: rbind_Inl_iff split: if_splits)

section \<open>Flat objects\<close>

text \<open>
  The messages of the protocols are objects whose values are integers and strings that need no
  escape; their text has a simple bound.
\<close>

definition safe_char :: "char \<Rightarrow> bool" where
  "safe_char c \<longleftrightarrow> (let n = (of_char c :: nat) in 32 \<le> n \<and> n \<le> 126 \<and> n \<noteq> 34 \<and> n \<noteq> 92)"

definition safe_str :: "string \<Rightarrow> bool" where
  "safe_str s \<longleftrightarrow> list_all safe_char s"

lemma safe_str_simps [simp]: "safe_str []" "safe_str (c # s) \<longleftrightarrow> safe_char c \<and> safe_str s"
  "safe_str (s @ t) \<longleftrightarrow> safe_str s \<and> safe_str t"
  by (simp_all add: safe_str_def)

lemma safe_ascii: "safe_str s \<Longrightarrow> ascii s"
  by (induction s) (auto simp: safe_char_def Let_def)

lemma safe_hexlify [simp]: "safe_str (hexlify b)"
proof (induction b)
  case (Cons x b)
  have "safe_char (hex_digits ! i)" if "i < 16" for i
    using hex_digits_nth [OF that] by (auto simp: safe_char_def Let_def hex_val_def split: if_splits)
  then show ?case using Cons byte_nibbles by (simp add: hex_of_byte_def)
qed simp

lemma json_str_safe: "safe_str s \<Longrightarrow> json_str s = CHR 0x22 # s @ [CHR 0x22]"
proof -
  assume s: "safe_str s"
  have "concat (map esc_cp (map of_char s)) = s"
    using s by (induction s) (auto simp: esc_cp_def safe_char_def Let_def)
  then show ?thesis using utf8_cps_ascii [OF safe_ascii [OF s]] by (simp add: json_str_def)
qed

fun flat :: "pyval \<Rightarrow> bool" where
  "flat (PStr s) = safe_str s"
| "flat (PInt n) = (length (dec_str \<bar>n\<bar>) \<le> 4300)"
| "flat v = False"

fun flat_size :: "pyval \<Rightarrow> nat" where
  "flat_size (PStr s) = length s"
| "flat_size (PInt n) = Suc (length (dec_str \<bar>n\<bar>))"
| "flat_size v = 0"

definition flat_dict :: "(string \<times> pyval) list \<Rightarrow> bool" where
  "flat_dict d \<longleftrightarrow> list_all (\<lambda>(k, v). safe_str k \<and> flat v) d"

definition dict_size :: "(string \<times> pyval) list \<Rightarrow> nat" where
  "dict_size d = sum_list (map (\<lambda>(k, v). length k + flat_size v + 8) d)"

lemma flat_dict_simps [simp]: "flat_dict []"
  "flat_dict ((k, v) # d) \<longleftrightarrow> safe_str k \<and> flat v \<and> flat_dict d"
  by (simp_all add: flat_dict_def)

lemma dict_size_simps [simp]: "dict_size [] = 0"
  "dict_size ((k, v) # d) = length k + flat_size v + 8 + dict_size d"
  by (simp_all add: dict_size_def)

lemma flat_plain: "flat v \<Longrightarrow> json_plain v"
  by (cases v) (auto simp: safe_ascii)

lemma flat_dict_plain: "flat_dict d \<Longrightarrow> json_plain_members d"
  by (induction d) (auto simp: safe_ascii flat_plain)

lemma dumps_flat: "flat v \<Longrightarrow> \<exists>t. dumps v = Inr t \<and> length t \<le> flat_size v + 2"
  by (cases v) (auto simp: json_str_safe int_str_def)

lemma dumps_flat_members: "flat_dict d \<Longrightarrow> \<exists>t. dumps_members d = Inr t \<and> length t \<le> dict_size d"
proof (induction d)
  case (Cons p d)
  obtain k v where p: "p = (k, v)" by force
  obtain t where t: "dumps v = Inr t" "length t \<le> flat_size v + 2"
    using Cons.prems p dumps_flat by auto
  obtain u where u: "dumps_members d = Inr u" "length u \<le> dict_size d"
    using Cons p by auto
  have "length (json_str k) = length k + 2" using Cons.prems p by (simp add: json_str_safe)
  then show ?case using t u by (simp add: p)
qed simp

lemma dumps_flat_dict:
  "flat_dict d \<Longrightarrow> \<exists>t. dumps (PDict d) = Inr t \<and> 0 < length t \<and> length t \<le> dict_size d + 2"
  using dumps_flat_members [of d] by auto

end
