(* ===== verification/Sock.thy ===== *)
theory Sock
  imports Json
begin

text \<open>
  The outside of a session: a connected TCP socket, the operating system's randomness and the
  clocks. What the peer will send is a list of chunks, one per arrival, followed by an end
  (orderly shutdown, silence until the timeout, or a reset); what we send is recorded call by
  call, and sending may start to fail. Randomness and clock readings are fixed sequences read
  in order, so a session is a function of its surroundings. Every session state extends this
  record. The locale \<open>framing\<close> states what a message framing owes its users; its main lemma is
  that a received message does not depend on how TCP cut the stream into chunks.
\<close>

datatype stream_end = EndOfStream | Silence | Reset

record io =
  rx :: "bytes list"
  rx_end :: stream_end
  tx :: "bytes list"
  tx_left :: "nat option"
  sock_closed :: bool
  entropy :: "nat \<Rightarrow> byte"
  entropy_pos :: nat
  ticks :: "nat \<Rightarrow> int"
  tick_pos :: nat
  wall :: "nat \<Rightarrow> rat"
  wall_pos :: nat

text \<open>A connection on which nothing has arrived, for concrete instances.\<close>

definition blank_io :: io where
  "blank_io = \<lparr>rx = [], rx_end = EndOfStream, tx = [], tx_left = None, sock_closed = False,
     entropy = (\<lambda>_. 0), entropy_pos = 0, ticks = (\<lambda>_. 0), tick_pos = 0, wall = (\<lambda>_. 0), wall_pos = 0\<rparr>"

lemma blank_io_simps [simp]:
  "rx blank_io = []" "rx_end blank_io = EndOfStream" "tx blank_io = []" "tx_left blank_io = None"
  "\<not> sock_closed blank_io"
  by (simp_all add: blank_io_def)

section \<open>Socket calls\<close>

text \<open>\<open>sock.recv(n)\<close> returns what has arrived, at most \<open>n\<close> bytes, and \<open>b''\<close> at the end.\<close>

definition sock_recv :: "nat \<Rightarrow> ('z io_scheme, bytes) py" where
  "sock_recv n = (\<lambda>s.
     if sock_closed s then (Inl (LibRaised OSKind), s)
     else case rx s of
       [] \<Rightarrow> (case rx_end s of
                EndOfStream \<Rightarrow> (Inr [], s)
              | Silence \<Rightarrow> (Inl (LibRaised TimeoutKind), s)
              | Reset \<Rightarrow> (Inl (LibRaised ConnectionKind), s))
     | c # cs \<Rightarrow> (Inr (take n c), s\<lparr>rx := (if length c \<le> n then cs else drop n c # cs)\<rparr>))"

definition sock_sendall :: "bytes \<Rightarrow> ('z io_scheme, unit) py" where
  "sock_sendall b = (\<lambda>s.
     if sock_closed s then (Inl (LibRaised OSKind), s)
     else case tx_left s of
       None \<Rightarrow> (Inr (), s\<lparr>tx := tx s @ [b]\<rparr>)
     | Some 0 \<Rightarrow> (Inl (LibRaised ConnectionKind), s)
     | Some (Suc k) \<Rightarrow> (Inr (), s\<lparr>tx := tx s @ [b], tx_left := Some k\<rparr>))"

definition sock_close :: "('z io_scheme, unit) py" where
  "sock_close = modify (\<lambda>s. s\<lparr>sock_closed := True\<rparr>)"

text \<open>\<open>os.urandom(n)\<close> and \<open>secrets.token_bytes(n)\<close>.\<close>

definition urandom :: "nat \<Rightarrow> ('z io_scheme, bytes) py" where
  "urandom n = (\<lambda>s. (Inr (map (\<lambda>i. entropy s (entropy_pos s + i)) [0..<n]),
                     s\<lparr>entropy_pos := entropy_pos s + n\<rparr>))"

definition perf_counter_ns :: "('z io_scheme, int) py" where
  "perf_counter_ns = (\<lambda>s. (Inr (ticks s (tick_pos s)), s\<lparr>tick_pos := Suc (tick_pos s)\<rparr>))"

definition time_time :: "('z io_scheme, rat) py" where
  "time_time = (\<lambda>s. (Inr (wall s (wall_pos s)), s\<lparr>wall_pos := Suc (wall_pos s)\<rparr>))"

text \<open>\<open>while len(buf) < n: chunk = sock.recv(n - len(buf)); if not chunk: raise; buf += chunk\<close>.\<close>

function recv_loop :: "string \<Rightarrow> nat \<Rightarrow> bytes \<Rightarrow> ('z io_scheme, bytes) py" where
  "recv_loop msg n buf s =
     (if length buf < n then
        (case sock_recv (n - length buf) s of
           (Inl e, t) \<Rightarrow> (Inl e, t)
         | (Inr c, t) \<Rightarrow> if c = [] then (Inl (Raised ConnectionKind msg), t)
                        else recv_loop msg n (buf @ c) t)
      else (Inr buf, s))"
  by pat_completeness auto
termination
  by (relation "measure (\<lambda>(msg, n, buf, s). n - length buf)") (auto simp: diff_less_mono2)

declare recv_loop.simps [simp del]

lemma keeps_sock_sendall [keeps_intro]:
  "(\<And>s x y. P s \<Longrightarrow> P (s\<lparr>tx := x, tx_left := y\<rparr>)) \<Longrightarrow> keeps P (sock_sendall b)"
proof (rule keepsI)
  fix s r t assume P: "\<And>s x y. P s \<Longrightarrow> P (s\<lparr>tx := x, tx_left := y\<rparr>)"
    and "P s" and "sock_sendall b s = (r, t)"
  moreover from this have "\<exists>x y. t = s\<lparr>tx := x, tx_left := y\<rparr>"
    by (intro exI [of _ "tx t"] exI [of _ "tx_left t"])
      (auto simp: sock_sendall_def split: if_splits option.splits nat.splits)
  ultimately show "P t" by auto
qed

lemma keeps_sock_close [keeps_intro]:
  "(\<And>s. P s \<Longrightarrow> P (s\<lparr>sock_closed := True\<rparr>)) \<Longrightarrow> keeps P sock_close"
  by (simp add: sock_close_def keeps_modify)

lemma keeps_urandom [keeps_intro]:
  "(\<And>s x. P s \<Longrightarrow> P (s\<lparr>entropy_pos := x\<rparr>)) \<Longrightarrow> keeps P (urandom n)"
  and keeps_perf_counter_ns [keeps_intro]:
  "(\<And>s x. P s \<Longrightarrow> P (s\<lparr>tick_pos := x\<rparr>)) \<Longrightarrow> keeps P perf_counter_ns"
  and keeps_time_time [keeps_intro]:
  "(\<And>s x. P s \<Longrightarrow> P (s\<lparr>wall_pos := x\<rparr>)) \<Longrightarrow> keeps P time_time"
  by (simp_all add: keeps_def urandom_def perf_counter_ns_def time_time_def)

text \<open>A step that can only send touches only what is sent.\<close>

lemma keeps_only_sends:
  assumes "\<And>P. (\<And>s x y. P s \<Longrightarrow> P (s\<lparr>tx := x, tx_left := y\<rparr>)) \<Longrightarrow> keeps P m" and "m s = (r, t)"
  shows "\<exists>x y. t = s\<lparr>tx := x, tx_left := y\<rparr>"
proof -
  let ?P = "\<lambda>u. \<exists>x y. u = s\<lparr>tx := x, tx_left := y\<rparr>"
  have "?P s" by (intro exI [of _ "tx s"] exI [of _ "tx_left s"]) simp
  moreover have "keeps ?P m" by (rule assms(1)) (elim exE, hypsubst, simp, intro exI, rule refl)
  ultimately show ?thesis using keepsD [of ?P m s r t] assms(2) by blast
qed

text \<open>The \<open>n\<close> bytes that the next calls draw after skipping \<open>a\<close>.\<close>

definition draw :: "'z io_scheme \<Rightarrow> nat \<Rightarrow> nat \<Rightarrow> bytes" where
  "draw s a n = map (\<lambda>i. entropy s (entropy_pos s + a + i)) [0..<n]"

lemma length_draw [simp]: "length (draw s a n) = n"
  by (simp add: draw_def)

lemma urandom_draw: "urandom n s = (Inr (draw s 0 n), s\<lparr>entropy_pos := entropy_pos s + n\<rparr>)"
  by (simp add: urandom_def draw_def)

lemma bnd_urandom: "bnd (urandom n) k s = k (draw s 0 n) (s\<lparr>entropy_pos := entropy_pos s + n\<rparr>)"
  by (simp add: bnd_def urandom_draw)

lemma draw_pos: "draw (s\<lparr>entropy_pos := entropy_pos s + a\<rparr>) b n = draw s (a + b) n"
  by (simp add: draw_def add.assoc)

section \<open>The byte stream behind the chunks\<close>

fun chop :: "nat \<Rightarrow> bytes list \<Rightarrow> bytes list" where
  "chop n [] = []"
| "chop n (c # cs) = (if n = 0 then c # cs else if length c \<le> n then chop (n - length c) cs
                      else drop n c # cs)"

abbreviation avail :: "'z io_scheme \<Rightarrow> bytes" where
  "avail s \<equiv> concat (rx s)"

definition live :: "'z io_scheme \<Rightarrow> bool" where
  \<comment> \<open>an open socket none of whose pending arrivals is empty\<close>
  "live s \<longleftrightarrow> \<not> sock_closed s \<and> [] \<notin> set (rx s)"

lemma concat_chop: "concat (chop n cs) = drop n (concat cs)"
  by (induction n cs rule: chop.induct) auto

lemma chop_nonempty: "[] \<notin> set cs \<Longrightarrow> [] \<notin> set (chop n cs)"
  by (induction n cs rule: chop.induct) auto

lemma chop_0 [simp]: "chop 0 cs = cs"
  by (cases cs) auto

lemma chop_add: "chop n (chop m cs) = chop (m + n) cs"
  by (induction m cs rule: chop.induct) (auto simp: add.commute)

lemma chop_all: "length (concat cs) \<le> n \<Longrightarrow> [] \<notin> set cs \<Longrightarrow> chop n cs = []"
  by (induction n cs rule: chop.induct) (auto intro: Nat.gr0I)

lemma live_chop: "live s \<Longrightarrow> live (s\<lparr>rx := chop n (rx s)\<rparr>)"
  by (simp add: live_def chop_nonempty)

fun end_error :: "string \<Rightarrow> stream_end \<Rightarrow> exc" where
  "end_error msg EndOfStream = Raised ConnectionKind msg"
| "end_error msg Silence = LibRaised TimeoutKind"
| "end_error msg Reset = LibRaised ConnectionKind"

text \<open>The loop reads exactly \<open>n\<close> bytes off the stream, or everything and then fails.\<close>

lemma recv_loop_stream:
  assumes "live s" and "length buf \<le> n"
  shows "recv_loop msg n buf s =
    (if n - length buf \<le> length (avail s)
     then (Inr (buf @ take (n - length buf) (avail s)), s\<lparr>rx := chop (n - length buf) (rx s)\<rparr>)
     else (Inl (end_error msg (rx_end s)), s\<lparr>rx := []\<rparr>))"
  using assms
proof (induction msg n buf s rule: recv_loop.induct)
  case (1 msg n buf s)
  show ?case
  proof (cases "length buf < n")
    case False
    then have "n - length buf = 0" by simp
    then show ?thesis using False by (simp add: recv_loop.simps [of msg n buf s])
  next
    case True
    show ?thesis
    proof (cases "rx s")
      case Nil
      have opn: "\<not> sock_closed s" using "1.prems" by (simp add: live_def)
      have s: "s\<lparr>rx := []\<rparr> = s" using Nil by simp
      show ?thesis using True Nil opn s
        by (cases "rx_end s") (simp_all add: recv_loop.simps [of msg n buf s] sock_recv_def)
    next
      case (Cons c cs)
      define k where "k = n - length buf"
      have opn: "\<not> sock_closed s" and c: "c \<noteq> []" and cs: "[] \<notin> set cs"
        using "1.prems" Cons by (auto simp: live_def)
      define t where "t = s\<lparr>rx := (if length c \<le> k then cs else drop k c # cs)\<rparr>"
      have r: "sock_recv k s = (Inr (take k c), t)"
        using Cons opn by (simp add: sock_recv_def t_def)
      have k: "0 < k" using True by (simp add: k_def)
      have live: "live t" using opn cs k by (auto simp: live_def t_def)
      have ne: "take k c \<noteq> []" using c k by simp
      have len: "length (buf @ take k c) \<le> n" using True by (simp add: k_def)
      have unf: "recv_loop msg n buf s = recv_loop msg n (buf @ take k c) t"
        using True r ne by (simp add: recv_loop.simps [of msg n buf s] flip: k_def)
      have IH: "recv_loop msg n (buf @ take k c) t =
        (if n - length (buf @ take k c) \<le> length (avail t)
         then (Inr ((buf @ take k c) @ take (n - length (buf @ take k c)) (avail t)),
               t\<lparr>rx := chop (n - length (buf @ take k c)) (rx t)\<rparr>)
         else (Inl (end_error msg (rx_end t)), t\<lparr>rx := []\<rparr>))"
        using "1.IH" [OF True r [unfolded k_def, symmetric] refl ne [unfolded k_def] live
            len [unfolded k_def]]
        unfolding k_def .
      show ?thesis
      proof (cases "length c \<le> k")
        case True
        then have "n - length (buf @ take k c) = k - length c" by (simp add: k_def)
        then show ?thesis
          unfolding unf IH using True Cons k by (auto simp: t_def k_def)
      next
        case False
        then have "n - length (buf @ take k c) = 0" by (simp add: k_def)
        then show ?thesis
          unfolding unf IH using False Cons k by (simp add: t_def k_def)
      qed
    qed
  qed
qed

lemma recv_loop_length: "recv_loop msg n buf s = (Inr b, t) \<Longrightarrow> length buf \<le> n \<Longrightarrow> length b = n"
proof (induction msg n buf s rule: recv_loop.induct)
  case (1 msg n buf s)
  show ?case
  proof (cases "length buf < n")
    case True
    with "1.prems" obtain c u where r: "sock_recv (n - length buf) s = (Inr c, u)" "c \<noteq> []"
      "recv_loop msg n (buf @ c) u = (Inr b, t)"
      by (auto simp: recv_loop.simps [of msg n buf s] split: prod.splits sum.splits if_splits)
    moreover have "length c \<le> n - length buf" using r(1)
      by (auto simp: sock_recv_def split: if_splits list.splits stream_end.splits)
    ultimately show ?thesis using "1.IH" [OF True r(1) [symmetric] refl r(2) r(3)] True by simp
  next
    case False
    then show ?thesis using "1.prems" by (simp add: recv_loop.simps [of msg n buf s])
  qed
qed

end
