(* ===== verification/Crypto_Utils.thy ===== *)
theory Crypto_Utils
  imports Cryptolib Sock
begin

text \<open>
  \<open>smg_primary_server/crypto_utils.py\<close>: SHA-256, HMAC and HKDF written out in Python, key
  fitting, and AES-GCM with the layout nonce, ciphertext, tag. The lemmas show HMAC equal to
  the RFC 2104 formula, HKDF-Expand equal to the RFC 5869 concatenation with its bound of 255
  blocks, and decryption undoing encryption.
\<close>

unbundle bit_operations_syntax

definition DIGEST_SIZE :: nat where "DIGEST_SIZE = 32"
definition ID_SIZE :: nat where "ID_SIZE = 16"
definition AES_KEY_SIZE :: nat where "AES_KEY_SIZE = 32"
definition GCM_NONCE_SIZE :: nat where "GCM_NONCE_SIZE = 12"
definition GCM_TAG_SIZE :: nat where "GCM_TAG_SIZE = 16"
definition BLOCK_SIZE :: nat where "BLOCK_SIZE = 64"
definition IPAD :: byte where "IPAD = 0x36"
definition OPAD :: byte where "OPAD = 0x5C"

lemmas size_defs = DIGEST_SIZE_def ID_SIZE_def AES_KEY_SIZE_def GCM_NONCE_SIZE_def
  GCM_TAG_SIZE_def BLOCK_SIZE_def

definition h_sha256 :: "bytes \<Rightarrow> bytes" where
  "h_sha256 data = sha256 data"

lemma length_h_sha256 [simp]: "length (h_sha256 m) = 32"
  by (simp add: h_sha256_def)

interpretation h: digest_fun h_sha256 32
  by unfold_locales simp

section \<open>HMAC\<close>

definition xor_pad :: "bytes \<Rightarrow> byte \<Rightarrow> nat \<Rightarrow> bytes" where
  "xor_pad key pad block =
     (let key = (if block < length key then sha256 key else key) in
      map (\<lambda>b. b XOR pad) key @ replicate (block - length key) pad)"

definition hmac_sha256 :: "bytes \<Rightarrow> bytes \<Rightarrow> bytes" where
  "hmac_sha256 key msg =
     (let ipad = xor_pad key IPAD BLOCK_SIZE;
          opad = xor_pad key OPAD BLOCK_SIZE;
          inner = sha256 (ipad @ msg)
      in sha256 (opad @ inner))"

lemma length_hmac [simp]: "length (hmac_sha256 k m) = 32"
  by (simp add: hmac_sha256_def Let_def)

text \<open>RFC 2104: the key is hashed if too long and zero-padded to a block, then masked.\<close>

definition rfc_block_key :: "bytes \<Rightarrow> bytes" where
  "rfc_block_key key = (let k = (if 64 < length key then sha256 key else key)
     in k @ replicate (64 - length k) 0)"

definition rfc_hmac :: "bytes \<Rightarrow> bytes \<Rightarrow> bytes" where
  "rfc_hmac key msg = sha256 (map (\<lambda>b. b XOR 0x5C) (rfc_block_key key)
     @ sha256 (map (\<lambda>b. b XOR 0x36) (rfc_block_key key) @ msg))"

lemma xor_pad_block_key: "xor_pad key pad 64 = map (\<lambda>b. b XOR pad) (rfc_block_key key)"
  by (simp add: xor_pad_def rfc_block_key_def Let_def)

lemma hmac_is_rfc2104: "hmac_sha256 key msg = rfc_hmac key msg"
  by (simp add: hmac_sha256_def rfc_hmac_def BLOCK_SIZE_def IPAD_def OPAD_def xor_pad_block_key Let_def)

lemma length_xor_pad: "length (xor_pad key pad 64) = 64"
  by (simp add: xor_pad_def Let_def)

section \<open>HKDF\<close>

definition hkdf_extract :: "bytes \<Rightarrow> bytes \<Rightarrow> bytes" where
  "hkdf_extract salt ikm =
     hmac_sha256 (if salt = [] then replicate DIGEST_SIZE 0 else salt) ikm"

text \<open>\<open>bytes([counter])\<close> raises \<open>ValueError\<close> once the counter is 256.\<close>

function hkdf_expand_loop ::
  "bytes \<Rightarrow> bytes \<Rightarrow> nat \<Rightarrow> bytes \<Rightarrow> bytes \<Rightarrow> nat \<Rightarrow> exc + bytes" where
  "hkdf_expand_loop prk info len okm t_prev counter =
     (if length okm < len then
        (if 256 \<le> counter then Inl (LibRaised ValueKind)
         else let t = hmac_sha256 prk (t_prev @ info @ [of_nat counter])
              in hkdf_expand_loop prk info len (okm @ t) t (counter + 1))
      else Inr (take len okm))"
  by pat_completeness auto
termination
  by (relation "measure (\<lambda>(prk, info, len, okm, t, c). len - length okm)") auto

declare hkdf_expand_loop.simps [simp del]

definition hkdf_expand :: "bytes \<Rightarrow> bytes \<Rightarrow> nat \<Rightarrow> exc + bytes" where
  "hkdf_expand prk info len = hkdf_expand_loop prk info len [] [] 1"

definition hkdf :: "bytes \<Rightarrow> bytes \<Rightarrow> bytes \<Rightarrow> nat \<Rightarrow> exc + bytes" where
  "hkdf salt ikm info len = hkdf_expand (hkdf_extract salt ikm) info len"

text \<open>RFC 5869: \<open>T(i) = HMAC(prk, T(i-1) | info | i)\<close>.\<close>

fun rfc_T :: "bytes \<Rightarrow> bytes \<Rightarrow> nat \<Rightarrow> bytes" where
  "rfc_T prk info 0 = []"
| "rfc_T prk info (Suc i) = hmac_sha256 prk (rfc_T prk info i @ info @ [of_nat (Suc i)])"

definition rfc_okm :: "bytes \<Rightarrow> bytes \<Rightarrow> nat \<Rightarrow> bytes" where
  "rfc_okm prk info n = concat (map (rfc_T prk info) [1..<Suc n])"

lemma length_rfc_T: "0 < i \<Longrightarrow> length (rfc_T prk info i) = 32"
  by (cases i) auto

lemma rfc_okm_Suc: "rfc_okm prk info (Suc n) = rfc_okm prk info n @ rfc_T prk info (Suc n)"
  by (simp add: rfc_okm_def)

lemma length_rfc_okm: "length (rfc_okm prk info n) = 32 * n"
  by (induction n) (simp_all add: rfc_okm_Suc, simp add: rfc_okm_def)

lemma take_rfc_okm: "n \<le> m \<Longrightarrow> len \<le> 32 * n \<Longrightarrow> take len (rfc_okm prk info m) = take len (rfc_okm prk info n)"
  by (induction m) (auto simp: rfc_okm_Suc length_rfc_okm le_Suc_eq)

lemma hkdf_expand_loop_rfc:
  assumes "n \<le> 255"
  shows "hkdf_expand_loop prk info len (rfc_okm prk info n) (rfc_T prk info n) (n + 1)
    = (if len \<le> 32 * 255 then Inr (take len (rfc_okm prk info (max n ((len + 31) div 32))))
       else Inl (LibRaised ValueKind))"
  using assms
proof (induction "255 - n" arbitrary: n rule: less_induct)
  case less
  show ?case
  proof (cases "32 * n < len")
    case False
    then have "(len + 31) div 32 \<le> n" by simp
    then show ?thesis using False less.prems
      by (subst hkdf_expand_loop.simps) (simp add: length_rfc_okm max_absorb1)
  next
    case True
    show ?thesis
    proof (cases "n = 255")
      case True
      then show ?thesis using \<open>32 * n < len\<close>
        by (subst hkdf_expand_loop.simps) (simp add: length_rfc_okm)
    next
      case False
      have "hkdf_expand_loop prk info len (rfc_okm prk info n) (rfc_T prk info n) (n + 1)
        = hkdf_expand_loop prk info len (rfc_okm prk info (Suc n)) (rfc_T prk info (Suc n)) (Suc n + 1)"
        using True False less.prems
        by (subst hkdf_expand_loop.simps) (simp add: length_rfc_okm rfc_okm_Suc Let_def)
      also have "\<dots> = (if len \<le> 32 * 255 then Inr (take len (rfc_okm prk info (max (Suc n) ((len + 31) div 32))))
         else Inl (LibRaised ValueKind))"
        by (rule less.hyps) (use False less.prems in auto)
      also have "max (Suc n) ((len + 31) div 32) = max n ((len + 31) div 32)"
        using True by simp
      finally show ?thesis .
    qed
  qed
qed

section \<open>AES-GCM\<close>

definition fit_key :: "bytes \<Rightarrow> nat \<Rightarrow> bytes" where
  "fit_key key len =
     (if len \<le> length key then take len (h_sha256 key) else key @ replicate (len - length key) 0)"

lemma length_fit_key [simp]: "length (fit_key key 32) = 32"
  by (simp add: fit_key_def)

definition encrypt_gcm :: "cryptolib \<Rightarrow> bytes \<Rightarrow> bytes \<Rightarrow> ('z io_scheme, bytes) py" where
  "encrypt_gcm L plaintext key =
     (let k = fit_key key AES_KEY_SIZE in
      bnd (urandom GCM_NONCE_SIZE) (\<lambda>nonce.
      bnd (lift (aes_encrypt L k nonce plaintext)) (\<lambda>ct_and_tag.
      let ct = slice_neg_stop 0 GCM_TAG_SIZE ct_and_tag;
          tag = slice_neg_start GCM_TAG_SIZE ct_and_tag
      in ret (nonce @ ct @ tag))))"

definition decrypt_gcm :: "cryptolib \<Rightarrow> bytes \<Rightarrow> bytes \<Rightarrow> exc + bytes" where
  "decrypt_gcm L ciphertext key =
     (let k = fit_key key AES_KEY_SIZE;
          nonce = take GCM_NONCE_SIZE ciphertext;
          ct = slice_neg_stop GCM_NONCE_SIZE GCM_TAG_SIZE ciphertext;
          tag = slice_neg_start GCM_TAG_SIZE ciphertext
      in aes_decrypt L k nonce (ct @ tag))"

definition concat_b :: "bytes list \<Rightarrow> bytes" where
  "concat_b args = concat args"

lemma concat_b_simps [simp]: "concat_b [] = []" "concat_b (x # xs) = x @ concat_b xs"
  by (simp_all add: concat_b_def)

lemma length_urandom: "urandom n s = (r, t) \<Longrightarrow> \<exists>b. r = Inr b \<and> length b = n"
  by (auto simp: urandom_def)

lemma urandom_only:
  "urandom n s = (Inr b, t) \<Longrightarrow> length b = n \<and> (\<exists>x. t = s\<lparr>entropy_pos := x\<rparr>)"
  by (auto simp: urandom_def)

text \<open>Encryption always returns, only reads randomness, and decryption gives the text back.\<close>

lemma encrypt_gcm_ok:
  assumes "aead_ok L"
  shows "\<exists>c. encrypt_gcm L p key s = (Inr c, s\<lparr>entropy_pos := entropy_pos s + 12\<rparr>)
    \<and> length c = length p + 28 \<and> decrypt_gcm L c key = Inr p"
proof -
  define n where "n = map (\<lambda>i. entropy s (entropy_pos s + i)) [0..<12]"
  have u: "urandom 12 s = (Inr n, s\<lparr>entropy_pos := entropy_pos s + 12\<rparr>)" and n: "length n = 12"
    by (simp_all add: urandom_def n_def)
  obtain c where c: "aes_encrypt L (fit_key key 32) n p = Inr c" "length c = length p + 16"
    "aes_decrypt L (fit_key key 32) n c = Inr p"
    using aead_okE [OF assms length_fit_key n] by blast
  have "take (length c - 16) c @ drop (length c - 16) c = c" by simp
  then show ?thesis
    using u n c
    by (simp add: encrypt_gcm_def decrypt_gcm_def size_defs Let_def bnd_Inr slice_neg_stop_def
        slice_neg_start_def)
qed

lemma keeps_encrypt_gcm [keeps_intro]:
  "(\<And>s x. P s \<Longrightarrow> P (s\<lparr>entropy_pos := x\<rparr>)) \<Longrightarrow> keeps P (encrypt_gcm L p key)"
  unfolding encrypt_gcm_def Let_def by (intro keeps_intro)

lemma encrypt_gcm_only: "encrypt_gcm L p key s = (r, t) \<Longrightarrow> \<exists>x. t = s\<lparr>entropy_pos := x\<rparr>"
  by (auto simp: encrypt_gcm_def urandom_def bnd_def Let_def split: sum.splits)

lemma decrypt_encrypt_gcm:
  assumes "aead_ok L" and "encrypt_gcm L p key s = (Inr c, t)"
  shows "decrypt_gcm L c key = Inr p"
  using encrypt_gcm_ok [OF assms(1), of p key s] assms(2) by auto

text \<open>A key of 32 bytes or more is hashed, a shorter one zero-padded.\<close>

lemma fit_key_cases:
  "32 \<le> length key \<Longrightarrow> fit_key key 32 = h_sha256 key"
  "length key < 32 \<Longrightarrow> fit_key key 32 = key @ replicate (32 - length key) 0"
  by (simp_all add: fit_key_def)

section \<open>Properties\<close>

text \<open>
  C34: HKDF is that of RFC 5869 for every salt, key material, info and length: the output is the
  prefix of the concatenated blocks, an empty salt counts as 32 zero bytes, and a length above 255
  blocks raises \<open>ValueError\<close>.
\<close>

theorem hkdf_is_rfc5869:
  "hkdf salt ikm info len =
     (let prk = rfc_hmac (if salt = [] then replicate 32 0 else salt) ikm in
      if len \<le> 255 * 32 then Inr (take len (rfc_okm prk info ((len + 31) div 32)))
      else Inl (LibRaised ValueKind))"
  using hkdf_expand_loop_rfc [of 0 "hkdf_extract salt ikm" info len]
  by (simp add: hkdf_def hkdf_expand_def hkdf_extract_def DIGEST_SIZE_def hmac_is_rfc2104 Let_def
      rfc_okm_def)

text \<open>
  What \<open>encrypt_gcm\<close> returns decrypts to the plaintext under the same key, of any length; it
  is 28 bytes longer, and encryption changes nothing but the randomness it reads.
\<close>

theorem gcm_round_trip:
  assumes "aead_ok L"
  shows "\<exists>c. encrypt_gcm L p key s = (Inr c, s\<lparr>entropy_pos := entropy_pos s + 12\<rparr>)
    \<and> length c = length p + 28 \<and> decrypt_gcm L c key = Inr p"
  using assms by (rule encrypt_gcm_ok)

lemma gcm_round_trip_witness:
  "\<exists>c. encrypt_gcm ref_lib [1, 2] [3] blank_io
      = (Inr c, blank_io\<lparr>entropy_pos := entropy_pos blank_io + 12\<rparr>)
    \<and> length c = length [1, 2 :: byte] + 28 \<and> decrypt_gcm ref_lib c [3] = Inr [1, 2]"
  by (rule gcm_round_trip) (rule aead_ok_ref_lib)

end
