(* ===== verification/Tlv.thy ===== *)
theory Tlv
  imports Crypto_Utils
begin

text \<open>
  The type-length-value helpers of \<open>smg_primary_server/auth_service.py\<close>: a field is two bytes
  of length and the bytes. Packing raises for a field above 65535 bytes; parsing never reads
  past the data and ignores what follows the last field. The lemmas show parsing and packing
  inverse to each other, hence the register that the hash chain covers injective.
\<close>

section \<open>Packing and parsing\<close>

definition tlv :: "bytes \<Rightarrow> exc + bytes" where
  \<comment> \<open>\<open>struct.pack(">H", len(p)) + p\<close>\<close>
  "tlv p = rbind (pack_H (int (length p))) (\<lambda>h. Inr (h @ p))"

definition tlv_join :: "bytes list \<Rightarrow> exc + bytes" where
  \<comment> \<open>\<open>b"".join(struct.pack(">H", len(p)) + p for p in parts)\<close>\<close>
  "tlv_join parts = rbind (rmap tlv parts) (\<lambda>ps. Inr (concat ps))"

definition make_reg_reg :: "bytes \<Rightarrow> bytes \<Rightarrow> int \<Rightarrow> bytes \<Rightarrow> bytes \<Rightarrow> bytes \<Rightarrow> exc + bytes" where
  "make_reg_reg SMG_reg TS_b M_num ID_A ID_B SES_id =
     rbind (pack_I M_num) (\<lambda>m. tlv_join [SMG_reg, TS_b, m, ID_A, ID_B, SES_id])"

fun parse_tlv_loop :: "bytes \<Rightarrow> nat \<Rightarrow> nat \<Rightarrow> bytes list \<Rightarrow> bytes list option" where
  "parse_tlv_loop data 0 pos flds = Some flds"
| "parse_tlv_loop data (Suc n) pos flds =
     (if length data < pos + 2 then None
      else let ln = nat (be_int (slice pos (pos + 2) data)); pos = pos + 2 in
        if length data < pos + ln then None
        else parse_tlv_loop data n (pos + ln) (flds @ [slice pos (pos + ln) data]))"

definition parse_tlv :: "bytes \<Rightarrow> nat \<Rightarrow> bytes list option" where
  "parse_tlv data n_fields = parse_tlv_loop data n_fields 0 []"

definition pack_tlv_pair :: "bytes \<Rightarrow> bytes \<Rightarrow> exc + bytes" where
  "pack_tlv_pair a b = rbind (pack_H (int (length a))) (\<lambda>x.
     rbind (pack_H (int (length b))) (\<lambda>y. Inr (x @ a @ y @ b)))"

definition make_end_reg :: "bytes \<Rightarrow> bytes \<Rightarrow> bytes \<Rightarrow> bytes \<Rightarrow> exc + bytes" where
  "make_end_reg TS_b SES_id ID_A ID_B = tlv_join [TS_b, SES_id, ID_A, ID_B]"

section \<open>Inverse of each other\<close>

text \<open>The bytes of a list of fields, each short enough for its two-byte length.\<close>

definition tlv_bytes :: "bytes list \<Rightarrow> bytes" where
  "tlv_bytes ps = concat (map (\<lambda>p. be_bytes 2 (int (length p)) @ p) ps)"

abbreviation short :: "bytes \<Rightarrow> bool" where
  "short p \<equiv> length p < 65536"

lemma tlv_bytes_simps [simp]: "tlv_bytes [] = []"
  "tlv_bytes (p # ps) = be_bytes 2 (int (length p)) @ p @ tlv_bytes ps"
  by (simp_all add: tlv_bytes_def)

lemma tlv_ok: "tlv p = (if short p then Inr (be_bytes 2 (int (length p)) @ p) else Inl (LibRaised StructKind))"
  by (simp add: tlv_def struct_pack_def)

lemma tlv_join_ok:
  "tlv_join ps = (if \<forall>p \<in> set ps. short p then Inr (tlv_bytes ps) else Inl (LibRaised StructKind))"
proof -
  have "rmap tlv ps = (if \<forall>p \<in> set ps. short p
      then Inr (map (\<lambda>p. be_bytes 2 (int (length p)) @ p) ps) else Inl (LibRaised StructKind))"
    by (induction ps) (auto simp: tlv_ok)
  then show ?thesis by (simp add: tlv_join_def tlv_bytes_def)
qed

lemma tlv_join_Inr: "tlv_join ps = Inr b \<longleftrightarrow> (\<forall>p \<in> set ps. short p) \<and> b = tlv_bytes ps"
  by (auto simp: tlv_join_ok)

lemma pack_tlv_pair_join: "pack_tlv_pair a b = tlv_join [a, b]"
  by (auto simp: pack_tlv_pair_def tlv_join_ok struct_pack_def)

lemma parse_loop_pack:
  assumes "\<forall>p \<in> set ps. short p"
  shows "parse_tlv_loop (pre @ tlv_bytes ps @ rest) (length ps) (length pre) fs = Some (fs @ ps)"
  using assms
proof (induction ps arbitrary: pre fs)
  case (Cons p ps)
  define hdr where "hdr = be_bytes 2 (int (length p))"
  have hdr: "length hdr = 2" "be_int hdr = int (length p)"
    using Cons.prems by (simp_all add: hdr_def be_int_be_bytes)
  define data where "data = pre @ hdr @ p @ tlv_bytes ps @ rest"
  have s1: "slice (length pre) (length pre + 2) data = hdr"
    unfolding data_def by (rule slice_append_exact) (simp_all add: hdr)
  have s2: "slice (length pre + 2) (length pre + 2 + length p) data = p"
    using slice_append_exact [of "pre @ hdr" "length pre + 2" p "length p" "tlv_bytes ps @ rest"]
    by (simp add: data_def hdr)
  have "parse_tlv_loop ((pre @ hdr @ p) @ tlv_bytes ps @ rest) (length ps)
      (length (pre @ hdr @ p)) (fs @ [p]) = Some ((fs @ [p]) @ ps)"
    by (rule Cons.IH) (use Cons.prems in simp)
  then have "parse_tlv_loop data (length ps) (length pre + 2 + length p) (fs @ [p]) = Some (fs @ p # ps)"
    by (simp add: data_def hdr add.assoc)
  moreover have "length pre + 2 + length p \<le> length data" by (simp add: data_def hdr)
  ultimately have "parse_tlv_loop data (Suc (length ps)) (length pre) fs = Some (fs @ p # ps)"
    by (simp add: Let_def s1 [simplified] s2 [simplified] hdr(2))
  then show ?case by (simp add: data_def hdr_def)
qed simp

lemma parse_tlv_pack: "\<forall>p \<in> set ps. short p \<Longrightarrow> parse_tlv (tlv_bytes ps @ rest) (length ps) = Some ps"
  using parse_loop_pack [of ps "[]" rest "[]"] by (simp add: parse_tlv_def)

lemma parse_loop_sound:
  assumes "parse_tlv_loop data n pos fs = Some out" and "pos \<le> length data"
  shows "\<exists>ps rest. out = fs @ ps \<and> length ps = n \<and> (\<forall>p \<in> set ps. short p)
    \<and> drop pos data = tlv_bytes ps @ rest"
  using assms
proof (induction data n pos fs rule: parse_tlv_loop.induct)
  case (1 data pos flds)
  then show ?case by auto
next
  case (2 data n pos flds)
  define h where "h = slice pos (pos + 2) data"
  define ln where "ln = nat (be_int h)"
  have c: "\<not> length data < pos + 2" "\<not> length data < pos + 2 + ln"
    using 2(2) by (auto simp: Let_def ln_def h_def split: if_splits)
  define p where "p = slice (pos + 2) (pos + 2 + ln) data"
  have rec: "parse_tlv_loop data n (pos + 2 + ln) (flds @ [p]) = Some out"
    using 2(2) c by (simp add: Let_def ln_def h_def p_def)
  have len: "length h = 2" "length p = ln" using c by (simp_all add: h_def p_def slice_def)
  have "be_int h < 256 ^ 2" using be_int_less [of h] len by simp
  then have short: "short p" using len be_int_nonneg [of h] by (simp add: ln_def)
  have hb: "h = be_bytes 2 (int (length p))"
    using be_bytes_be_int [of h] len be_int_nonneg [of h] by (simp add: ln_def)
  have split: "drop pos data = h @ p @ drop (pos + 2 + ln) data"
  proof -
    have "take 2 (drop pos data) = h" by (simp add: h_def slice_def drop_take)
    moreover have "take ln (drop (pos + 2) data) = p" by (simp add: p_def slice_def drop_take)
    ultimately show ?thesis
      by (metis append_take_drop_id drop_drop add.commute)
  qed
  have "\<exists>ps rest. out = (flds @ [p]) @ ps \<and> length ps = n \<and> (\<forall>p \<in> set ps. short p)
    \<and> drop (pos + 2 + ln) data = tlv_bytes ps @ rest"
    using "2.IH" [OF c(1) refl refl, folded h_def, folded ln_def p_def] rec c
    by (simp add: h_def ln_def p_def)
  then obtain ps rest where "out = (flds @ [p]) @ ps" "length ps = n" "\<forall>p \<in> set ps. short p"
    "drop (pos + 2 + ln) data = tlv_bytes ps @ rest" by blast
  then show ?case using split hb short by (intro exI [of _ "p # ps"] exI [of _ rest]) simp
qed

lemma parse_tlv_sound:
  assumes "parse_tlv data n = Some ps"
  shows "length ps = n \<and> (\<forall>p \<in> set ps. short p) \<and> (\<exists>rest. data = tlv_bytes ps @ rest)"
  using parse_loop_sound [of data n 0 "[]" ps] assms by (auto simp: parse_tlv_def)

lemma tlv_bytes_inj:
  "\<forall>p \<in> set ps. short p \<Longrightarrow> \<forall>q \<in> set qs. short q \<Longrightarrow> length ps = length qs \<Longrightarrow>
   tlv_bytes ps @ r = tlv_bytes qs @ r' \<Longrightarrow> ps = qs"
  by (metis parse_tlv_pack option.inject)

lemma make_reg_reg_inj:
  assumes "make_reg_reg S T M A B I = Inr b" and "make_reg_reg S' T' M' A' B' I' = Inr b"
  shows "S = S' \<and> T = T' \<and> M = M' \<and> A = A' \<and> B = B' \<and> I = I'"
proof -
  obtain m m' where m: "pack_I M = Inr m" "pack_I M' = Inr m'"
    and j: "tlv_join [S, T, m, A, B, I] = Inr b" "tlv_join [S', T', m', A', B', I'] = Inr b"
    using assms by (auto simp: make_reg_reg_def rbind_Inr_iff)
  have "[S, T, m, A, B, I] = [S', T', m', A', B', I']"
    by (rule tlv_bytes_inj [where r = "[]" and r' = "[]"]) (use j in \<open>auto simp: tlv_join_Inr\<close>)
  moreover have "be_int m = M" "be_int m' = M'"
    using m by (auto simp: struct_pack_def be_int_be_bytes split: if_splits)
  ultimately show ?thesis by auto
qed

section \<open>Properties\<close>

text \<open>
  TLV packing and parsing are inverse. The fields of a packed list come back whatever bytes
  follow, and everything the parser accepts is the packing of what it returns, followed by the bytes
  it ignores; so no two field lists share an encoding.
\<close>

theorem tlv_parse_pack:
  "case tlv_join ps of
     Inr b \<Rightarrow> parse_tlv (b @ rest) (length ps) = Some ps
   | Inl e \<Rightarrow> e = LibRaised StructKind \<and> (\<exists>p \<in> set ps. 65536 \<le> length p)"
  by (auto simp: tlv_join_ok parse_tlv_pack not_less)

text \<open>
  C35: the TLV parser is total and strict: it returns exactly \<open>n\<close> fields if and only if the
  data begins with a packing of \<open>n\<close> fields, and these fields are then its result.
\<close>

theorem tlv_parse_exact:
  "parse_tlv data n = Some ps
   \<longleftrightarrow> length ps = n \<and> (\<exists>b rest. tlv_join ps = Inr b \<and> data = b @ rest)"
  using parse_tlv_sound [of data n ps] parse_tlv_pack [of ps] by (auto simp: tlv_join_Inr)

end
