(* ===== verification/Framing.thy ===== *)
theory Framing
  imports Sock
begin

text \<open>
  Length-prefixed framing, the interface between the sessions and the socket. A message is
  packed as a 4-byte big-endian length and a body; a receiver reads the four bytes, rejects a
  length of zero or above its limit, reads the body and parses it. The three implementations in
  the sources (\<open>protocol.py\<close>, \<open>rot_challenge_service.py\<close>, \<open>pc_client.py\<close>) interpret the
  locale \<open>framing\<close>.
\<close>

definition recv_frame ::
  "string \<Rightarrow> string \<Rightarrow> int \<Rightarrow> (int \<Rightarrow> exc) \<Rightarrow> (bytes \<Rightarrow> exc + 'r) \<Rightarrow> ('z io_scheme, 'r) py" where
  "recv_frame hdr_msg body_msg limit bad_len parse =
     bnd (recv_loop hdr_msg 4 []) (\<lambda>hdr.
     if be_int hdr = 0 \<or> limit < be_int hdr then raise (bad_len (be_int hdr))
     else bnd (recv_loop body_msg (nat (be_int hdr)) []) (\<lambda>body. lift (parse body)))"

definition frame :: "bytes \<Rightarrow> bytes" where
  "frame body = be_bytes 4 (int (length body)) @ body"

lemma frame_header:
  "length body < 2 ^ 32 \<Longrightarrow> take 4 (frame body @ r) = be_bytes 4 (int (length body))"
  "drop 4 (frame body @ r) = body @ r"
  by (simp_all add: frame_def)

lemma be_int_frame_header: "length body < 2 ^ 32 \<Longrightarrow> be_int (be_bytes 4 (int (length body))) = int (length body)"
  by (rule be_int_be_bytes) auto

text \<open>One frame at the head of the stream, however it was cut into chunks.\<close>

lemma recv_frame_ok:
  assumes "live s" and "avail s = frame body @ r" and "0 < length body"
    and "int (length body) \<le> limit" and "limit < 2 ^ 32"
  shows "recv_frame h b limit bad parse s
    = (parse body, s\<lparr>rx := chop (4 + length body) (rx s)\<rparr>)"
proof -
  have lb: "length body < 2 ^ 32" using assms(4,5) by simp
  have hdr: "recv_loop h 4 [] s = (Inr (be_bytes 4 (int (length body))), s\<lparr>rx := chop 4 (rx s)\<rparr>)"
    using recv_loop_stream [OF assms(1), of "[]" 4 h] assms(2) frame_header(1) [OF lb, of r]
    by (simp add: frame_def)
  define s1 where "s1 = s\<lparr>rx := chop 4 (rx s)\<rparr>"
  have live1: "live s1" using assms(1) by (simp add: s1_def live_chop)
  have av1: "avail s1 = body @ r" using assms(2) by (simp add: s1_def concat_chop frame_def)
  have "recv_loop b (length body) [] s1 = (Inr body, s1\<lparr>rx := chop (length body) (rx s1)\<rparr>)"
    using recv_loop_stream [OF live1, of "[]" "length body" b] av1 by simp
  then show ?thesis
    using assms(3,4) hdr
    by (simp add: recv_frame_def bnd_Inr s1_def be_int_frame_header [OF lb] chop_add)
qed

text \<open>A bad length is rejected once the four bytes are in, whatever follows.\<close>

lemma recv_frame_bad_length:
  assumes "live s" and "4 \<le> length (avail s)"
    and "be_int (take 4 (avail s)) = 0 \<or> limit < be_int (take 4 (avail s))"
  shows "recv_frame h b limit bad parse s
    = (Inl (bad (be_int (take 4 (avail s)))), s\<lparr>rx := chop 4 (rx s)\<rparr>)"
  using recv_loop_stream [OF assms(1), of "[]" 4 h] assms(2,3)
  by (simp add: recv_frame_def bnd_Inr)

text \<open>A receive never adds to the stream, and a successful one takes at least five bytes off it.\<close>

lemma sock_recv_rx: "sock_recv n s = (r, t) \<Longrightarrow> length (avail t) \<le> length (avail s)"
  by (auto simp: sock_recv_def split: if_splits list.splits stream_end.splits)

lemma sock_recv_takes:
  "sock_recv n s = (Inr c, t) \<Longrightarrow> length (avail t) + length c = length (avail s)"
  by (auto simp: sock_recv_def split: if_splits list.splits stream_end.splits)

lemma recv_loop_rx: "recv_loop msg n buf s = (r, t) \<Longrightarrow> length (avail t) \<le> length (avail s)"
proof (induction msg n buf s rule: recv_loop.induct)
  case (1 msg n buf s)
  show ?case
  proof (cases "length buf < n \<and> (\<exists>c u. sock_recv (n - length buf) s = (Inr c, u) \<and> c \<noteq> [])")
    case True
    then obtain c u where c: "length buf < n" "sock_recv (n - length buf) s = (Inr c, u)" "c \<noteq> []"
      by blast
    then have "recv_loop msg n (buf @ c) u = (r, t)"
      using "1.prems" by (simp add: recv_loop.simps [of msg n buf s])
    from "1.IH" [OF c(1) c(2) [symmetric] refl c(3) this] sock_recv_rx [OF c(2)]
    show ?thesis by simp
  next
    case False
    then show ?thesis using "1.prems" sock_recv_rx [of "n - length buf" s]
      by (auto simp: recv_loop.simps [of msg n buf s] split: prod.splits sum.splits if_splits)
  qed
qed

lemma recv_loop_takes:
  "recv_loop msg n buf s = (Inr b, t) \<Longrightarrow> length buf \<le> n \<Longrightarrow>
   length (avail t) + (n - length buf) = length (avail s)"
proof (induction msg n buf s rule: recv_loop.induct)
  case (1 msg n buf s)
  show ?case
  proof (cases "length buf < n")
    case True
    with "1.prems" obtain c u where r: "sock_recv (n - length buf) s = (Inr c, u)" "c \<noteq> []"
      "recv_loop msg n (buf @ c) u = (Inr b, t)"
      by (auto simp: recv_loop.simps [of msg n buf s] split: prod.splits sum.splits if_splits)
    moreover have "length c \<le> n - length buf" using r(1)
      by (auto simp: sock_recv_def split: if_splits list.splits stream_end.splits)
    ultimately have "length (avail t) + (n - length (buf @ c)) = length (avail u)"
      and "length buf + length c \<le> n"
      using "1.IH" [OF True r(1) [symmetric] refl r(2) r(3)] True by simp_all
    then show ?thesis using sock_recv_takes [OF r(1)] by simp
  next
    case False
    then show ?thesis using "1.prems" by (simp add: recv_loop.simps [of msg n buf s])
  qed
qed

lemma recv_frame_takes:
  assumes "recv_frame h b limit bad parse s = (Inr r, t)"
  shows "length (avail t) + 5 \<le> length (avail s)"
proof -
  obtain hdr u body where hdr: "recv_loop h 4 [] s = (Inr hdr, u)" and n: "be_int hdr \<noteq> 0"
    and body: "recv_loop b (nat (be_int hdr)) [] u = (Inr body, t)"
    using assms by (auto simp: recv_frame_def bnd_eq_Inr_iff split: if_splits)
  have "0 < nat (be_int hdr)" using n be_int_nonneg [of hdr] by simp
  then show ?thesis using recv_loop_takes [OF hdr] recv_loop_takes [OF body] by simp
qed

lemma recv_frame_rx:
  assumes "recv_frame h b limit bad parse s = (r, t)"
  shows "length (avail t) \<le> length (avail s)"
  using assms
  by (auto simp: recv_frame_def bnd_def split: prod.splits sum.splits if_splits
      dest!: recv_loop_rx)

text \<open>Reading touches nothing but the pending chunks.\<close>

lemma sock_recv_frame: "sock_recv n s = (r, t) \<Longrightarrow> \<exists>x. t = s\<lparr>rx := x\<rparr>"
  by (rule exI [of _ "rx t"])
    (auto simp: sock_recv_def split: if_splits list.splits stream_end.splits)

lemma recv_loop_frame: "recv_loop msg n buf s = (r, t) \<Longrightarrow> \<exists>x. t = s\<lparr>rx := x\<rparr>"
proof (induction msg n buf s rule: recv_loop.induct)
  case (1 msg n buf s)
  show ?case
  proof (cases "length buf < n \<and> (\<exists>c u. sock_recv (n - length buf) s = (Inr c, u) \<and> c \<noteq> [])")
    case True
    then obtain c u where c: "length buf < n" "sock_recv (n - length buf) s = (Inr c, u)" "c \<noteq> []"
      by blast
    then have "recv_loop msg n (buf @ c) u = (r, t)"
      using "1.prems" by (simp add: recv_loop.simps [of msg n buf s])
    from "1.IH" [OF c(1) c(2) [symmetric] refl c(3) this] sock_recv_frame [OF c(2)]
    show ?thesis by auto
  next
    case False
    have self: "\<exists>x. s = s\<lparr>rx := x\<rparr>" by (rule exI [of _ "rx s"]) simp
    show ?thesis using False "1.prems" self sock_recv_frame [of "n - length buf" s]
      by (auto simp: recv_loop.simps [of msg n buf s] split: prod.splits sum.splits if_splits)
  qed
qed

lemma recv_frame_frame: "recv_frame h b limit bad parse s = (r, t) \<Longrightarrow> \<exists>x. t = s\<lparr>rx := x\<rparr>"
  by (fastforce simp: recv_frame_def bnd_def split: prod.splits sum.splits if_splits
      dest!: recv_loop_frame)

section \<open>The interface\<close>

locale framing =
  fixes pack :: "'m \<Rightarrow> exc + bytes" and recv :: "('z io_scheme, 'r) py"
    and parse :: "bytes \<Rightarrow> exc + 'r" and limit :: int and bad_len :: "int \<Rightarrow> exc"
    and wf :: "'m \<Rightarrow> bool" and view :: "'m \<Rightarrow> 'r"
  assumes pack_frame: "wf m \<Longrightarrow> pack m = Inr f \<Longrightarrow>
      \<exists>body. f = frame body \<and> 0 < length body \<and> parse body = Inr (view m)"
    and recv_shape: "\<exists>h b. recv = recv_frame h b limit bad_len parse"
    and limit_small: "limit < 2 ^ 32"
begin

text \<open>What was packed is received, and the stream is left at the next frame.\<close>

lemma recv_pack:
  assumes "wf m" and "pack m = Inr f" and "int (length f) \<le> limit + 4"
    and "live s" and "avail s = f @ r"
  shows "recv s = (Inr (view m), s\<lparr>rx := chop (length f) (rx s)\<rparr>)"
proof -
  from pack_frame [OF assms(1,2)] obtain body where
    b: "f = frame body" "0 < length body" "parse body = Inr (view m)" by auto
  obtain h e where "recv = recv_frame h e limit bad_len parse" using recv_shape by blast
  moreover have "length f = 4 + length body" by (simp add: b frame_def)
  ultimately show ?thesis
    using recv_frame_ok [of s body r limit h e bad_len parse] assms b limit_small by simp
qed

lemma recv_bad_length:
  assumes "live s" and "4 \<le> length (avail s)"
    and "be_int (take 4 (avail s)) = 0 \<or> limit < be_int (take 4 (avail s))"
  shows "recv s = (Inl (bad_len (be_int (take 4 (avail s)))), s\<lparr>rx := chop 4 (rx s)\<rparr>)"
  using recv_shape recv_frame_bad_length [OF assms] by auto

lemma recv_takes: "recv s = (Inr x, t) \<Longrightarrow> length (avail t) + 5 \<le> length (avail s)"
  using recv_shape recv_frame_takes by metis

lemma recv_rx: "recv s = (x, t) \<Longrightarrow> length (avail t) \<le> length (avail s)"
  using recv_shape recv_frame_rx by metis

lemma recv_only_rx: "recv s = (x, t) \<Longrightarrow> \<exists>c. t = s\<lparr>rx := c\<rparr>"
  using recv_shape recv_frame_frame by metis

lemma keeps_recv: "(\<And>s c. P s \<Longrightarrow> P (s\<lparr>rx := c\<rparr>)) \<Longrightarrow> keeps P recv"
  by (rule keepsI) (auto dest!: recv_only_rx)

end

end
