(* ===== verification/Protocol.thy ===== *)
theory Protocol
  imports Framing
begin

text \<open>
  \<open>smg_primary_server/protocol.py\<close>: the SecureNode messages. A payload is a dict whose bytes
  values travel as hexadecimal strings; on arrival the string values of the fields named in
  \<open>BYTES_FIELDS\<close> become bytes again where they are valid hexadecimal. The interpretation of
  \<open>framing\<close> gives the round trip over any segmentation of the stream.
\<close>

definition BYTES_FIELDS :: "string list" where
  "BYTES_FIELDS =
     [''A_GEN_bl'', ''B_GEN_bl'', ''ID_A'', ''ID_B'', ''ShS_A'', ''ShS_B'',
      ''INIT_cif'', ''SES_cif'', ''SES_id'', ''MSG_cif'', ''RES_cif'',
      ''A_END_cif'', ''B_END_cif'', ''VERIF_cif'', ''RESP_cif'', ''CONF_cif'']"

type_synonym payload = "(string \<times> pyval) list"

fun pack_value :: "pyval \<Rightarrow> pyval" where
  "pack_value (PBytes b) = PStr (hexlify b)"
| "pack_value v = v"

definition to_bytes4 :: "int \<Rightarrow> exc + bytes" where
  "to_bytes4 n = (if 0 \<le> n \<and> n < 256 ^ 4 then Inr (be_bytes 4 n) else Inl (LibRaised OverflowKind))"

definition pack_payload :: "payload \<Rightarrow> exc + bytes" where
  "pack_payload p =
     (let serialized = map (\<lambda>(k, v). (k, pack_value v)) p in
      rbind (dumps (PDict serialized)) (\<lambda>text.
      let body = str_bytes text in
      rbind (to_bytes4 (int (length body))) (\<lambda>hdr. Inr (hdr @ body))))"

definition unpack_value :: "string \<Rightarrow> pyval \<Rightarrow> pyval" where
  "unpack_value k v =
     (case v of
        PStr s \<Rightarrow> if k \<in> set BYTES_FIELDS
                  then (case unhexlify s of Inr b \<Rightarrow> PBytes b | Inl e \<Rightarrow> v) else v
      | _ \<Rightarrow> v)"

definition unpack_payload :: "bytes \<Rightarrow> exc + pyval" where
  "unpack_payload raw =
     rbind (utf8_decode raw) (\<lambda>text.
     rbind (loads text) (\<lambda>d.
     case d of PDict m \<Rightarrow> Inr (PDict (map (\<lambda>(k, v). (k, unpack_value k v)) m))
     | _ \<Rightarrow> Inl attribute_error))"

definition send_msg :: "payload \<Rightarrow> ('z io_scheme, unit) py" where
  "send_msg p = bnd (lift (pack_payload p)) sock_sendall"

definition recv_bad_len :: "int \<Rightarrow> exc" where
  "recv_bad_len n = Raised ValueKind (''Invalid message length: '' @ int_str n)"

definition recv_msg :: "('z io_scheme, pyval) py" where
  "recv_msg =
     bnd (recv_loop ''Connection closed during header recv'' 4 []) (\<lambda>hdr.
     let msg_len = be_int hdr in
     if msg_len = 0 \<or> 65536 < msg_len then raise (recv_bad_len msg_len)
     else bnd (recv_loop ''Connection closed during body recv'' (nat msg_len) []) (\<lambda>body.
       lift (unpack_payload body)))"

lemma keeps_send_msg [keeps_intro]:
  "(\<And>s x y. P s \<Longrightarrow> P (s\<lparr>tx := x, tx_left := y\<rparr>)) \<Longrightarrow> keeps P (send_msg p)"
  unfolding send_msg_def by (intro keeps_intro)

text \<open>What a send that returns did, and what any send touches.\<close>

lemma sock_sendall_Inr:
  "sock_sendall b s = (Inr x, t) \<Longrightarrow> \<exists>y. t = s\<lparr>tx := tx s @ [b], tx_left := y\<rparr>"
  by (intro exI [of _ "tx_left t"])
    (auto simp: sock_sendall_def split: if_splits option.splits nat.splits)

lemma send_msg_Inr:
  assumes "send_msg p s = (Inr x, t)"
  shows "\<exists>f y. pack_payload p = Inr f \<and> t = s\<lparr>tx := tx s @ [f], tx_left := y\<rparr>"
  using assms sock_sendall_Inr by (fastforce simp: send_msg_def bnd_eq_Inr_iff)

text \<open>On a connection that takes what is sent, sending a packable payload succeeds.\<close>

definition open_tx :: "'z io_scheme \<Rightarrow> bool" where
  "open_tx s \<longleftrightarrow> \<not> sock_closed s \<and> tx_left s = None"

lemma open_tx_simps [simp]:
  "open_tx (s\<lparr>rx := c\<rparr>) = open_tx s" "open_tx (s\<lparr>entropy_pos := e\<rparr>) = open_tx s"
  "open_tx (s\<lparr>tx := x\<rparr>) = open_tx s" "open_tx (s\<lparr>tick_pos := e\<rparr>) = open_tx s"
  "open_tx (s\<lparr>wall_pos := e\<rparr>) = open_tx s"
  by (simp_all add: open_tx_def)

lemma send_msg_ok:
  "open_tx s \<Longrightarrow> pack_payload p = Inr f \<Longrightarrow> send_msg p s = (Inr (), s\<lparr>tx := tx s @ [f]\<rparr>)"
  by (simp add: send_msg_def sock_sendall_def open_tx_def)

text \<open>Sending raises ordinary exceptions only.\<close>

lemma raises_sock_sendall: "raises is_exception (sock_sendall b)"
  by (rule raisesI) (auto simp: sock_sendall_def exc_class_defs split: if_splits option.splits nat.splits)

lemma raises_send_msg: "raises is_exception (send_msg p)"
proof -
  have "is_exception e" if "pack_payload p = Inl e" for e
    using that
    by (auto simp: pack_payload_def rbind_Inl_iff Let_def to_bytes4_def exc_class_defs split: if_splits
        dest: dumps_error simp del: dumps.simps)
  then have "raises is_exception (lift (pack_payload p))" by (auto intro: raisesI)
  then show ?thesis unfolding send_msg_def by (intro raises_bnd raises_sock_sendall)
qed

section \<open>Round trip\<close>

text \<open>
  Payloads that survive: distinct ASCII keys, ASCII strings, any float Python has. \<open>view_payload\<close> is the
  dict the receiver sees.
\<close>

definition wf_payload :: "payload \<Rightarrow> bool" where
  "wf_payload p \<longleftrightarrow> dict_ok p \<and> json_plain_members (map (\<lambda>(k, v). (k, pack_value v)) p)"

definition view_payload :: "payload \<Rightarrow> pyval" where
  "view_payload p = PDict (map (\<lambda>(k, v). (k, unpack_value k (pack_value v))) p)"

lemma map_fst_apsnd: "map fst (map (\<lambda>(k, v). (k, f k v)) p) = map fst p"
  by (induction p) auto

lemma dumps_dict_nonempty: "dumps (PDict d) = Inr t \<Longrightarrow> 0 < length t"
  by (auto simp: rbind_Inr_iff)

lemma pack_payload_frame:
  assumes "wf_payload p" and "pack_payload p = Inr f"
  shows "\<exists>body. f = frame body \<and> 0 < length body \<and> unpack_payload body = Inr (view_payload p)"
proof -
  define d where "d = map (\<lambda>(k, v). (k, pack_value v)) p"
  have "dict_keys d = dict_keys p" unfolding d_def by (rule map_fst_apsnd)
  then have plain: "json_plain (PDict d)"
    using assms(1) by (simp add: wf_payload_def flip: d_def)
  then obtain t where t: "dumps (PDict d) = Inr t" using dumps_plain by blast
  have un: "unpack_payload (str_bytes t) = Inr (view_payload p)"
    using utf8_decode_ascii [OF ascii_dumps [OF plain t]] loads_dumps [OF t plain]
    by (simp add: unpack_payload_def view_payload_def d_def comp_def case_prod_beta)
  have "f = frame (str_bytes t)"
    using assms(2) t
    by (auto simp: pack_payload_def frame_def Let_def to_bytes4_def split: if_splits simp flip: d_def)
  then show ?thesis
    using un dumps_dict_nonempty [OF t] by (intro exI [of _ "str_bytes t"]) simp
qed

interpretation msg: framing pack_payload recv_msg unpack_payload 65536 recv_bad_len wf_payload view_payload
proof
  fix m f assume "wf_payload m" "pack_payload m = Inr f"
  then show "\<exists>body. f = frame body \<and> 0 < length body
    \<and> unpack_payload body = Inr (view_payload m)" by (rule pack_payload_frame)
next
  show "\<exists>h b. recv_msg = recv_frame h b 65536 recv_bad_len unpack_payload"
    unfolding recv_msg_def recv_frame_def Let_def by blast
qed simp

text \<open>A payload whose bytes all sit under bytes fields and whose strings do not is seen unchanged.\<close>

definition clean_payload :: "payload \<Rightarrow> bool" where
  "clean_payload p \<longleftrightarrow> (\<forall>(k, v) \<in> set p. case v of PBytes b \<Rightarrow> k \<in> set BYTES_FIELDS
     | PStr s \<Rightarrow> k \<notin> set BYTES_FIELDS | _ \<Rightarrow> True)"

lemma view_clean: "clean_payload p \<Longrightarrow> view_payload p = PDict p"
  unfolding view_payload_def clean_payload_def pyval.inject
  by (induction p) (auto simp: unpack_value_def split: pyval.splits)

lemmas keeps_recv_msg [keeps_intro] = msg.keeps_recv

section \<open>Properties\<close>

text \<open>
  C21: a message survives the wire. What \<open>send_msg\<close> writes for a payload of the repository's
  shape, \<open>recv_msg\<close> reads back as the same dict, however TCP cut the stream into chunks and
  whatever follows, and it leaves the stream at the next message.
\<close>

theorem message_round_trip:
  assumes "wf_payload p" and "clean_payload p" and "pack_payload p = Inr f" and "length f \<le> 65540"
    and "live s" and "avail s = f @ rest"
  shows "recv_msg s = (Inr (PDict p), s\<lparr>rx := chop (length f) (rx s)\<rparr>)
    \<and> avail (s\<lparr>rx := chop (length f) (rx s)\<rparr>) = rest"
  using msg.recv_pack [OF assms(1,3) _ assms(5,6)] assms(2,4,6)
  by (simp add: view_clean concat_chop)

text \<open>A stream cut into single bytes.\<close>

definition byte_wise :: "bytes \<Rightarrow> io" where
  "byte_wise bs = blank_io\<lparr>rx := map (\<lambda>b. [b]) bs, rx_end := Silence\<rparr>"

lemma byte_wise_simps [simp]: "live (byte_wise bs)" "avail (byte_wise bs) = bs"
  by (auto simp add: live_def byte_wise_def)

definition hello_frame :: bytes where
  "hello_frame = [0, 0, 0, 14] @ str_bytes ([CHR 0x7B, CHR 0x22] @ ''ID_A'' @ [CHR 0x22] @ '': '' @ [CHR 0x22]
     @ ''07'' @ [CHR 0x22, CHR 0x7D])"

lemma pack_hello: "pack_payload [(''ID_A'', PBytes [7])] = Inr hello_frame" "length hello_frame = 18"
  "wf_payload [(''ID_A'', PBytes [7])]" "clean_payload [(''ID_A'', PBytes [7])]"
  by code_simp+

lemma message_round_trip_witness:
  "recv_msg (byte_wise (hello_frame @ [9])) = (Inr (PDict [(''ID_A'', PBytes [7])]),
      (byte_wise (hello_frame @ [9]))\<lparr>rx := chop (length hello_frame) (rx (byte_wise (hello_frame @ [9])))\<rparr>)"
  by (rule message_round_trip [THEN conjunct1])
    (simp_all add: pack_hello del: hexlify_simps)

text \<open>
  A frame whose announced length is zero or above 65536 is refused as soon as its four length
  bytes are in, with that length in the error, and nothing of the body is read.
\<close>

theorem bad_length_refused:
  assumes "live s" and "4 \<le> length (avail s)"
    and "be_int (take 4 (avail s)) = 0 \<or> 65536 < be_int (take 4 (avail s))"
  shows "recv_msg s = (Inl (Raised ValueKind (''Invalid message length: '' @ int_str (be_int (take 4 (avail s))))),
      s\<lparr>rx := chop 4 (rx s)\<rparr>)"
  using msg.recv_bad_length [OF assms] by (simp add: recv_bad_len_def)

lemma bad_length_refused_witness:
  "recv_msg (byte_wise [0, 0, 0, 0, 1]) = (Inl (Raised ValueKind (''Invalid message length: ''
      @ int_str (be_int (take 4 (avail (byte_wise [0, 0, 0, 0, 1])))))),
      (byte_wise [0, 0, 0, 0, 1])\<lparr>rx := chop 4 (rx (byte_wise [0, 0, 0, 0, 1]))\<rparr>)"
  by (rule bad_length_refused) (simp_all add: be_int_def)

end
