(* ===== verification/Data_Store.thy ===== *)
theory Data_Store
  imports Pyval "HOL-Library.Multiset"
begin

text \<open>
  \<open>smg_primary_server/data_store.py\<close>: the readings of all nodes. Every method body runs under
  one lock, so threads interleave whole operations and a history is a list of them. Readings
  are dictionaries of JSON values. The abstract store is the log of everything recorded: the
  locale \<open>reading_store\<close> derives from the laws of one \<open>record\<close> call what the buffers, the
  latest readings and the counters are after any history, and its interpretation gives this for
  \<open>DataStore\<close>. The last section shows the median robust: it stays where most values are.
\<close>

type_synonym reading = "(string \<times> pyval) list"

record data_store =
  max_readings :: nat
  buffers :: "(string, reading list) pydict"
  latest :: "(string, reading) pydict"
  record_counts :: "(string, nat) pydict"

definition MAX_READINGS_PER_NODE :: nat where
  "MAX_READINGS_PER_NODE = 10800"

definition new_store :: "nat \<Rightarrow> data_store" where
  "new_store n = \<lparr>max_readings = n, buffers = [], latest = [], record_counts = []\<rparr>"

section \<open>Operations\<close>

text \<open>\<open>deque(maxlen=n).append\<close> drops from the left.\<close>

definition deque_append :: "nat \<Rightarrow> 'a list \<Rightarrow> 'a \<Rightarrow> 'a list" where
  "deque_append n q x = (let q' = q @ [x] in drop (length q' - n) q')"

definition store_record :: "rat \<Rightarrow> string \<Rightarrow> reading \<Rightarrow> data_store \<Rightarrow> data_store" where
  "store_record now node r s =
     (let reading = dict_setdefault ''server_ts'' (PFloat (fl now)) r;
          s1 = (if map_of (buffers s) node = None
                then s\<lparr>buffers := dict_set node [] (buffers s),
                       record_counts := dict_set node 0 (record_counts s)\<rparr>
                else s);
          buf = the (map_of (buffers s1) node);
          cnt = the (map_of (record_counts s1) node)
      in s1\<lparr>buffers := dict_set node (deque_append (max_readings s1) buf reading) (buffers s1),
            latest := dict_set node reading (latest s1),
            record_counts := dict_set node (cnt + 1) (record_counts s1)\<rparr>)"

definition get_latest :: "string \<Rightarrow> data_store \<Rightarrow> reading option" where
  "get_latest node s = map_of (latest s) node"

definition get_all_latest :: "data_store \<Rightarrow> (string, reading) pydict" where
  "get_all_latest s = latest s"

text \<open>\<open>items[-n:] if len(items) > n else items\<close> for any int \<open>n\<close>.\<close>

definition last_items :: "int \<Rightarrow> 'a list \<Rightarrow> 'a list" where
  "last_items n items =
     (if n < int (length items)
      then (if n = 0 then items
            else if n < 0 then drop (nat (- n)) items
            else drop (length items - nat n) items)
      else items)"

definition get_recent :: "string \<Rightarrow> int \<Rightarrow> data_store \<Rightarrow> reading list" where
  "get_recent node n s =
     (case map_of (buffers s) node of None \<Rightarrow> [] | Some buf \<Rightarrow> last_items n buf)"

definition get_record_count :: "string \<Rightarrow> data_store \<Rightarrow> nat" where
  "get_record_count node s = (case map_of (record_counts s) node of None \<Rightarrow> 0 | Some c \<Rightarrow> c)"

definition get_all_nodes :: "data_store \<Rightarrow> string list" where
  "get_all_nodes s = dict_keys (buffers s)"

text \<open>\<open>r.get(k, d)\<close> on a reading.\<close>

definition field :: "string \<Rightarrow> pyval \<Rightarrow> reading \<Rightarrow> pyval" where
  "field k d r = (case map_of r k of None \<Rightarrow> d | Some v \<Rightarrow> v)"

text \<open>
  \<open>aggregate_power\<close>: the two running sums start at \<open>0.0\<close>; a reading whose value is no
  number makes the addition raise.
\<close>

definition round_val :: "nat \<Rightarrow> pyval \<Rightarrow> pyval" where
  "round_val n v = (case v of PFloat x \<Rightarrow> PFloat (fround n x) | _ \<Rightarrow> v)"

definition aggregate_power :: "rat \<Rightarrow> data_store \<Rightarrow> exc + reading" where
  "aggregate_power now s =
     rbind (rfold (\<lambda>(pb, pg, n) r.
         rbind (py_add pb (field ''P_bus'' (PFloat (Fin 0)) r)) (\<lambda>pb'.
         rbind (py_add pg (field ''P_gen'' (PFloat (Fin 0)) r)) (\<lambda>pg'. Inr (pb', pg', n + 1))))
       (PFloat (Fin 0), PFloat (Fin 0), 0) (map snd (latest s))) (\<lambda>(pb, pg, n).
     Inr [(''total_P_bus'', round_val 2 pb), (''total_P_gen'', round_val 2 pg),
          (''node_count'', PInt n), (''ts'', PFloat (fl now))])"

definition export_data :: "string option \<Rightarrow> data_store \<Rightarrow> (string, reading list) pydict" where
  \<comment> \<open>the dict \<open>export_json\<close> dumps; an empty label counts as none\<close>
  "export_data node s = (case node of
     Some l \<Rightarrow> if l \<noteq> [] then [(l, case map_of (buffers s) l of None \<Rightarrow> [] | Some b \<Rightarrow> b)]
               else buffers s
   | None \<Rightarrow> buffers s)"

text \<open>\<open>float(v)\<close> of the middle value; a string is parsed.\<close>

definition to_float :: "pyval \<Rightarrow> exc + pyfloat" where
  "to_float v = (case as_num v of Some a \<Rightarrow> num_float a
     | None \<Rightarrow> (case v of PStr s \<Rightarrow> float_of_str s | _ \<Rightarrow> Inl type_error))"

definition v_bus_values :: "string option \<Rightarrow> data_store \<Rightarrow> pyval list" where
  "v_bus_values exclude s =
     [field ''V_bus'' PNone r. (node, r) \<leftarrow> latest s,
        Some node \<noteq> exclude \<and> field ''V_bus'' PNone r \<noteq> PNone]"

definition median_of :: "pyval list \<Rightarrow> exc + pyfloat option" where
  "median_of vs =
     (if length vs < 2 then Inr None
      else rbind (py_sort vs) (\<lambda>values.
        let n = length values in
        if n mod 2 = 0 then
          rbind (py_add (values ! (n div 2 - 1)) (values ! (n div 2))) (\<lambda>t.
          rbind (py_div t (PFloat (Fin 2))) (\<lambda>m. rbind (to_float m) (\<lambda>x. Inr (Some x))))
        else rbind (to_float (values ! (n div 2))) (\<lambda>x. Inr (Some x))))"

definition get_median_v_bus :: "string option \<Rightarrow> data_store \<Rightarrow> exc + pyfloat option" where
  "get_median_v_bus exclude s = median_of (v_bus_values exclude s)"

definition store_summary :: "data_store \<Rightarrow> (string, nat \<times> pyval) pydict" where
  "store_summary s = map (\<lambda>(node, buf).
     (node, (case map_of (record_counts s) node of None \<Rightarrow> 0 | Some c \<Rightarrow> c,
             case map_of (latest s) node of None \<Rightarrow> PNone | Some r \<Rightarrow> field ''ts_ms'' PNone r)))
     (buffers s)"

section \<open>The store against its log\<close>

text \<open>
  A history is the list of \<open>record\<close> calls with the clock value each one read. The log of a
  node is what was recorded for it, in order.
\<close>

type_synonym rec_call = "rat \<times> string \<times> reading"

definition stamp :: "rat \<Rightarrow> reading \<Rightarrow> reading" where
  "stamp now r = dict_setdefault ''server_ts'' (PFloat (fl now)) r"

definition node_log :: "string \<Rightarrow> rec_call list \<Rightarrow> reading list" where
  "node_log n ops = map (\<lambda>(now, m, r). stamp now r) (filter (\<lambda>(now, m, r). m = n) ops)"

definition take_last :: "nat \<Rightarrow> 'a list \<Rightarrow> 'a list" where
  "take_last n xs = drop (length xs - n) xs"

lemma node_log_simps [simp]:
  "node_log n [] = []"
  "node_log n (ops @ [(now, m, r)]) = node_log n ops @ (if m = n then [stamp now r] else [])"
  by (simp_all add: node_log_def)

lemma length_take_last [simp]: "length (take_last n xs) = min n (length xs)"
  by (simp add: take_last_def)

lemma take_last_Nil [simp]: "take_last n [] = []"
  by (simp add: take_last_def)

lemma deque_append_take_last: "deque_append n (take_last n xs) x = take_last n (xs @ [x])"
  by (cases "n \<le> length xs") (auto simp: deque_append_def take_last_def Let_def Suc_diff_le)

lemma take_last_take_last: "take_last m (take_last n xs) = take_last (min m n) xs"
  by (cases "n \<le> length xs"; cases "m \<le> n") (auto simp: take_last_def)

text \<open>
  The interface the sessions and the coordinator use: \<open>look\<close> is the latest reading,
  \<open>buf\<close> the buffer and \<open>cnt\<close> the counter of a node, \<open>good\<close> the invariant.
\<close>

locale reading_store =
  fixes empty :: 's and rec :: "rat \<Rightarrow> string \<Rightarrow> reading \<Rightarrow> 's \<Rightarrow> 's"
    and look :: "string \<Rightarrow> 's \<Rightarrow> reading option" and buf :: "string \<Rightarrow> 's \<Rightarrow> reading list"
    and cnt :: "string \<Rightarrow> 's \<Rightarrow> nat" and cap :: nat and good :: "'s \<Rightarrow> bool"
  assumes good_empty: "good empty" and good_rec: "good s \<Longrightarrow> good (rec now n r s)"
    and look_empty: "look n empty = None"
    and look_rec: "good s \<Longrightarrow> look m (rec now n r s) = (if m = n then Some (stamp now r) else look m s)"
    and buf_empty: "buf n empty = []"
    and buf_rec: "good s \<Longrightarrow> buf m (rec now n r s)
      = (if m = n then deque_append cap (buf m s) (stamp now r) else buf m s)"
    and cnt_empty: "cnt n empty = 0"
    and cnt_rec: "good s \<Longrightarrow> cnt m (rec now n r s) = (if m = n then Suc (cnt m s) else cnt m s)"
begin

definition run_log :: "rec_call list \<Rightarrow> 's" where
  "run_log ops = fold (\<lambda>(now, n, r). rec now n r) ops empty"

lemma run_log_simps: "run_log [] = empty" "run_log (ops @ [(now, n, r)]) = rec now n r (run_log ops)"
  by (simp_all add: run_log_def)

lemma good_run: "good (run_log ops)"
  by (induction ops rule: rev_induct) (auto simp: run_log_simps good_empty good_rec)

lemma look_run: "look n (run_log ops) = (if node_log n ops = [] then None else Some (last (node_log n ops)))"
  by (induction ops rule: rev_induct)
    (auto simp: run_log_simps look_empty look_rec good_run split: if_splits)

lemma buf_run: "buf n (run_log ops) = take_last cap (node_log n ops)"
  by (induction ops rule: rev_induct)
    (auto simp: run_log_simps buf_empty buf_rec good_run deque_append_take_last)

lemma cnt_run: "cnt n (run_log ops) = length (node_log n ops)"
  by (induction ops rule: rev_induct) (auto simp: run_log_simps cnt_empty cnt_rec good_run)

end

definition buffer_of :: "string \<Rightarrow> data_store \<Rightarrow> reading list" where
  "buffer_of n s = (case map_of (buffers s) n of None \<Rightarrow> [] | Some b \<Rightarrow> b)"

text \<open>The three dictionaries have the same keys, and no key twice.\<close>

definition store_ok :: "nat \<Rightarrow> data_store \<Rightarrow> bool" where
  "store_ok cap s \<longleftrightarrow> max_readings s = cap \<and> dict_ok (buffers s)
     \<and> dict_keys (latest s) = dict_keys (buffers s)
     \<and> dict_keys (record_counts s) = dict_keys (buffers s)"

lemma map_of_None_keys: "map_of d k = None \<longleftrightarrow> k \<notin> set (dict_keys d)"
  by (simp add: map_of_eq_None_iff)

lemma dict_keys_cong:
  "dict_keys d = dict_keys e \<Longrightarrow> dict_keys (dict_set k v d) = dict_keys (dict_set k w e)"
  by (simp add: dict_keys_set del: set_map)

lemma dict_keys_twice:
  "dict_keys d = dict_keys e \<Longrightarrow> dict_keys (dict_set k u d) = dict_keys (dict_set k v (dict_set k w e))"
  by (simp add: dict_keys_set del: set_map)

lemma store_ok_new: "store_ok cap (new_store cap)"
  by (simp add: store_ok_def new_store_def)

lemma store_ok_record: "store_ok cap s \<Longrightarrow> store_ok cap (store_record now node r s)"
  unfolding store_ok_def store_record_def Let_def
  by (cases "map_of (buffers s) node = None")
    (simp_all add: dict_keys_cong dict_keys_twice del: set_map)

lemma keys_None: "store_ok cap s \<Longrightarrow> map_of (record_counts s) n = None \<longleftrightarrow> map_of (buffers s) n = None"
  by (simp add: store_ok_def map_of_None_keys del: set_map)

interpretation st: reading_store "new_store cap" store_record get_latest buffer_of
  get_record_count cap "store_ok cap" for cap
proof
  show "store_ok cap (new_store cap)" by (rule store_ok_new)
next
  fix s now n m r assume ok: "store_ok cap s"
  show "store_ok cap (store_record now n r s)" using ok by (rule store_ok_record)
  show "get_latest m (store_record now n r s) = (if m = n then Some (stamp now r) else get_latest m s)"
    by (simp add: get_latest_def store_record_def Let_def stamp_def)
  show "buffer_of m (store_record now n r s)
    = (if m = n then deque_append cap (buffer_of m s) (stamp now r) else buffer_of m s)"
    using ok by (auto simp: buffer_of_def store_record_def Let_def stamp_def store_ok_def
        split: option.splits)
  show "get_record_count m (store_record now n r s)
    = (if m = n then Suc (get_record_count m s) else get_record_count m s)"
    using keys_None [OF ok, of n]
    by (auto simp: get_record_count_def store_record_def Let_def split: option.splits)
qed (simp_all add: new_store_def get_latest_def buffer_of_def get_record_count_def)

text \<open>The store after a history, and what the queries answer from it.\<close>

definition store_after :: "nat \<Rightarrow> rec_call list \<Rightarrow> data_store" where
  "store_after cap ops = fold (\<lambda>(now, n, r). store_record now n r) ops (new_store cap)"

lemma store_after_run: "store_after cap ops = st.run_log cap ops"
  by (simp add: store_after_def st.run_log_def)

lemma last_items_take_last: "0 < n \<Longrightarrow> last_items n xs = take_last (nat n) xs"
  by (auto simp: last_items_def take_last_def)

lemma get_recent_buffer: "get_recent m n s = last_items n (buffer_of m s)"
  by (simp add: get_recent_def buffer_of_def last_items_def split: option.splits)

section \<open>The median\<close>

text \<open>Values that \<open>float\<close> comparison orders: numbers other than not-a-number.\<close>

definition num_key :: "pyval \<Rightarrow> pyfloat" where
  "num_key v = (case as_num v of None \<Rightarrow> NaN | Some a \<Rightarrow> exact a)"

definition orderable :: "pyval \<Rightarrow> bool" where
  "orderable v \<longleftrightarrow> num_key v \<noteq> NaN"

abbreviation le_key :: "pyval \<Rightarrow> pyval \<Rightarrow> bool" where
  "le_key u v \<equiv> fle (num_key u) (num_key v)"

lemma orderableE: "orderable v \<Longrightarrow> (\<And>a. as_num v = Some a \<Longrightarrow> num_key v = exact a \<Longrightarrow> P) \<Longrightarrow> P"
  by (auto simp: orderable_def num_key_def split: option.splits)

lemma fle_trans: "fle x y \<Longrightarrow> fle y z \<Longrightarrow> fle x z"
  by (cases x; cases y; cases z) auto

lemma fle_total: "x \<noteq> NaN \<Longrightarrow> y \<noteq> NaN \<Longrightarrow> fle y x \<longleftrightarrow> \<not> flt x y"
  by (cases x; cases y) auto

lemma flt_fle: "flt x y \<Longrightarrow> fle x y"
  by (cases x; cases y) auto

lemma py_lt_orderable:
  "orderable u \<Longrightarrow> orderable v \<Longrightarrow> py_lt u v = Inr (flt (num_key u) (num_key v))"
  by (cases u; cases v) (auto simp: orderable_def num_key_def num_lt_def)

lemma py_insort_sorted:
  assumes "orderable x" and "\<forall>y \<in> set ys. orderable y" and "sorted_wrt le_key ys"
  shows "\<exists>zs. py_insort x ys = Inr zs \<and> mset zs = add_mset x (mset ys) \<and> sorted_wrt le_key zs"
  using assms(2,3)
proof (induction ys)
  case (Cons y ys)
  then obtain zs where zs: "py_insort x ys = Inr zs" "mset zs = add_mset x (mset ys)" "sorted_wrt le_key zs"
    by auto
  have set: "set zs = insert x (set ys)" using zs(2) by (metis set_mset_add_mset_insert set_mset_mset)
  have lt: "py_lt y x = Inr (flt (num_key y) (num_key x))"
    using Cons.prems(1) assms(1) by (intro py_lt_orderable) auto
  show ?case
  proof (cases "flt (num_key y) (num_key x)")
    case True
    then show ?thesis using zs set lt Cons.prems flt_fle by auto
  next
    case False
    then have "le_key x y"
      using fle_total [of "num_key y" "num_key x"] Cons.prems(1) assms(1) by (auto simp: orderable_def)
    then have "sorted_wrt le_key (x # y # ys)" using Cons.prems(2) by (auto intro: fle_trans)
    then show ?thesis using lt False by simp
  qed
qed simp

lemma py_sort_sorted:
  assumes "\<forall>x \<in> set xs. orderable x"
  shows "\<exists>zs. py_sort xs = Inr zs \<and> mset zs = mset xs \<and> sorted_wrt le_key zs"
  using assms
proof (induction xs)
  case (Cons x xs)
  then obtain ys where y: "py_sort xs = Inr ys" "mset ys = mset xs" "sorted_wrt le_key ys" by auto
  have "\<forall>y \<in> set ys. orderable y" using y(2) Cons.prems by (metis list.set_intros(2) mset_eq_setD)
  from py_insort_sorted [OF _ this y(3), of x] Cons.prems y show ?case by auto
qed simp

text \<open>In a sorted list, a convex predicate that holds of enough elements holds in the middle.\<close>

lemma filter_split: "length (filter P xs) = length (filter P (take k xs)) + length (filter P (drop k xs))"
  by (metis append_take_drop_id filter_append length_append)

lemma filter_drop_empty: "\<forall>x \<in> set (drop k xs). \<not> P x \<Longrightarrow> length (filter P xs) \<le> k"
  using filter_split [of P xs k] length_filter_le [of P "take k xs"] by simp

lemma filter_take_empty: "\<forall>x \<in> set (take k xs). \<not> P x \<Longrightarrow> length (filter P xs) \<le> length xs - k"
  using filter_split [of P xs k] length_filter_le [of P "drop k xs"] by simp

definition between :: "int \<Rightarrow> int \<Rightarrow> pyval \<Rightarrow> bool" where
  "between a b v \<longleftrightarrow> in_range (of_int a) (of_int b) (num_key v)"

lemma sorted_middle:
  assumes sorted: "sorted_wrt le_key zs" and ord: "\<forall>z \<in> set zs. orderable z" and k: "k < length zs"
    and many: "k < length (filter (between a b) zs)" "length zs - k \<le> length (filter (between a b) zs)"
  shows "between a b (zs ! k)"
proof (rule ccontr)
  assume no: "\<not> between a b (zs ! k)"
  have key: "num_key (zs ! k) \<noteq> NaN" using ord k by (auto simp: orderable_def)
  have above: "le_key (zs ! k) z" if z: "z \<in> set (drop k zs)" for z
  proof -
    obtain j where "j < length (drop k zs)" "drop k zs ! j = z"
      using z in_set_conv_nth [of z "drop k zs"] by blast
    then have j: "z = zs ! (k + j)" "k + j < length zs" using k by auto
    show ?thesis using sorted_wrt_nth_less [OF sorted, of k "k + j"] j key
      by (cases j; cases "num_key (zs ! k)") auto
  qed
  have below: "le_key z (zs ! k)" if z: "z \<in> set (take (Suc k) zs)" for z
  proof -
    obtain j where j: "z = zs ! j" "j < Suc k" using z k by (auto simp: in_set_conv_nth)
    show ?thesis using sorted_wrt_nth_less [OF sorted, of j k] j key k
      by (cases "j = k"; cases "num_key (zs ! k)") auto
  qed
  show False
  proof (cases "flt (num_key (zs ! k)) (Fin (of_int a))")
    case True
    have "\<forall>z \<in> set (take (Suc k) zs). \<not> between a b z"
    proof
      fix z assume "z \<in> set (take (Suc k) zs)"
      from below [OF this] True show "\<not> between a b z"
        by (cases "num_key z"; cases "num_key (zs ! k)") (auto simp: between_def)
    qed
    from filter_take_empty [OF this] many(2) k show False by simp
  next
    case False
    have "\<forall>z \<in> set (drop k zs). \<not> between a b z"
    proof
      fix z assume "z \<in> set (drop k zs)"
      from above [OF this] False no key show "\<not> between a b z"
        by (cases "num_key z"; cases "num_key (zs ! k)") (auto simp: between_def)
    qed
    from filter_drop_empty [OF this] many(1) show False by simp
  qed
qed

lemma fl_between:
  assumes "of_int a \<le> x" and "x \<le> of_int b" and "\<bar>a\<bar> < 2 ^ 53" and "\<bar>b\<bar> < 2 ^ 53"
  shows "in_range (of_int a) (of_int b) (fl x)"
proof (rule fl_in_range [OF assms(1,2)])
  have rnd: "rnd (of_int n) = of_int n" if n: "\<bar>n\<bar> < 2 ^ 53" for n :: int
  proof (cases "0 \<le> n")
    case True
    then show ?thesis using n by (intro rnd_small_int) auto
  next
    case False
    then show ?thesis using n rnd_small_int [of "- n"] by simp
  qed
  show "rnd (of_int a) = of_int a" "rnd (of_int b) = of_int b" using rnd assms by auto
  have "of_int (- (2 ^ 53)) \<le> (of_int a :: rat)" "of_int b \<le> (of_int (2 ^ 53) :: rat)"
    using assms(3,4) by (unfold of_int_le_iff) linarith+
  then show "- (2 ^ 53) \<le> (of_int a :: rat)" "(of_int b :: rat) \<le> 2 ^ 53" by simp_all
qed

lemma num_float_between:
  assumes "in_range (of_int a) (of_int b) (exact x)" and "\<bar>a\<bar> < 2 ^ 53" and "\<bar>b\<bar> < 2 ^ 53"
  shows "\<exists>f. num_float x = Inr f \<and> in_range (of_int a) (of_int b) f"
proof (cases x)
  case (NInt n)
  with assms have "in_range (of_int a) (of_int b) (fl (of_int n))"
    by (intro fl_between) (simp_all add: exact_def)
  then show ?thesis using NInt by (auto simp: float_of_int_def elim!: in_rangeE)
next
  case (NFlt f)
  then show ?thesis using assms(1) by (simp add: exact_def)
qed

lemma betweenE:
  assumes "between a b v"
  obtains x where "as_num v = Some x" "in_range (of_int a) (of_int b) (exact x)"
  using assms by (auto simp: between_def num_key_def split: option.splits)

lemma to_float_between:
  assumes "between a b v" and "\<bar>a\<bar> < 2 ^ 53" and "\<bar>b\<bar> < 2 ^ 53"
  shows "\<exists>f. to_float v = Inr f \<and> in_range (of_int a) (of_int b) f"
  using betweenE [OF assms(1)] num_float_between [OF _ assms(2,3)] by (force simp: to_float_def)

lemma float_sum_between:
  assumes "in_range (of_int a) (of_int b) f" and "in_range (of_int a) (of_int b) g"
    and "\<bar>a\<bar> < 2 ^ 52" and "\<bar>b\<bar> < 2 ^ 52"
  shows "in_range (of_int (2 * a)) (of_int (2 * b)) (fadd f g)"
proof -
  obtain x y where xy: "f = Fin x" "g = Fin y" "of_int a \<le> x" "x \<le> of_int b" "of_int a \<le> y" "y \<le> of_int b"
    using assms(1,2) by (auto elim!: in_rangeE)
  have "in_range (of_int (2 * a)) (of_int (2 * b)) (fl (x + y))"
    by (rule fl_between) (use xy assms(3,4) in auto)
  then show ?thesis using xy by simp
qed

lemma num_add_between:
  assumes "in_range (of_int a) (of_int b) (exact x)" and "in_range (of_int a) (of_int b) (exact y)"
    and "\<bar>a\<bar> < 2 ^ 52" and "\<bar>b\<bar> < 2 ^ 52"
  shows "\<exists>z. num_add x y = Inr z \<and> in_range (of_int (2 * a)) (of_int (2 * b)) (exact z)"
proof (cases "\<exists>m n. x = NInt m \<and> y = NInt n")
  case True
  then show ?thesis using assms(1,2) by (auto simp: exact_def)
next
  case False
  have "\<bar>a\<bar> < 2 ^ 53" "\<bar>b\<bar> < 2 ^ 53" using assms(3,4) by auto
  from num_float_between [OF assms(1) this] num_float_between [OF assms(2) this]
  obtain f g where "num_float x = Inr f" "num_float y = Inr g"
    "in_range (of_int a) (of_int b) f" "in_range (of_int a) (of_int b) g" by auto
  moreover have "num_add x y = float_op (\<lambda>x y. Inr (fadd x y)) x y"
    using False by (cases x; cases y) auto
  ultimately show ?thesis
    using float_sum_between [OF _ _ assms(3,4)] by (auto simp: float_op_def exact_def)
qed

lemma mean_between:
  assumes "between a b u" and "between a b v" and "\<bar>a\<bar> < 2 ^ 52" and "\<bar>b\<bar> < 2 ^ 52"
  shows "\<exists>m. rbind (py_add u v) (\<lambda>t. rbind (py_div t (PFloat (Fin 2))) (\<lambda>m.
      rbind (to_float m) (\<lambda>x. Inr (Some x)))) = Inr (Some m) \<and> in_range (of_int a) (of_int b) m"
proof -
  obtain x y where xy: "as_num u = Some x" "in_range (of_int a) (of_int b) (exact x)"
    "as_num v = Some y" "in_range (of_int a) (of_int b) (exact y)"
    using assms(1,2) by (auto elim!: betweenE)
  obtain z where z: "num_add x y = Inr z" "in_range (of_int (2 * a)) (of_int (2 * b)) (exact z)"
    using num_add_between [OF xy(2,4) assms(3,4)] by auto
  have "\<bar>2 * a\<bar> < 2 ^ 53" "\<bar>2 * b\<bar> < 2 ^ 53" using assms(3,4) by auto
  from num_float_between [OF z(2) this] obtain f where
    f: "num_float z = Inr f" "in_range (of_int (2 * a)) (of_int (2 * b)) f" by auto
  obtain r where r: "f = Fin r" "of_int (2 * a) \<le> r" "r \<le> of_int (2 * b)"
    using f(2) by (auto elim!: in_rangeE)
  have "in_range (of_int a) (of_int b) (fl (r / 2))"
    by (rule fl_between) (use r assms(3,4) in auto)
  moreover have "as_num (of_num z) = Some z" by (cases z) auto
  ultimately show ?thesis
    using xy z f r
    by (auto simp: py_add_def py_div_def num_binop_def num_div_def float_op_def to_float_def
        split: pynum.splits)
qed

text \<open>The median of values more than half of which lie between two bounds lies there too.\<close>

lemma median_of_majority:
  assumes len: "2 \<le> length vs" and ord: "\<forall>v \<in> set vs. orderable v"
    and maj: "length vs < 2 * length (filter (between a b) vs)"
    and a: "\<bar>a\<bar> < 2 ^ 52" and b: "\<bar>b\<bar> < 2 ^ 52"
  shows "\<exists>m. median_of vs = Inr (Some m) \<and> in_range (of_int a) (of_int b) m"
proof -
  obtain zs where zs: "py_sort vs = Inr zs" "mset zs = mset vs" "sorted_wrt le_key zs"
    using py_sort_sorted [OF ord] by auto
  have lz: "length zs = length vs" using zs(2) by (metis size_mset)
  have oz: "\<forall>z \<in> set zs. orderable z" using zs(2) ord by (metis mset_eq_setD)
  have fz: "length (filter (between a b) zs) = length (filter (between a b) vs)"
    using zs(2) by (metis mset_filter size_mset)
  define k where "k = length vs div 2"
  have mid: "between a b (zs ! k)"
    by (rule sorted_middle [OF zs(3) oz]) (use maj len lz fz k_def in auto)
  show ?thesis
  proof (cases "even (length vs)")
    case True
    have "between a b (zs ! (k - 1))"
      by (rule sorted_middle [OF zs(3) oz]) (use maj len lz fz k_def True in \<open>auto elim!: evenE\<close>)
    from mean_between [OF this mid a b] show ?thesis
      using True len zs(1) lz by (simp add: median_of_def k_def Let_def flip: k_def)
  next
    case False
    have "\<bar>a\<bar> < 2 ^ 53" "\<bar>b\<bar> < 2 ^ 53" using a b by auto
    from to_float_between [OF mid this] show ?thesis
      using False len zs(1) lz by (auto simp: median_of_def Let_def odd_iff_mod_2_eq_one simp flip: k_def)
  qed
qed

section \<open>Properties\<close>

text \<open>
  C19: the store refines the log of what was recorded. After any history of \<open>record\<close> calls of
  any nodes, the latest reading of a node is the last one of its log, \<open>get_recent\<close> with a
  positive \<open>k\<close> is the last \<open>k\<close> entries of the log (at most the capacity), and the counter is
  the length of the whole log, evicted readings included.
\<close>

theorem store_refines_log:
  assumes "0 < k"
  shows "get_latest n (store_after cap ops)
      = (if node_log n ops = [] then None else Some (last (node_log n ops)))
    \<and> get_recent n k (store_after cap ops) = take_last (min (nat k) cap) (node_log n ops)
    \<and> get_record_count n (store_after cap ops) = length (node_log n ops)"
  using assms
  by (simp add: store_after_run st.look_run st.cnt_run st.buf_run get_recent_buffer
      last_items_take_last take_last_take_last)

lemma store_refines_log_witness:
  "get_recent ''a'' 2 (store_after 3 [(0, ''a'', []), (1, ''b'', []), (2, ''a'', [])])
    = take_last (min (nat 2) 3) (node_log ''a'' [(0, ''a'', []), (1, ''b'', []), (2, ''a'', [])])"
  by (rule store_refines_log [THEN conjunct2, THEN conjunct1]) simp

text \<open>
  Asking for the last zero readings returns the whole buffer of the node: the slice
  \<open>items[-0:]\<close> is \<open>items[0:]\<close>.
\<close>

theorem get_recent_zero: "get_recent n 0 (store_after cap ops) = take_last cap (node_log n ops)"
  by (simp add: store_after_run get_recent_buffer st.buf_run last_items_def)

text \<open>
  C33: the cross-node median is robust against wrong numbers. If at least two other nodes report a bus
  voltage, and every voltage that is reported, the minority's included, is a number other than
  not-a-number, then \<open>get_median_v_bus\<close> returns a float, and if more than half of the voltages lie
  between two integers then so does the median, whatever numbers the minority reports. (A string among
  them makes the sort raise, and not-a-number leaves it in no order.)
\<close>

theorem median_v_bus_robust:
  assumes "2 \<le> length (v_bus_values ex s)" and "\<forall>v \<in> set (v_bus_values ex s). orderable v"
    and "length (v_bus_values ex s) < 2 * length (filter (between a b) (v_bus_values ex s))"
    and "\<bar>a\<bar> < 2 ^ 52" and "\<bar>b\<bar> < 2 ^ 52"
  shows "\<exists>m. get_median_v_bus ex s = Inr (Some m) \<and> in_range (of_int a) (of_int b) m"
  unfolding get_median_v_bus_def using assms by (rule median_of_majority)

definition four_nodes :: data_store where
  "four_nodes = store_after 5 [(0, ''a'', [(''V_bus'', PInt 12)]), (0, ''b'', [(''V_bus'', PFloat (Fin 12))]),
     (0, ''c'', [(''V_bus'', PInt 900)]), (0, ''d'', [(''V_bus'', PInt 0)])]"

lemma four_nodes_values:
  "v_bus_values (Some ''d'') four_nodes = [PInt 12, PFloat (Fin 12), PInt 900]"
  by code_simp

lemma median_v_bus_robust_witness:
  "\<exists>m. get_median_v_bus (Some ''d'') four_nodes = Inr (Some m) \<and> in_range (of_int 11) (of_int 13) m"
  by (rule median_v_bus_robust)
    (simp_all add: four_nodes_values orderable_def between_def num_key_def exact_def)

end
