(* ===== verification/Ems.thy ===== *)
theory Ems
  imports Data_Store
begin

text \<open>
  \<open>smg_primary_server/ems_coordinator.py\<close>: the fuzzy energy coordinator. Membership functions
  and the centroid are computed in floats; a zero divisor raises. Inputs of the inference are
  floats; an int input is compared exactly, which is its value as a rational. The state is the
  dictionary of setpoints; \<open>update\<close> stops at the first exception and keeps the setpoints it
  has assigned by then. Builtin \<open>sum\<close> is the left fold from zero.
\<close>

definition V_NOMINAL :: pyfloat where "V_NOMINAL = Fin 12"
definition MIN_SP :: pyfloat where "MIN_SP = Fin 0"
definition MAX_SP :: pyfloat where "MAX_SP = Fin 100"
definition DEFAULT_SP :: pyfloat where "DEFAULT_SP = Fin 50"

lemmas sp_defs = V_NOMINAL_def MIN_SP_def MAX_SP_def DEFAULT_SP_def

section \<open>Membership functions\<close>

definition trimf :: "pyfloat \<Rightarrow> pyfloat \<Rightarrow> pyfloat \<Rightarrow> pyfloat \<Rightarrow> exc + pyfloat" where
  "trimf x a b c =
     (if fle x a \<or> fle c x then Inr (Fin 0)
      else if fle x b then fdiv (fsub x a) (fsub b a)
      else fdiv (fsub c x) (fsub c b))"

definition trapf :: "pyfloat \<Rightarrow> pyfloat \<Rightarrow> pyfloat \<Rightarrow> pyfloat \<Rightarrow> pyfloat \<Rightarrow> exc + pyfloat" where
  "trapf x a b c d =
     (if fle x a \<or> fle d x then Inr (Fin 0)
      else if fle b x \<and> fle x c then Inr (Fin 1)
      else if flt x b then fdiv (fsub x a) (fsub b a)
      else fdiv (fsub d x) (fsub d c))"

type_synonym mf = "pyfloat \<Rightarrow> exc + pyfloat"

definition vbe_low :: mf where
  "vbe_low x = trapf x (Fin (- 3)) (Fin (- 3)) (fl (- 8 / 10)) (fl (- 2 / 10))"

definition vbe_med :: mf where
  "vbe_med x = trimf x (fl (- 8 / 10)) (Fin 0) (fl (8 / 10))"

definition vbe_high :: mf where
  "vbe_high x = trapf x (fl (2 / 10)) (fl (8 / 10)) (Fin 3) (Fin 3)"

definition pd_low :: mf where
  "pd_low x = trapf x (Fin (- 10)) (Fin 0) (Fin 20) (Fin 40)"

definition pd_med :: mf where
  "pd_med x = trimf x (Fin 20) (Fin 50) (Fin 80)"

definition pd_high :: mf where
  "pd_high x = trapf x (Fin 60) (Fin 80) (Fin 150) (Fin 150)"

definition tr_untrusted :: mf where
  "tr_untrusted x = trapf x (fl (- 1 / 10)) (Fin 0) (fl (20 / 100)) (fl (30 / 100))"

definition tr_degraded :: mf where
  "tr_degraded x = trimf x (fl (20 / 100)) (Fin (1 / 2)) (Fin (3 / 4))"

definition tr_trusted :: mf where
  "tr_trusted x = trapf x (fl (65 / 100)) (fl (80 / 100)) (Fin 1) (fl (11 / 10))"

datatype out_label = ZERO | LOW | MED | HIGH | MAX_OUT

fun OUT_MFS :: "out_label \<Rightarrow> rat \<times> rat \<times> rat" where
  "OUT_MFS ZERO = (- 5, 0, 10)"
| "OUT_MFS LOW = (5, 15, 30)"
| "OUT_MFS MED = (25, 40, 60)"
| "OUT_MFS HIGH = (50, 70, 90)"
| "OUT_MFS MAX_OUT = (80, 95, 105)"

definition out_mf :: "pyfloat \<Rightarrow> out_label \<Rightarrow> exc + pyfloat" where
  "out_mf y name = (case OUT_MFS name of (a, b, c) \<Rightarrow> trimf y (Fin a) (Fin b) (Fin c))"

section \<open>Inference\<close>

type_synonym rule = "mf \<times> mf \<times> mf \<times> out_label"

definition RULES :: "rule list" where
  "RULES =
    [(tr_untrusted, vbe_low, pd_low, ZERO), (tr_untrusted, vbe_low, pd_med, ZERO),
     (tr_untrusted, vbe_low, pd_high, ZERO), (tr_untrusted, vbe_med, pd_low, ZERO),
     (tr_untrusted, vbe_med, pd_med, ZERO), (tr_untrusted, vbe_med, pd_high, ZERO),
     (tr_untrusted, vbe_high, pd_low, ZERO), (tr_untrusted, vbe_high, pd_med, ZERO),
     (tr_untrusted, vbe_high, pd_high, ZERO),
     (tr_degraded, vbe_low, pd_low, LOW), (tr_degraded, vbe_low, pd_med, MED),
     (tr_degraded, vbe_low, pd_high, MED), (tr_degraded, vbe_med, pd_low, ZERO),
     (tr_degraded, vbe_med, pd_med, LOW), (tr_degraded, vbe_med, pd_high, MED),
     (tr_degraded, vbe_high, pd_low, ZERO), (tr_degraded, vbe_high, pd_med, ZERO),
     (tr_degraded, vbe_high, pd_high, LOW),
     (tr_trusted, vbe_low, pd_low, MED), (tr_trusted, vbe_low, pd_med, HIGH),
     (tr_trusted, vbe_low, pd_high, MAX_OUT), (tr_trusted, vbe_med, pd_low, LOW),
     (tr_trusted, vbe_med, pd_med, MED), (tr_trusted, vbe_med, pd_high, HIGH),
     (tr_trusted, vbe_high, pd_low, ZERO), (tr_trusted, vbe_high, pd_med, LOW),
     (tr_trusted, vbe_high, pd_high, MED)]"

text \<open>The output universe: 0 to 100 W in steps of 0.5.\<close>

definition universe :: "pyfloat list" where
  "universe = map (\<lambda>i. fmul (Fin (of_int i)) (Fin (1 / 2))) [0..200]"

definition clip_at :: "pyfloat \<Rightarrow> out_label \<Rightarrow> pyfloat \<times> pyfloat \<Rightarrow> exc + pyfloat" where
  "clip_at strength lbl = (\<lambda>(y, agg).
     rbind (out_mf y lbl) (\<lambda>m.
     let clipped = pymin strength m in Inr (if flt agg clipped then clipped else agg)))"

definition rule_strength :: "pyfloat \<Rightarrow> pyfloat \<Rightarrow> pyfloat \<Rightarrow> rule \<Rightarrow> exc + pyfloat" where
  "rule_strength v p t = (\<lambda>(tr, vbe, pd, lbl).
     rbind (tr t) (\<lambda>a. rbind (vbe v) (\<lambda>b. rbind (pd p) (\<lambda>c. Inr (pymin (pymin a b) c)))))"

definition rule_step :: "pyfloat \<Rightarrow> pyfloat \<Rightarrow> pyfloat \<Rightarrow> pyfloat list \<Rightarrow> rule \<Rightarrow> exc + pyfloat list" where
  "rule_step v p t aggregated r =
     rbind (rule_strength v p t r) (\<lambda>strength.
     if fle strength (Fin 0) then Inr aggregated
     else rmap (clip_at strength (snd (snd (snd r)))) (zip universe aggregated))"

definition centroid :: "pyfloat list \<Rightarrow> exc + pyfloat" where
  "centroid aggregated =
     (let numerator = foldl fadd (Fin 0) (map2 fmul universe aggregated);
          denominator = foldl fadd (Fin 0) aggregated
      in if feq denominator (Fin 0) then Inr (Fin 0) else fdiv numerator denominator)"

text \<open>The loop of \<open>_fuzzy_infer\<close> over a rule table; the code runs it over \<open>_RULES\<close>.\<close>

definition infer_with :: "rule list \<Rightarrow> pyfloat \<Rightarrow> pyfloat \<Rightarrow> pyfloat \<Rightarrow> exc + pyfloat" where
  "infer_with rules v p t =
     rbind (rfold (rule_step v p t) (replicate (length universe) (Fin 0)) rules) centroid"

definition fuzzy_infer :: "pyfloat \<Rightarrow> pyfloat \<Rightarrow> pyfloat \<Rightarrow> exc + pyfloat" where
  "fuzzy_infer v_bus_error p_demand trust_score = infer_with RULES v_bus_error p_demand trust_score"

section \<open>The coordinator\<close>

record ems =
  setpoints :: "(string, pyfloat) pydict"
  last_update :: "(string, rat) pydict"

definition new_ems :: ems where
  "new_ems = \<lparr>setpoints = [], last_update = []\<rparr>"

definition clamp :: "pyfloat \<Rightarrow> pyfloat" where
  "clamp x = pymax MIN_SP (pymin MAX_SP x)"

definition py_sum :: "pyval list \<Rightarrow> exc + pyval" where
  "py_sum vs = rfold py_add (PInt 0) vs"

text \<open>A fuzzy input that is no number raises at the first comparison.\<close>

definition fuzzy_input :: "pyval \<Rightarrow> exc + pyfloat" where
  "fuzzy_input v = (case as_num v of None \<Rightarrow> Inl type_error | Some a \<Rightarrow> Inr (exact a))"

definition bus_inputs :: "(string, reading) pydict \<Rightarrow> exc + pyfloat \<times> pyfloat" where
  "bus_inputs all_latest =
     (let v_bus_values = map (\<lambda>(node, r). field ''V_bus'' (PFloat V_NOMINAL) r) all_latest in
      rbind (py_sum v_bus_values) (\<lambda>total.
      rbind (py_div total (PInt (int (length v_bus_values)))) (\<lambda>mean_v_bus.
      rbind (py_sub mean_v_bus (PFloat V_NOMINAL)) (\<lambda>v_bus_error.
      rbind (py_sum (map (\<lambda>(node, r). field ''P_bus'' (PFloat (Fin 0)) r) all_latest)) (\<lambda>p_demand.
      rbind (fuzzy_input v_bus_error) (\<lambda>v. rbind (fuzzy_input p_demand) (\<lambda>p. Inr (v, p))))))))"

fun update_nodes :: "rat \<Rightarrow> pyfloat \<Rightarrow> pyfloat \<Rightarrow> (string \<times> reading) list \<Rightarrow> (ems, unit) py" where
  "update_nodes now v p [] = ret ()"
| "update_nodes now v p ((node, reading) # rest) =
     bnd (lift (fuzzy_input (field ''trust_score'' (PFloat (Fin 1)) reading))) (\<lambda>trust.
     bnd (lift (fuzzy_infer v p trust)) (\<lambda>sp0.
     let sp = clamp (fround 1 sp0) in
     seq (modify (\<lambda>e. e\<lparr>setpoints := dict_set node sp (setpoints e),
                        last_update := dict_set node now (last_update e)\<rparr>))
     (update_nodes now v p rest)))"

definition ems_update :: "rat \<Rightarrow> data_store \<Rightarrow> (ems, unit) py" where
  "ems_update now ds =
     (let all_latest = get_all_latest ds in
      if all_latest = [] then ret ()
      else bnd (lift (bus_inputs all_latest)) (\<lambda>(v, p). update_nodes now v p all_latest))"

definition get_setpoint :: "string \<Rightarrow> ems \<Rightarrow> pyfloat option" where
  "get_setpoint node e =
     (if map_of (last_update e) node = None then None
      else Some (case map_of (setpoints e) node of None \<Rightarrow> DEFAULT_SP | Some sp \<Rightarrow> sp))"

definition set_manual_setpoint :: "rat \<Rightarrow> string \<Rightarrow> pyfloat \<Rightarrow> ems \<Rightarrow> ems" where
  "set_manual_setpoint now node p_demand e =
     (let p = clamp p_demand in
      e\<lparr>setpoints := dict_set node (fround 1 p) (setpoints e),
        last_update := dict_set node now (last_update e)\<rparr>)"

definition get_all_setpoints :: "ems \<Rightarrow> (string, pyfloat) pydict" where
  "get_all_setpoints e = setpoints e"

definition ems_summary :: "ems \<Rightarrow> (string, (string, pyfloat) pydict) pydict" where
  "ems_summary e = [(''setpoints'', setpoints e)]"

section \<open>Memberships lie between 0 and 1\<close>

lemma rnd_inverse_1024: "rnd (1 / 1024) = 1 / 1024"
  by code_simp

lemma fdiv_fl_unit:
  assumes "0 \<le> p" and "p \<le> q" and "1 / 1024 \<le> q" and "q \<le> 2 ^ 53"
  shows "\<exists>m. fdiv (fl p) (fl q) = Inr m \<and> in_range 0 1 m"
proof -
  have "rnd (2 ^ 53) = 2 ^ 53" by code_simp
  then have q: "1 / 1024 \<le> rnd q" "rnd q \<le> 2 ^ 53"
    using rnd_mono [OF assms(3)] rnd_mono [OF assms(4)] by (simp_all add: rnd_inverse_1024)
  have p: "0 \<le> rnd p" "rnd p \<le> rnd q" using rnd_mono [OF assms(1)] rnd_mono [OF assms(2)] by auto
  have fin: "fl p = Fin (rnd p)" "fl q = Fin (rnd q)"
    using p q fl_limit_gt by (auto intro!: fl_small)
  have "in_range 0 1 (fl (rnd p / rnd q))"
    by (rule fl_unit) (use p q in \<open>auto simp: divide_simps\<close>)
  then show ?thesis using fin q(1) by auto
qed

definition is_unit :: "exc + pyfloat \<Rightarrow> bool" where
  "is_unit r \<longleftrightarrow> (\<exists>m. r = Inr m \<and> in_range 0 1 m)"

lemma is_unitI [intro]: "r = Inr m \<Longrightarrow> in_range 0 1 m \<Longrightarrow> is_unit r"
  by (auto simp: is_unit_def)

lemma trimf_unit:
  assumes "x \<noteq> NaN" and "a + 1 / 1024 \<le> b" and "b + 1 / 1024 \<le> c" and "c \<le> a + 1000"
  shows "is_unit (trimf x (Fin a) (Fin b) (Fin c))"
proof (cases x)
  case (Fin r)
  have "is_unit (fdiv (fl (r - a)) (fl (b - a)))" if "a < r" "r \<le> b"
    using fdiv_fl_unit [of "r - a" "b - a"] that assms by (auto simp: is_unit_def)
  moreover have "is_unit (fdiv (fl (c - r)) (fl (c - b)))" if "b < r" "r < c"
    using fdiv_fl_unit [of "c - r" "c - b"] that assms by (auto simp: is_unit_def)
  ultimately show ?thesis using Fin by (auto simp: trimf_def fsub_def is_unit_def)
next
  case (Inf t)
  then show ?thesis by (cases t) (auto simp: trimf_def)
qed (use assms in simp)

lemma trapf_unit:
  assumes "x \<noteq> NaN" and "a = b \<or> a + 1 / 1024 \<le> b" and "b \<le> c" and "c = d \<or> c + 1 / 1024 \<le> d"
    and "d \<le> a + 1000"
  shows "is_unit (trapf x (Fin a) (Fin b) (Fin c) (Fin d))"
proof (cases x)
  case (Fin r)
  have "is_unit (fdiv (fl (r - a)) (fl (b - a)))" if "a < r" "r < b"
    using fdiv_fl_unit [of "r - a" "b - a"] that assms by (auto simp: is_unit_def)
  moreover have "is_unit (fdiv (fl (d - r)) (fl (d - c)))" if "c < r" "r < d"
    using fdiv_fl_unit [of "d - r" "d - c"] that assms by (auto simp: is_unit_def)
  ultimately show ?thesis using Fin by (auto simp: trapf_def fsub_def is_unit_def)
next
  case (Inf t)
  then show ?thesis by (cases t) (auto simp: trapf_def)
qed (use assms in simp)

lemma fl_consts:
  "fl (- 8 / 10) = Fin (- 3602879701896397 / 4503599627370496)"
  "fl (- 2 / 10) = Fin (- 3602879701896397 / 18014398509481984)"
  "fl (8 / 10) = Fin (3602879701896397 / 4503599627370496)"
  "fl (2 / 10) = Fin (3602879701896397 / 18014398509481984)"
  "fl (- 1 / 10) = Fin (- 3602879701896397 / 36028797018963968)"
  "fl (20 / 100) = Fin (3602879701896397 / 18014398509481984)"
  "fl (30 / 100) = Fin (5404319552844595 / 18014398509481984)"
  "fl (65 / 100) = Fin (5854679515581645 / 9007199254740992)"
  "fl (80 / 100) = Fin (3602879701896397 / 4503599627370496)"
  "fl (11 / 10) = Fin (2476979795053773 / 2251799813685248)"
  by code_simp+

lemma mf_unit:
  assumes "x \<noteq> NaN"
  shows "is_unit (vbe_low x)" "is_unit (vbe_med x)" "is_unit (vbe_high x)"
    "is_unit (pd_low x)" "is_unit (pd_med x)" "is_unit (pd_high x)"
    "is_unit (tr_untrusted x)" "is_unit (tr_degraded x)" "is_unit (tr_trusted x)"
  unfolding vbe_low_def vbe_med_def vbe_high_def pd_low_def pd_med_def pd_high_def
    tr_untrusted_def tr_degraded_def tr_trusted_def fl_consts
  by (rule trimf_unit [OF assms] trapf_unit [OF assms]; simp)+

lemma universe_range: "y \<in> set universe \<Longrightarrow> in_range 0 100 y"
proof -
  assume "y \<in> set universe"
  then obtain i :: int where i: "0 \<le> i" "i \<le> 200" "y = fl (of_int i * (1 / 2))"
    by (auto simp: universe_def)
  have "rnd 100 = 100" by (rule rnd_numeral) simp
  then show ?thesis unfolding i(3) using i(1,2) by (intro fl_in_range) auto
qed

lemma length_universe [simp]: "length universe = 201"
  by (simp add: universe_def)

lemma out_mf_unit: "y \<noteq> NaN \<Longrightarrow> is_unit (out_mf y lbl)"
  by (cases lbl) (auto simp: out_mf_def intro!: trimf_unit)

section \<open>Inference never fails on ordered inputs\<close>

lemma RULES_members:
  assumes "(tr, vbe, pd, lbl) \<in> set RULES"
  shows "tr \<in> {tr_untrusted, tr_degraded, tr_trusted} \<and> vbe \<in> {vbe_low, vbe_med, vbe_high}
    \<and> pd \<in> {pd_low, pd_med, pd_high}"
  using assms by (simp add: RULES_def) (elim disjE; simp)

lemma rule_strength_unit:
  assumes "r \<in> set RULES" and "v \<noteq> NaN" and "p \<noteq> NaN" and "t \<noteq> NaN"
  shows "is_unit (rule_strength v p t r)"
proof -
  obtain tr vbe pd lbl where r: "r = (tr, vbe, pd, lbl)" by (cases r)
  from RULES_members [OF assms(1) [unfolded r]] mf_unit [OF assms(2)] mf_unit [OF assms(3)]
    mf_unit [OF assms(4)]
  have "is_unit (tr t)" "is_unit (vbe v)" "is_unit (pd p)" by auto
  then obtain x y z where "tr t = Inr x" "vbe v = Inr y" "pd p = Inr z"
    "in_range 0 1 x" "in_range 0 1 y" "in_range 0 1 z" by (auto simp: is_unit_def)
  then show ?thesis
    unfolding is_unit_def r by (simp add: rule_strength_def pymin_in_range)
qed

definition agg_ok :: "pyfloat list \<Rightarrow> bool" where
  "agg_ok ag \<longleftrightarrow> length ag = length universe \<and> (\<forall>x \<in> set ag. in_range 0 1 x)"

lemma rmap_all:
  "(\<And>x. x \<in> set xs \<Longrightarrow> \<exists>y. f x = Inr y \<and> P y) \<Longrightarrow>
   \<exists>ys. rmap f xs = Inr ys \<and> length ys = length xs \<and> (\<forall>y \<in> set ys. P y)"
  by (induction xs) fastforce+

lemma rule_step_ok:
  assumes "is_unit (rule_strength v p t r)" and "agg_ok ag"
  shows "\<exists>ag'. rule_step v p t ag r = Inr ag' \<and> agg_ok ag'"
proof -
  obtain s where s: "rule_strength v p t r = Inr s" "in_range 0 1 s"
    using assms(1) by (auto simp: is_unit_def)
  define f where "f = clip_at s (snd (snd (snd r)))"
  have "\<exists>ag'. rmap f (zip universe ag) = Inr ag' \<and> length ag' = length (zip universe ag)
    \<and> (\<forall>x \<in> set ag'. in_range 0 1 x)"
  proof (rule rmap_all)
    fix q assume q: "q \<in> set (zip universe ag)"
    obtain y g where yg: "q = (y, g)" by (cases q)
    have y: "y \<noteq> NaN" using q yg universe_range [of y] by (cases y) (auto dest: set_zip_leftD)
    have g: "in_range 0 1 g" using q yg assms(2) by (auto simp: agg_ok_def dest!: set_zip_rightD)
    obtain m where m: "out_mf y (snd (snd (snd r))) = Inr m" "in_range 0 1 m"
      using out_mf_unit [OF y] by (auto simp: is_unit_def)
    show "\<exists>x. f q = Inr x \<and> in_range 0 1 x"
      using m g pymin_in_range [OF s(2) m(2)] by (simp add: f_def clip_at_def yg Let_def)
  qed
  then show ?thesis
    using s assms(2) by (auto simp: rule_step_def agg_ok_def f_def)
qed

lemma rules_ok:
  assumes "\<And>r. r \<in> set rs \<Longrightarrow> is_unit (rule_strength v p t r)" and "agg_ok ag"
  shows "\<exists>ag'. rfold (rule_step v p t) ag rs = Inr ag' \<and> agg_ok ag'"
  using assms
proof (induction rs arbitrary: ag)
  case (Cons r rs)
  obtain ag1 where "rule_step v p t ag r = Inr ag1" "agg_ok ag1"
    using rule_step_ok [OF Cons.prems(1) [OF list.set_intros(1)] Cons.prems(2)] by blast
  then show ?case using Cons.IH [of ag1] Cons.prems(1) by auto
qed simp

lemma agg_ok_start: "agg_ok (replicate (length universe) (Fin 0))"
  by (simp add: agg_ok_def)

text \<open>The centroid of an aggregate is a non-negative number or plus infinity, never not-a-number.\<close>

definition nonneg :: "pyfloat \<Rightarrow> bool" where
  "nonneg x \<longleftrightarrow> (case x of Fin r \<Rightarrow> 0 \<le> r | Inf s \<Rightarrow> \<not> s | NaN \<Rightarrow> False)"

lemma fl_nonneg: "0 \<le> x \<Longrightarrow> nonneg (fl x)"
  by (simp add: nonneg_def fl_def Let_def rnd_nonneg)

text \<open>Partial sums of values up to \<open>B\<close> stay below the multiples of \<open>B\<close>, which are floats.\<close>

lemma foldl_fadd_bound:
  assumes "\<forall>x \<in> set xs. in_range 0 B x" and "in_range 0 (of_nat k * B) acc"
    and "\<And>j. j \<le> k + length xs \<Longrightarrow> rnd (of_nat j * B) = of_nat j * B \<and> of_nat j * B \<le> 2 ^ 53"
  shows "in_range 0 (of_nat (k + length xs) * B) (foldl fadd acc xs)"
  using assms
proof (induction xs arbitrary: k acc)
  case (Cons x xs)
  obtain a b where ab: "acc = Fin a" "x = Fin b" "0 \<le> a" "a \<le> of_nat k * B" "0 \<le> b" "b \<le> B"
    using Cons.prems(1,2) by (auto elim!: in_rangeE)
  have "in_range 0 (of_nat (Suc k) * B) (fl (a + b))"
    by (rule fl_in_range) (use ab Cons.prems(3) [of "Suc k"] in \<open>auto simp: algebra_simps\<close>)
  then have "in_range 0 (of_nat (Suc k) * B) (fadd acc x)" using ab by simp
  from Cons.IH [OF _ this] Cons.prems(1,3) show ?case by simp
qed simp

lemma foldl_fadd_range:
  assumes "\<forall>x \<in> set xs. in_range 0 (of_nat B) x" and "length xs * B < 2 ^ 53"
  shows "in_range 0 (of_nat (length xs * B)) (foldl fadd (Fin 0) xs)"
proof -
  have r: "rnd (of_nat j * of_nat B) = of_nat j * of_nat B \<and> (of_nat j * of_nat B :: rat) \<le> 2 ^ 53"
    if "j \<le> length xs" for j
  proof -
    have "j * B \<le> length xs * B" by (rule mult_le_mono1 [OF that])
    then have lt: "j * B < 2 ^ 53" using assms(2) by (rule le_less_trans)
    then have "int (j * B) < 2 ^ 53" by (metis of_nat_less_numeral_power_cancel_iff)
    then have "rnd (of_int (int (j * B))) = of_int (int (j * B))" by (intro rnd_small_int) auto
    moreover have "of_nat (j * B) \<le> (of_nat (2 ^ 53) :: rat)"
      using lt by (simp only: of_nat_le_iff less_imp_le)
    ultimately show ?thesis by simp
  qed
  show ?thesis using foldl_fadd_bound [of xs "of_nat B" 0 "Fin 0"] assms(1) r by simp
qed

lemma fmul_range: "in_range 0 100 y \<Longrightarrow> in_range 0 1 a \<Longrightarrow> in_range 0 128 (fmul y a)"
proof -
  assume y: "in_range 0 100 y" and a: "in_range 0 1 a"
  obtain u w where uw: "y = Fin u" "a = Fin w" "0 \<le> u" "u \<le> 100" "0 \<le> w" "w \<le> 1"
    using y a by (auto elim!: in_rangeE)
  have "u * w \<le> 100 * 1" using uw by (intro mult_mono) auto
  moreover have "rnd 128 = 128" by (rule rnd_numeral) simp
  ultimately have "in_range 0 128 (fl (u * w))" using uw by (intro fl_in_range) auto
  then show ?thesis using uw by simp
qed

lemma centroid_nonneg:
  assumes "agg_ok ag"
  shows "\<exists>x. centroid ag = Inr x \<and> nonneg x"
proof -
  define nums where "nums = map2 fmul universe ag"
  have "\<forall>x \<in> set nums. in_range 0 (of_nat 128) x"
    using assms universe_range fmul_range
    by (fastforce simp: nums_def agg_ok_def dest: set_zip_leftD set_zip_rightD)
  moreover have ln: "length nums = 201" using assms by (simp add: nums_def agg_ok_def)
  ultimately have "in_range 0 (of_nat (201 * 128)) (foldl fadd (Fin 0) nums)"
    using foldl_fadd_range [of nums 128] by simp
  then obtain n where n: "foldl fadd (Fin 0) nums = Fin n" "0 \<le> n" by (auto elim!: in_rangeE)
  have "in_range 0 (of_nat (201 * 1)) (foldl fadd (Fin 0) ag)"
    using foldl_fadd_range [of ag 1] assms by (simp add: agg_ok_def)
  then obtain d where d: "foldl fadd (Fin 0) ag = Fin d" "0 \<le> d" by (auto elim!: in_rangeE)
  show ?thesis
  proof (cases "d = 0")
    case True
    then show ?thesis using d by (simp add: centroid_def feq_def nonneg_def)
  next
    case False
    then show ?thesis using n d fl_nonneg [of "n / d"]
      by (simp add: centroid_def feq_def nums_def)
  qed
qed

lemma infer_ok:
  assumes "set rs \<subseteq> set RULES" and "v \<noteq> NaN" and "p \<noteq> NaN" and "t \<noteq> NaN"
  shows "\<exists>x. infer_with rs v p t = Inr x \<and> nonneg x"
proof -
  have "\<And>r. r \<in> set rs \<Longrightarrow> is_unit (rule_strength v p t r)"
    using assms rule_strength_unit by blast
  from rules_ok [OF this agg_ok_start] obtain ag where
    "rfold (rule_step v p t) (replicate (length universe) (Fin 0)) rs = Inr ag" "agg_ok ag" by auto
  then show ?thesis using centroid_nonneg by (simp add: infer_with_def)
qed

section \<open>Which rules fire\<close>

text \<open>A rule with a zero membership leaves the aggregate alone.\<close>

definition silent :: "pyfloat \<Rightarrow> pyfloat \<Rightarrow> pyfloat \<Rightarrow> rule \<Rightarrow> bool" where
  "silent v p t r \<longleftrightarrow> (case rule_strength v p t r of Inr s \<Rightarrow> fle s (Fin 0) | Inl e \<Rightarrow> False)"

lemma silent_step: "silent v p t r \<Longrightarrow> rule_step v p t ag r = Inr ag"
  by (auto simp: silent_def rule_step_def split: sum.splits)

lemma rfold_append: "rfold f b (xs @ ys) = rbind (rfold f b xs) (\<lambda>c. rfold f c ys)"
  by (induction xs arbitrary: b) (auto simp: rbind_def split: sum.splits)

lemma rfold_silent: "\<forall>r \<in> set rs. silent v p t r \<Longrightarrow> rfold (rule_step v p t) ag rs = Inr ag"
  by (induction rs) (auto simp: silent_step)

lemma infer_silent:
  assumes "\<forall>r \<in> set xs \<union> set zs. silent v p t r"
  shows "infer_with (xs @ ys @ zs) v p t = infer_with ys v p t"
proof -
  have "rfold (rule_step v p t) ag (xs @ ys @ zs) = rfold (rule_step v p t) ag ys" for ag
    using rfold_silent [of xs v p t] rfold_silent [of zs v p t] assms
    by (cases "rfold (rule_step v p t) ag ys") (simp_all add: rfold_append)
  then show ?thesis by (simp add: infer_with_def)
qed

lemma pymin_zero: "in_range 0 1 x \<Longrightarrow> in_range 0 1 y \<Longrightarrow> x = Fin 0 \<or> y = Fin 0 \<Longrightarrow> pymin x y = Fin 0"
  by (auto simp: pymin_def elim!: in_rangeE)

lemma silentI:
  assumes "r \<in> set RULES" and "v \<noteq> NaN" and "p \<noteq> NaN" and "t \<noteq> NaN"
    and "fst r t = Inr (Fin 0) \<or> fst (snd r) v = Inr (Fin 0) \<or> fst (snd (snd r)) p = Inr (Fin 0)"
  shows "silent v p t r"
proof -
  obtain tr vbe pd lbl where r: "r = (tr, vbe, pd, lbl)" by (cases r)
  from RULES_members [OF assms(1) [unfolded r]] mf_unit [OF assms(2)] mf_unit [OF assms(3)]
    mf_unit [OF assms(4)]
  have "is_unit (tr t)" "is_unit (vbe v)" "is_unit (pd p)" by auto
  then obtain x y z where xyz: "tr t = Inr x" "vbe v = Inr y" "pd p = Inr z"
    "in_range 0 1 x" "in_range 0 1 y" "in_range 0 1 z" by (auto simp: is_unit_def)
  have "x = Fin 0 \<or> y = Fin 0 \<or> z = Fin 0" using assms(5) xyz by (auto simp: r)
  then have "pymin (pymin x y) z = Fin 0"
    using pymin_zero [OF xyz(4,5)] pymin_zero [OF pymin_in_range [OF xyz(4,5)] xyz(6)] by auto
  then show ?thesis using xyz by (simp add: silent_def rule_strength_def r)
qed

lemma RULES_tiers:
  "RULES = take 9 RULES @ take 9 (drop 9 RULES) @ drop 18 RULES"
  "\<forall>r \<in> set (take 9 RULES). fst r = tr_untrusted"
  "\<forall>r \<in> set (take 9 (drop 9 RULES)). fst r = tr_degraded"
  "\<forall>r \<in> set (drop 18 RULES). fst r = tr_trusted"
  by (simp_all add: RULES_def)

lemma tiers_subset: "set (take 9 RULES) \<subseteq> set RULES" "set (take 9 (drop 9 RULES)) \<subseteq> set RULES"
  "set (drop 18 RULES) \<subseteq> set RULES"
  by (auto dest: in_set_takeD in_set_dropD)

text \<open>The trust values a session reaches: the start value and one or two steps of 0.4 below it.\<close>

definition TRUST_START :: pyfloat where "TRUST_START = fl (8 / 10)"
definition TRUST_MID :: pyfloat where "TRUST_MID = fl (4 / 10)"

lemma trust_memberships:
  "tr_untrusted TRUST_START = Inr (Fin 0)" "tr_degraded TRUST_START = Inr (Fin 0)"
  "tr_trusted TRUST_START = Inr (Fin 1)"
  "tr_untrusted TRUST_MID = Inr (Fin 0)" "tr_trusted TRUST_MID = Inr (Fin 0)"
  "tr_degraded (Fin 0) = Inr (Fin 0)" "tr_trusted (Fin 0) = Inr (Fin 0)"
  "tr_untrusted (Fin 0) = Inr (Fin 1)"
  by code_simp+

lemma trust_not_nan: "TRUST_START \<noteq> NaN" "TRUST_MID \<noteq> NaN"
  by code_simp+

lemma vbe_out_of_range:
  assumes "v \<noteq> NaN" and "fle (Fin 3) v \<or> fle v (Fin (- 3))"
  shows "vbe_low v = Inr (Fin 0)" "vbe_med v = Inr (Fin 0)" "vbe_high v = Inr (Fin 0)"
  unfolding vbe_low_def vbe_med_def vbe_high_def trimf_def trapf_def fl_consts
  using assms by (cases v; auto)+

lemma pd_out_of_range:
  assumes "p \<noteq> NaN" and "fle (Fin 150) p \<or> fle p (Fin (- 10))"
  shows "pd_low p = Inr (Fin 0)" "pd_med p = Inr (Fin 0)" "pd_high p = Inr (Fin 0)"
  unfolding pd_low_def pd_med_def pd_high_def trimf_def trapf_def
  using assms by (cases p; auto)+

lemma infer_all_silent:
  assumes "\<forall>r \<in> set rs. silent v p t r"
  shows "infer_with rs v p t = Inr (Fin 0)"
proof -
  have "foldl fadd (Fin 0) (replicate n (Fin 0)) = Fin 0" for n
    by (induction n) (simp_all add: fl_small fl_limit_def)
  then show ?thesis
    using rfold_silent [OF assms] by (simp add: infer_with_def centroid_def feq_def)
qed

section \<open>The coordinator's invariant\<close>

text \<open>
  Every setpoint is a double between 0 and 100 and the two dictionaries have the same keys. A
  client of the coordinator only needs the laws of \<open>setpoint_source\<close>.
\<close>

definition setpoint_ok :: "pyfloat \<Rightarrow> bool" where
  "setpoint_ok sp \<longleftrightarrow> in_range 0 100 sp \<and> is_double sp"

definition ems_ok :: "ems \<Rightarrow> bool" where
  "ems_ok e \<longleftrightarrow> (\<forall>sp \<in> snd ` set (setpoints e). setpoint_ok sp)
     \<and> dict_keys (last_update e) = dict_keys (setpoints e) \<and> dict_ok (setpoints e)"

lemma clamp_range [simp]: "in_range 0 100 (clamp x)"
  unfolding clamp_def MIN_SP_def MAX_SP_def by (rule clamp_in_range) simp

lemma fround_range: "in_range 0 100 x \<Longrightarrow> in_range 0 100 (fround 1 x)"
  using fround_in_range [of 0 100 x 1] by (simp add: rnd_numeral)

lemma fround_setpoint: "in_range 0 100 x \<Longrightarrow> setpoint_ok (fround 1 x)"
  unfolding setpoint_ok_def by (intro conjI fround_range is_double_fround)

lemma double_limits: "double 0" "double 50" "double 100"
  by (simp_all add: double_def fl_limit_def rnd_numeral)

lemma clamp_setpoint: "is_double x \<Longrightarrow> setpoint_ok (clamp x)"
  unfolding setpoint_ok_def
  by (intro conjI clamp_range) (simp add: clamp_def pymax_def pymin_def MIN_SP_def MAX_SP_def double_limits)

lemma ems_ok_set:
  assumes "ems_ok e" and "setpoint_ok sp"
  shows "ems_ok (e\<lparr>setpoints := dict_set node sp (setpoints e),
                   last_update := dict_set node now (last_update e)\<rparr>)"
proof -
  have "dict_keys (dict_set node now (last_update e)) = dict_keys (dict_set node sp (setpoints e))"
    using assms(1) by (simp add: ems_ok_def dict_keys_set del: set_map)
  then show ?thesis
    using assms set_values_dict_set [of node sp "setpoints e"]
    by (fastforce simp: ems_ok_def simp del: set_map)
qed

lemma keeps_update_nodes: "keeps ems_ok (update_nodes now v p rs)"
proof (induction rs)
  case (Cons x rs)
  obtain node r where x: "x = (node, r)" by (cases x)
  show ?case
    by (auto simp: x Let_def intro!: keeps_intro keeps_modify ems_ok_set clamp_setpoint Cons.IH)
qed (simp add: keeps_def)

lemma keeps_ems_update: "keeps ems_ok (ems_update now ds)"
  by (auto simp: ems_update_def Let_def split: prod.splits
      intro!: keeps_intro keeps_update_nodes)

lemma ems_ok_manual: "ems_ok e \<Longrightarrow> ems_ok (set_manual_setpoint now node sp e)"
  unfolding set_manual_setpoint_def Let_def by (intro ems_ok_set fround_setpoint clamp_range)

lemma ems_ok_new: "ems_ok new_ems"
  by (simp add: ems_ok_def new_ems_def)

lemma default_setpoint: "setpoint_ok DEFAULT_SP"
  by (simp add: setpoint_ok_def DEFAULT_SP_def double_limits)

lemma get_setpoint_ok: "ems_ok e \<Longrightarrow> get_setpoint n e = Some sp \<Longrightarrow> setpoint_ok sp"
  by (auto simp: get_setpoint_def ems_ok_def default_setpoint split: if_splits option.splits
      dest!: map_of_SomeD)

locale setpoint_source =
  fixes good :: "'e \<Rightarrow> bool" and start :: 'e and upd :: "rat \<Rightarrow> data_store \<Rightarrow> ('e, unit) py"
    and manual :: "rat \<Rightarrow> string \<Rightarrow> pyfloat \<Rightarrow> 'e \<Rightarrow> 'e" and setpoint :: "string \<Rightarrow> 'e \<Rightarrow> pyfloat option"
  assumes good_start: "good start" and keeps_upd: "keeps good (upd now ds)"
    and good_manual: "good e \<Longrightarrow> good (manual now n x e)"
    and setpoint_range: "good e \<Longrightarrow> setpoint n e = Some sp \<Longrightarrow> setpoint_ok sp"
begin

text \<open>An operation is an update (which may raise half way) or a manual override.\<close>

definition ems_step :: "rat \<times> data_store + rat \<times> string \<times> pyfloat \<Rightarrow> 'e \<Rightarrow> 'e" where
  "ems_step q e = (case q of Inl (now, ds) \<Rightarrow> snd (upd now ds e) | Inr (now, n, x) \<Rightarrow> manual now n x e)"

lemma good_run: "good (fold ems_step qs start)"
proof -
  have "good e \<Longrightarrow> good (fold ems_step qs e)" for e
    by (induction qs arbitrary: e)
      (use keeps_upd in \<open>auto simp: ems_step_def keeps_def good_manual split: sum.splits\<close>)
  then show ?thesis by (simp add: good_start)
qed

lemma setpoint_run: "setpoint n (fold ems_step qs start) = Some sp \<Longrightarrow> setpoint_ok sp"
  by (rule setpoint_range [OF good_run])

end

interpretation sp: setpoint_source ems_ok new_ems ems_update set_manual_setpoint get_setpoint
  by unfold_locales (simp_all add: ems_ok_new keeps_ems_update ems_ok_manual get_setpoint_ok)

definition ems_op :: "rat \<times> data_store + rat \<times> string \<times> pyfloat \<Rightarrow> ems \<Rightarrow> ems" where
  "ems_op q e = (case q of Inl (now, ds) \<Rightarrow> snd (ems_update now ds e)
     | Inr (now, n, x) \<Rightarrow> set_manual_setpoint now n x e)"

lemma ems_op_step: "ems_op = sp.ems_step"
  by (simp add: fun_eq_iff ems_op_def sp.ems_step_def)

section \<open>A not-a-number bus voltage\<close>

lemma py_add_nan: "py_add u v = Inr w \<Longrightarrow> u = PFloat NaN \<or> v = PFloat NaN \<Longrightarrow> w = PFloat NaN"
proof -
  assume w: "py_add u v = Inr w" and nan: "u = PFloat NaN \<or> v = PFloat NaN"
  obtain a b c where abc: "as_num u = Some a" "as_num v = Some b" "num_add a b = Inr c" "w = of_num c"
    using w by (auto simp: py_add_def num_binop_def rbind_Inr_iff split: option.splits)
  from nan abc(1,2) have ab: "a = NFlt NaN \<or> b = NFlt NaN" by auto
  then have "float_op (\<lambda>x y. Inr (fadd x y)) a b = Inr c" using abc(3) by (cases a; cases b) auto
  moreover have "fadd NaN x = NaN" "fadd x NaN = NaN" for x by (cases x; simp)+
  ultimately have "c = NFlt NaN" using ab by (auto simp: float_op_def rbind_Inr_iff)
  then show ?thesis using abc(4) by simp
qed

lemma py_sum_nan:
  "rfold py_add acc vs = Inr w \<Longrightarrow> acc = PFloat NaN \<or> PFloat NaN \<in> set vs \<Longrightarrow> w = PFloat NaN"
  by (induction vs arbitrary: acc) (auto simp: rbind_Inr_iff dest: py_add_nan)

lemma bus_inputs_nan:
  assumes "(n, r) \<in> set d" and "map_of r ''V_bus'' = Some (PFloat NaN)" and "bus_inputs d = Inr (v, p)"
  shows "v = NaN"
proof -
  obtain total mean err where t: "py_sum (map (\<lambda>(n, r). field ''V_bus'' (PFloat V_NOMINAL) r) d) = Inr total"
    and m: "py_div total (PInt (int (length d))) = Inr mean"
    and e: "py_sub mean (PFloat V_NOMINAL) = Inr err" "fuzzy_input err = Inr v"
    using assms(3) by (auto simp: bus_inputs_def rbind_Inr_iff Let_def)
  have "field ''V_bus'' (PFloat V_NOMINAL) r = PFloat NaN" using assms(2) by (simp add: field_def)
  then have "PFloat NaN \<in> set (map (\<lambda>(n, r). field ''V_bus'' (PFloat V_NOMINAL) r) d)"
    using assms(1) by (auto intro!: rev_image_eqI)
  then have "total = PFloat NaN" using t py_sum_nan by (auto simp: py_sum_def)
  then obtain y where "float_of_int (int (length d)) = Inr y" "mean = PFloat NaN"
    using m by (auto simp: py_div_def num_binop_def num_div_def float_op_def rbind_Inr_iff
        elim!: fdiv.elims split: if_splits)
  then have "err = PFloat NaN" using e(1)
    by (auto simp: py_sub_def num_binop_def float_op_def fsub_def V_NOMINAL_def)
  then show ?thesis using e(2) by (simp add: fuzzy_input_def exact_def)
qed

lemma vbe_high_nan: "vbe_high NaN = Inl (LibRaised ZeroDivisionKind)"
  unfolding vbe_high_def by code_simp

lemma rule_step_nan:
  "rule_step NaN p t ag (tr, vbe_high, pd, lbl) = Inl e \<or> (\<exists>e. rule_step NaN p t ag (tr, vbe_high, pd, lbl) = Inl e)"
  by (cases "tr t") (simp_all add: rule_step_def rule_strength_def vbe_high_nan)

lemma fuzzy_infer_nan: "\<exists>e. fuzzy_infer NaN p t = Inl e"
proof -
  have split: "RULES = take 6 RULES @ (tr_untrusted, vbe_high, pd_low, ZERO) # drop 7 RULES"
    by (simp add: RULES_def)
  have "\<exists>e. rfold (rule_step NaN p t) ag RULES = Inl e" for ag
  proof (cases "rfold (rule_step NaN p t) ag (take 6 RULES)")
    case (Inr ag')
    obtain e where "rule_step NaN p t ag' (tr_untrusted, vbe_high, pd_low, ZERO) = Inl e"
      using rule_step_nan by blast
    then show ?thesis using Inr by (subst split) (simp add: rfold_append)
  qed (subst split, simp add: rfold_append)
  then show ?thesis by (metis fuzzy_infer_def infer_with_def rbind_simps(1))
qed

lemma update_nodes_nan: "rs \<noteq> [] \<Longrightarrow> \<exists>x. update_nodes now NaN p rs e = (Inl x, e)"
proof -
  assume "rs \<noteq> []"
  then obtain node r rest where rs: "rs = (node, r) # rest" by (cases rs) auto
  show ?thesis
  proof (cases "fuzzy_input (field ''trust_score'' (PFloat (Fin 1)) r)")
    case (Inr t)
    then show ?thesis using fuzzy_infer_nan [of p t] by (auto simp: rs)
  qed (simp add: rs)
qed

section \<open>The output of the UNTRUSTED rules\<close>

text \<open>
  Every UNTRUSTED rule has the output set ZERO, whose support below 10 W is the first twenty
  points of the universe. So the denominator stays below 20, and a rule of strength 1/4 or more puts
  weight 1/4 on the point 5 W.
\<close>

lemma rmap_nth: "rmap f xs = Inr ys \<Longrightarrow> i < length xs \<Longrightarrow> f (xs ! i) = Inr (ys ! i)"
proof (induction xs arbitrary: ys i)
  case (Cons x xs)
  then show ?case by (cases i) (auto simp: rbind_Inr_iff)
qed simp

lemma universe_nth: "i \<le> 200 \<Longrightarrow> universe ! i = fl (of_nat i * (1 / 2))"
  by (simp add: universe_def)

lemma out_zero_high: "20 \<le> i \<Longrightarrow> i \<le> 200 \<Longrightarrow> out_mf (universe ! i) ZERO = Inr (Fin 0)"
proof -
  assume i: "20 \<le> i" "i \<le> 200"
  have "rnd 10 = 10" "rnd 100 = 100" by (rule rnd_numeral, simp)+
  moreover have "(of_nat 20 :: rat) \<le> of_nat i" "(of_nat i :: rat) \<le> of_nat 200"
    using i by (simp_all only: of_nat_le_iff)
  then have "(10::rat) \<le> of_nat i * (1 / 2)" "of_nat i * (1 / 2) \<le> (100::rat)" by simp_all
  ultimately have "in_range 10 100 (universe ! i)"
    unfolding universe_nth [OF i(2)] by (intro fl_in_range) simp_all
  then show ?thesis by (auto simp: out_mf_def trimf_def elim!: in_rangeE)
qed

lemma universe_10: "universe ! 10 = Fin 5"
proof -
  have "fl 5 = Fin 5" by code_simp
  then show ?thesis using universe_nth [of 10] by simp
qed

lemma out_zero_five: "out_mf (universe ! 10) ZERO = Inr (Fin (1 / 2))"
proof -
  have "trimf (Fin 5) (Fin (- 5)) (Fin 0) (Fin 10) = Inr (Fin (1 / 2))" by code_simp
  then show ?thesis by (simp add: out_mf_def universe_10)
qed

definition zero_agg :: "pyfloat list \<Rightarrow> bool" where
  "zero_agg ag \<longleftrightarrow> agg_ok ag \<and> (\<forall>i < 201. 20 \<le> i \<longrightarrow> ag ! i = Fin 0)"

lemma zero_step:
  assumes "is_unit (rule_strength v p t r)" and "snd (snd (snd r)) = ZERO" and "zero_agg ag"
    and "rule_step v p t ag r = Inr ag'"
  shows "zero_agg ag' \<and> (fle (Fin (1 / 4)) (ag ! 10) \<longrightarrow> fle (Fin (1 / 4)) (ag' ! 10))
    \<and> (\<forall>s. rule_strength v p t r = Inr s \<longrightarrow> fle (Fin (1 / 4)) s \<longrightarrow> fle (Fin (1 / 4)) (ag' ! 10))"
proof -
  obtain s where s: "rule_strength v p t r = Inr s" "in_range 0 1 s"
    using assms(1) by (auto simp: is_unit_def)
  have ok: "agg_ok ag" "agg_ok ag'" using assms(3,4) rule_step_ok [OF assms(1), of ag]
    by (auto simp: zero_agg_def)
  show ?thesis
  proof (cases "fle s (Fin 0)")
    case True
    then have "ag' = ag" using assms(4) s by (simp add: rule_step_def)
    moreover have "\<not> fle (Fin (1 / 4)) s" using True s(2) by (auto elim!: in_rangeE)
    ultimately show ?thesis using assms(3) s by simp
  next
    case False
    then have m: "rmap (clip_at s ZERO) (zip universe ag) = Inr ag'"
      using assms(2,4) s by (simp add: rule_step_def)
    have nth: "clip_at s ZERO (universe ! i, ag ! i) = Inr (ag' ! i)" if "i < 201" for i
      using rmap_nth [OF m, of i] that ok(1) by (simp add: agg_ok_def)
    have high: "ag' ! i = Fin 0" if "i < 201" "20 \<le> i" for i
      using nth [OF that(1)] out_zero_high [OF that(2)] that assms(3) s(2)
      by (auto simp: clip_at_def zero_agg_def pymin_def Let_def elim!: in_rangeE split: if_splits)
    have g: "in_range 0 1 (ag ! 10)" using ok(1) by (simp add: agg_ok_def)
    have five: "ag' ! 10 = (if flt (ag ! 10) (pymin s (Fin (1 / 2))) then pymin s (Fin (1 / 2)) else ag ! 10)"
      using nth [of 10] by (simp add: clip_at_def out_zero_five Let_def)
    show ?thesis
      using ok high g s five by (auto simp: zero_agg_def pymin_def elim!: in_rangeE)
  qed
qed

lemma zero_rules:
  assumes "\<And>r. r \<in> set rs \<Longrightarrow> is_unit (rule_strength v p t r) \<and> snd (snd (snd r)) = ZERO"
    and "zero_agg ag" and "rfold (rule_step v p t) ag rs = Inr ag'"
  shows "zero_agg ag' \<and> (fle (Fin (1 / 4)) (ag ! 10) \<or>
      (\<exists>r \<in> set rs. \<exists>s. rule_strength v p t r = Inr s \<and> fle (Fin (1 / 4)) s) \<longrightarrow> fle (Fin (1 / 4)) (ag' ! 10))"
  using assms
proof (induction rs arbitrary: ag)
  case (Cons r rs)
  obtain ag1 where ag1: "rule_step v p t ag r = Inr ag1" "rfold (rule_step v p t) ag1 rs = Inr ag'"
    using Cons.prems(3) by (auto simp: rbind_Inr_iff)
  have r: "is_unit (rule_strength v p t r)" "snd (snd (snd r)) = ZERO"
    using Cons.prems(1) [of r] by simp_all
  note st = zero_step [OF r Cons.prems(2) ag1(1)]
  have "zero_agg ag1" using st by blast
  from Cons.IH [OF Cons.prems(1) this ag1(2)] st show ?case by auto
qed simp

lemma fl_ge: "rnd c = c \<Longrightarrow> 0 \<le> c \<Longrightarrow> c \<le> x \<Longrightarrow> fle (Fin c) (fl x)"
  using rnd_mono [of c x] by (auto simp: fl_def Let_def)

lemma fadd_ge:
  assumes "rnd c = c" and "0 \<le> c" and "fle (Fin c) x" and "nonneg y"
  shows "fle (Fin c) (fadd x y)" "fle (Fin c) (fadd y x)"
proof -
  have "fle (Fin c) (fl (a + b))" if "c \<le> a" "0 \<le> b" for a b
    using that assms(1,2) by (intro fl_ge) auto
  then show "fle (Fin c) (fadd x y)" "fle (Fin c) (fadd y x)"
    using assms(3,4) by (cases x; cases y; auto simp: nonneg_def add.commute)+
qed

lemma foldl_fadd_keep:
  "rnd c = c \<Longrightarrow> 0 \<le> c \<Longrightarrow> fle (Fin c) x \<Longrightarrow> \<forall>y \<in> set ys. nonneg y \<Longrightarrow> fle (Fin c) (foldl fadd x ys)"
  by (induction ys arbitrary: x) (auto intro: fadd_ge)

lemma fadd_nonneg: "nonneg x \<Longrightarrow> nonneg y \<Longrightarrow> nonneg (fadd x y)"
  using fl_nonneg by (cases x; cases y) (auto simp: nonneg_def)

lemma foldl_fadd_nonneg: "nonneg x \<Longrightarrow> \<forall>y \<in> set ys. nonneg y \<Longrightarrow> nonneg (foldl fadd x ys)"
  by (induction ys arbitrary: x) (auto intro: fadd_nonneg)

lemma foldl_fadd_ge:
  assumes "rnd c = c" "0 \<le> c" and "y \<in> set ys" and "fle (Fin c) y" and "\<forall>y \<in> set ys. nonneg y" and "nonneg x"
  shows "fle (Fin c) (foldl fadd x ys)"
proof -
  obtain as bs where ys: "ys = as @ y # bs" using assms(3) by (meson split_list)
  have "nonneg (foldl fadd x as)" using assms(5,6) ys by (intro foldl_fadd_nonneg) auto
  then have "fle (Fin c) (fadd (foldl fadd x as) y)" by (rule fadd_ge(2) [OF assms(1,2,4)])
  then show ?thesis using assms(1,2,5) ys by (auto intro: foldl_fadd_keep)
qed

lemma in_range_nonneg: "in_range 0 b x \<Longrightarrow> nonneg x"
  by (auto simp: nonneg_def elim!: in_rangeE)

lemma foldl_fadd_zeros:
  "in_range 0 20 x \<Longrightarrow> \<forall>y \<in> set ys. y = Fin 0 \<Longrightarrow> in_range 0 20 (foldl fadd x ys)"
proof (induction ys arbitrary: x)
  case (Cons y ys)
  have "rnd 20 = 20" by (rule rnd_numeral) simp
  then have "in_range 0 20 (fadd x y)" using Cons.prems by (auto elim!: in_rangeE intro!: fl_in_range)
  then show ?case using Cons by simp
qed simp

lemma fround_positive:
  assumes "fle (Fin (1 / 16)) x"
  shows "flt (Fin 0) (clamp (fround 1 x))"
proof (cases x)
  case (Fin r)
  have "rne (10 / 16) = 1" by code_simp
  moreover have "rne (10 / 16) \<le> rne (r * 10)" using assms Fin by (intro rne_mono) simp
  ultimately have "(of_int 1 :: rat) \<le> of_int (rne (r * 10))" by (simp only: of_int_le_iff)
  then have "1 / 1024 \<le> of_int (rne (r * 10)) / (10 :: rat)" by simp
  then have "fle (Fin (1 / 1024)) (fround 1 x)"
    unfolding Fin fround.simps using fl_ge [OF rnd_inverse_1024] by simp
  then show ?thesis
    by (cases "fround 1 x") (auto simp: clamp_def MIN_SP_def MAX_SP_def pymax_def pymin_def)
qed (use assms in \<open>auto simp: clamp_def MIN_SP_def MAX_SP_def pymax_def pymin_def\<close>)

lemma zero_agg_centroid:
  assumes "zero_agg ag" and "fle (Fin (1 / 4)) (ag ! 10)"
  shows "\<exists>x. centroid ag = Inr x \<and> fle (Fin (1 / 16)) x"
proof -
  have ok: "length ag = 201" "\<forall>x \<in> set ag. in_range 0 1 x" and z: "\<forall>x \<in> set (drop 20 ag). x = Fin 0"
    using assms(1) by (auto simp: zero_agg_def agg_ok_def in_set_conv_nth)
  define nums where "nums = map2 fmul universe ag"
  have "\<forall>x \<in> set nums. in_range 0 (of_nat 128) x"
    using ok universe_range fmul_range by (fastforce simp: nums_def dest: set_zip_leftD set_zip_rightD)
  moreover have ln: "length nums = 201" using ok by (simp add: nums_def)
  ultimately obtain n where n: "foldl fadd (Fin 0) nums = Fin n"
    using foldl_fadd_range [of nums 128] by (auto elim!: in_rangeE)
  have nn: "\<forall>x \<in> set nums. nonneg x" "\<forall>x \<in> set ag. nonneg x"
    using ok \<open>\<forall>x \<in> set nums. in_range 0 (of_nat 128) x\<close> in_range_nonneg by blast+
  have r: "rnd (5 / 4) = 5 / 4" "rnd (1 / 4) = 1 / 4" "rnd (1 / 16) = 1 / 16" by code_simp+
  have n10: "nums ! 10 = fmul (Fin 5) (ag ! 10)" using ok by (simp add: nums_def universe_10)
  have i10: "in_range 0 1 (ag ! 10)" using ok by simp
  then obtain g where g: "ag ! 10 = Fin g" "1 / 4 \<le> g" "g \<le> 1"
    using assms(2) by (auto elim!: in_rangeE)
  have "fle (Fin (5 / 4)) (nums ! 10)"
    using g fl_ge [OF r(1)] by (simp add: n10)
  then have n54: "5 / 4 \<le> n"
    using foldl_fadd_ge [OF r(1) _, of "nums ! 10" nums "Fin 0"] nn ln n by (simp add: nonneg_def)
  have "in_range 0 20 (foldl fadd (Fin 0) (take 20 ag))"
    using foldl_fadd_range [of "take 20 ag" 1] ok by (auto dest: in_set_takeD)
  from foldl_fadd_zeros [OF this z] have "in_range 0 20 (foldl fadd (Fin 0) ag)" by (simp flip: foldl_append)
  moreover have "fle (Fin (1 / 4)) (foldl fadd (Fin 0) ag)"
    using foldl_fadd_ge [OF r(2) _, of "ag ! 10" ag "Fin 0"] nn ok assms(2) by (simp add: nonneg_def)
  ultimately obtain d where d: "foldl fadd (Fin 0) ag = Fin d" "1 / 4 \<le> d" "d \<le> 20"
    by (auto elim!: in_rangeE)
  have "1 / 16 \<le> n / d" using n54 d by (simp add: field_simps)
  then have "fle (Fin (1 / 16)) (fl (n / d))"
    using fl_ge [OF r(3)] by simp
  then show ?thesis using n d by (auto simp: centroid_def feq_def nums_def)
qed

section \<open>Properties\<close>

text \<open>
  C14: every setpoint the coordinator hands out, after any sequence of updates on any stores
  (some of which raise half way) and manual overrides with any float, is a finite number
  between 0 and 100 W, and a double, so that it survives the JSON text it is sent in.
\<close>

theorem setpoints_bounded:
  assumes "get_setpoint n (fold ems_op qs new_ems) = Some sp"
  shows "in_range 0 100 sp \<and> is_double sp"
  using sp.setpoint_run assms unfolding ems_op_step setpoint_ok_def by blast

lemma setpoints_bounded_witness:
  "get_setpoint ''n'' (fold ems_op [Inr (0, ''n'', Fin 40)] new_ems) = Some (Fin 40) \<and> in_range 0 100 (Fin 40)
   \<and> is_double (Fin 40)"
proof -
  have "get_setpoint ''n'' (fold ems_op [Inr (0, ''n'', Fin 40)] new_ems) = Some (Fin 40)"
    by code_simp
  with setpoints_bounded [OF this] show ?thesis by simp
qed

text \<open>
  C16: on inputs other than not-a-number the inference never raises and its centroid is never
  negative or not-a-number; with the trust a session starts with it equals the inference over the nine
  TRUSTED rules alone, one step of 0.4 below over the nine DEGRADED rules, at 0 over the nine
  UNTRUSTED rules.
\<close>

theorem inference_by_trust_tier:
  assumes "v \<noteq> NaN" and "p \<noteq> NaN"
  shows "fuzzy_infer v p TRUST_START = infer_with (drop 18 RULES) v p TRUST_START
    \<and> fuzzy_infer v p TRUST_MID = infer_with (take 9 (drop 9 RULES)) v p TRUST_MID
    \<and> fuzzy_infer v p (Fin 0) = infer_with (take 9 RULES) v p (Fin 0)
    \<and> (\<forall>t. t \<noteq> NaN \<longrightarrow> (\<exists>x. fuzzy_infer v p t = Inr x \<and> nonneg x))"
proof -
  define A where "A = take 9 RULES"
  define B where "B = take 9 (drop 9 RULES)"
  define C where "C = drop 18 RULES"
  have R: "RULES = A @ B @ C" unfolding A_def B_def C_def by (rule RULES_tiers(1))
  have sil: "\<forall>r \<in> set X. silent v p t r"
    if "set X \<subseteq> set RULES" "t \<noteq> NaN" "\<forall>r \<in> set X. fst r t = Inr (Fin 0)" for X t
    using that assms by (auto intro!: silentI)
  have A: "set A \<subseteq> set RULES" "\<forall>r \<in> set A. fst r = tr_untrusted"
    and B: "set B \<subseteq> set RULES" "\<forall>r \<in> set B. fst r = tr_degraded"
    and C: "set C \<subseteq> set RULES" "\<forall>r \<in> set C. fst r = tr_trusted"
    unfolding A_def B_def C_def using tiers_subset RULES_tiers by auto
  have 1: "fuzzy_infer v p TRUST_START = infer_with C v p TRUST_START"
    using infer_silent [of "A @ B" "[]" v p TRUST_START C] sil [OF A(1) trust_not_nan(1)]
      sil [OF B(1) trust_not_nan(1)] A B trust_memberships
    by (auto simp: fuzzy_infer_def R)
  have 2: "fuzzy_infer v p TRUST_MID = infer_with B v p TRUST_MID"
    using infer_silent [of A C v p TRUST_MID B] sil [OF A(1) trust_not_nan(2)]
      sil [OF C(1) trust_not_nan(2)] A C trust_memberships
    by (auto simp: fuzzy_infer_def R)
  have 3: "fuzzy_infer v p (Fin 0) = infer_with A v p (Fin 0)"
    using infer_silent [of "[]" "B @ C" v p "Fin 0" A] sil [OF B(1), of "Fin 0"]
      sil [OF C(1), of "Fin 0"] B C trust_memberships
    by (auto simp: fuzzy_infer_def R)
  show ?thesis using 1 2 3 infer_ok [OF subset_refl assms]
    unfolding A_def B_def C_def fuzzy_infer_def by auto
qed

lemma inference_by_trust_tier_witness:
  "fuzzy_infer (Fin 0) (Fin 30) TRUST_START = infer_with (drop 18 RULES) (Fin 0) (Fin 30) TRUST_START"
  using inference_by_trust_tier [of "Fin 0" "Fin 30"] by simp

text \<open>
  Outside the range the membership functions cover, no rule fires. A mean bus voltage 3 V
  or more off nominal, or a total demand of 150 W or more, gives every node a setpoint of 0.
\<close>

theorem out_of_coverage_zero:
  assumes "v \<noteq> NaN" and "p \<noteq> NaN" and "t \<noteq> NaN"
    and "fle (Fin 3) v \<or> fle v (Fin (- 3)) \<or> fle (Fin 150) p \<or> fle p (Fin (- 10))"
  shows "fuzzy_infer v p t = Inr (Fin 0)"
proof -
  have "silent v p t r" if r: "r \<in> set RULES" for r
  proof (rule silentI [OF r assms(1-3)])
    obtain tr vbe pd lbl where e: "r = (tr, vbe, pd, lbl)" by (cases r)
    show "fst r t = Inr (Fin 0) \<or> fst (snd r) v = Inr (Fin 0) \<or> fst (snd (snd r)) p = Inr (Fin 0)"
      using RULES_members [OF r [unfolded e]] assms vbe_out_of_range [of v] pd_out_of_range [of p]
      by (auto simp: e)
  qed
  then show ?thesis by (simp add: fuzzy_infer_def infer_all_silent)
qed

lemma out_of_coverage_zero_witness: "fuzzy_infer (Fin 5) (Fin 30) TRUST_START = Inr (Fin 0)"
  by (rule out_of_coverage_zero) (use trust_not_nan in simp_all)

text \<open>
  C31: one node can stop the coordinator. While the latest reading of any node carries a
  not-a-number \<open>V_bus\<close> (which the JSON decoder accepts), every update raises and no
  setpoint of any node changes.
\<close>

theorem nan_voltage_blocks_update:
  assumes "(n, r) \<in> set (latest s)" and "map_of r ''V_bus'' = Some (PFloat NaN)"
  shows "\<exists>x. ems_update now s e = (Inl x, e)"
proof (cases "bus_inputs (latest s)")
  case (Inl x)
  then show ?thesis using assms(1) by (auto simp: ems_update_def get_all_latest_def Let_def)
next
  case (Inr vp)
  obtain v p where vp: "vp = (v, p)" by (cases vp)
  have "v = NaN" by (rule bus_inputs_nan [OF assms Inr [unfolded vp]])
  then show ?thesis
    using assms(1) Inr vp update_nodes_nan [of "latest s" now p e]
    by (auto simp: ems_update_def get_all_latest_def Let_def)
qed

lemma nan_voltage_blocks_update_witness:
  "\<exists>x. ems_update 1 (store_record 0 ''n'' [(''V_bus'', PFloat NaN)] (new_store 3)) new_ems = (Inl x, new_ems)"
  by (rule nan_voltage_blocks_update [of "''n''" "[(''V_bus'', PFloat NaN), (''server_ts'', PFloat (fl 0))]"])
    (simp_all add: store_record_def new_store_def dict_setdefault_def Let_def)

end
