(* ===== verification/Node_Session.thy ===== *)
theory Node_Session
  imports Tlv Protocol Ems
begin

text \<open>
  \<open>NodeSession\<close> of \<open>smg_primary_server/auth_service.py\<close>: the responder side of one
  connection, phases P2 to P5 with the trust score. The state extends the surroundings \<open>io\<close>
  with the object's attributes; the data store and the coordinator it shares with the other
  sessions are fields, and a handler runs without interference on them. Every method is a
  definition of its own. Parameters: \<open>L\<close>, the cryptography package, and \<open>lib\<close>, the text
  of the library's exceptions. Logging is left out.
\<close>

section \<open>State\<close>

text \<open>A registry entry \<open>{"node_salt": hex, "label": str}\<close>, either key possibly missing.\<close>

record node_entry =
  entry_salt :: "string option"
  entry_label :: "string option"

datatype trust_event = SecurityError | SensorAnomaly | SensorOk

record chain_entry =
  ce_index :: nat
  ce_M_num :: int
  ce_TS :: int
  ce_REG_bl :: string
  ce_node :: string

record metrics =
  p2_us :: int
  p3_us :: int
  p4_count :: int
  p4_total_us :: int
  p5_us :: int
  errs :: "string list"
  trust_events :: "(trust_event \<times> pyfloat \<times> int) list"

record node_session = io +
  registry :: "(string, node_entry) pydict"
  server_id :: bytes
  server_key :: bytes
  data_st :: data_store
  coord :: ems
  ShS_AB :: "bytes option"
  PRV_bl :: "bytes option"
  SES_id :: "bytes option"
  SES_key :: "bytes option"
  session_active :: bool
  M_num_expected :: int
  audit_chain :: "chain_entry list"
  peer_id :: "bytes option"
  node_label :: string
  p3_pending :: "(string \<times> bytes) list"
  trust_score :: pyfloat
  consecutive_anomalies :: nat
  metr :: metrics

type_synonym 'a handler = "(node_session, 'a) py"
type_synonym lib_text = "exc_kind \<Rightarrow> string"

definition TRUST_DROP_THRESHOLD :: pyfloat where "TRUST_DROP_THRESHOLD = fl (30 / 100)"
definition V_BUS_ANOMALY_THRESHOLD :: pyfloat where "V_BUS_ANOMALY_THRESHOLD = fl (8 / 10)"
definition V_BUS_ANOMALY_WINDOW :: nat where "V_BUS_ANOMALY_WINDOW = 5"

definition no_metrics :: metrics where
  "no_metrics = \<lparr>p2_us = 0, p3_us = 0, p4_count = 0, p4_total_us = 0, p5_us = 0, errs = [], trust_events = []\<rparr>"

definition new_session ::
  "io \<Rightarrow> (string, node_entry) pydict \<Rightarrow> bytes \<Rightarrow> bytes \<Rightarrow> data_store \<Rightarrow> ems \<Rightarrow> node_session" where
  "new_session conn reg sid skey dst em = io.extend conn
     \<lparr>registry = reg, server_id = sid, server_key = skey, data_st = dst, coord = em,
      ShS_AB = None, PRV_bl = None, SES_id = None, SES_key = None, session_active = False,
      M_num_expected = 0, audit_chain = [], peer_id = None, node_label = ''unknown'', p3_pending = [],
      trust_score = Fin 0, consecutive_anomalies = 0, metr = no_metrics\<rparr>"

text \<open>An attribute that is still \<open>None\<close> makes the join or the cipher raise \<open>TypeError\<close>.\<close>

definition need :: "bytes option \<Rightarrow> exc + bytes" where
  "need x = (case x of None \<Rightarrow> Inl type_error | Some b \<Rightarrow> Inr b)"

abbreviation runtime_error :: "string \<Rightarrow> exc" where
  "runtime_error m \<equiv> Raised RuntimeKind m"

section \<open>Helpers and trust\<close>

definition send_error :: "string \<Rightarrow> unit handler" where
  "send_error message = try_except (send_msg [(''type'', PStr ''error''), (''error'', PStr message)])
     (\<lambda>e. if is_exception e then ret () else raise e)"

definition add_error :: "string \<Rightarrow> node_session \<Rightarrow> node_session" where
  "add_error m s = s\<lparr>metr := (metr s)\<lparr>errs := errs (metr s) @ [m]\<rparr>\<rparr>"

definition note_trust :: "trust_event \<Rightarrow> node_session \<Rightarrow> node_session" where
  "note_trust ev s = s\<lparr>metr := (metr s)\<lparr>trust_events :=
     trust_events (metr s) @ [(ev, trust_score s, p4_count (metr s))]\<rparr>\<rparr>"

definition update_trust :: "trust_event \<Rightarrow> node_session \<Rightarrow> node_session" where
  "update_trust event s = (case event of
     SecurityError \<Rightarrow>
       note_trust event (s\<lparr>trust_score := pymax (Fin 0) (fsub (trust_score s) (fl (30 / 100)))\<rparr>)
   | SensorAnomaly \<Rightarrow>
       let s = s\<lparr>consecutive_anomalies := consecutive_anomalies s + 1\<rparr> in
       if V_BUS_ANOMALY_WINDOW \<le> consecutive_anomalies s
       then note_trust event (s\<lparr>trust_score := pymax (Fin 0) (fsub (trust_score s) (fl (40 / 100))),
                                consecutive_anomalies := 0\<rparr>)
       else s
   | SensorOk \<Rightarrow> s\<lparr>consecutive_anomalies := 0\<rparr>)"

definition get_trust_score :: "node_session \<Rightarrow> pyfloat" where
  "get_trust_score s = trust_score s"

definition drop_connection :: "unit handler" where
  "drop_connection = seq (modify (\<lambda>s. s\<lparr>session_active := False\<rparr>)) sock_close"

section \<open>P2: root of trust\<close>

definition p2_body :: "pyval \<Rightarrow> int \<Rightarrow> bool handler" where
  "p2_body msg t0 =
     bnd (lift (get_item ''ID_A'' msg)) (\<lambda>ID_A.
     bnd (lift (get_item ''ShS_A'' msg)) (\<lambda>ShS_A.
     bnd (lift (get_item ''A_GEN_bl'' msg)) (\<lambda>A_GEN_bl.
     bnd (lift (as_bytes ID_A)) (\<lambda>id_a.
     let node_id_hex = hexlify id_a in
     bnd (gets (\<lambda>s. map_of (registry s) node_id_hex)) (\<lambda>entry. case entry of
       None \<Rightarrow> seq (send_error (''Unknown node ID: '' @ node_id_hex)) (ret False)
     | Some en \<Rightarrow>
         seq (modify (\<lambda>s. s\<lparr>peer_id := Some id_a, node_label :=
           (case entry_label en of None \<Rightarrow> take 8 node_id_hex | Some l \<Rightarrow> l)\<rparr>))
         (bnd (lift (case entry_salt en of None \<Rightarrow> Inl (key_error ''node_salt'')
                     | Some h \<Rightarrow> unhexlify h)) (\<lambda>node_salt.
          bnd (gets server_key) (\<lambda>skey.
          bnd (lift (hkdf node_salt skey [] DIGEST_SIZE)) (\<lambda>ShS_B.
          bnd (gets server_id) (\<lambda>sid.
          let B_GEN_bl = h_sha256 (concat_b [node_salt, sid]) in
          bnd (lift (as_bytes ShS_A)) (\<lambda>shs_a.
          seq (modify (\<lambda>s. s\<lparr>ShS_AB := Some (h_sha256 (concat_b [shs_a, ShS_B]))\<rparr>))
          (bnd (lift (as_bytes A_GEN_bl)) (\<lambda>a_gen.
          let GEN_bl = h_sha256 (concat_b [a_gen, B_GEN_bl]) in
          seq (modify (\<lambda>s. s\<lparr>PRV_bl := Some GEN_bl\<rparr>))
          (seq (send_msg [(''type'', PStr ''rot_ack''), (''ShS_B'', PBytes ShS_B),
                          (''B_GEN_bl'', PBytes B_GEN_bl), (''ID_B'', PBytes sid)])
          (bnd perf_counter_ns (\<lambda>t1.
          seq (modify (\<lambda>s. s\<lparr>metr := (metr s)\<lparr>p2_us := (t1 - t0) div 1000\<rparr>\<rparr>))
          (ret True)))))))))))))))))"

definition phase_failed :: "string \<Rightarrow> string \<Rightarrow> lib_text \<Rightarrow> exc \<Rightarrow> bool handler" where
  \<comment> \<open>the \<open>except Exception\<close> clause that P2 and P3 share\<close>
  "phase_failed tag reply lib e =
     (if is_exception e
      then seq (modify (add_error (tag @ exc_str lib e)))
           (seq (send_error (reply @ exc_str lib e)) (ret False))
      else raise e)"

definition run_p2 :: "lib_text \<Rightarrow> pyval \<Rightarrow> bool handler" where
  "run_p2 lib msg = bnd perf_counter_ns (\<lambda>t0.
     try_except (p2_body msg t0) (phase_failed ''P2: '' ''P2 failed: '' lib))"

section \<open>P3: session establishment\<close>

text \<open>
  \<open>p3_check\<close> decrypts \<open>ses_init\<close> and compares the block in it with the one computed from
  the genesis block; it gives the client's nonce, the register and the block.
\<close>

definition p3_check ::
  "cryptolib \<Rightarrow> pyval \<Rightarrow> bytes option \<Rightarrow> bytes option \<Rightarrow> bytes option \<Rightarrow> bytes
   \<Rightarrow> exc + bytes \<times> bytes \<times> bytes \<times> bytes" where
  "p3_check L msg shs prv peer sid =
     rbind (get_item ''INIT_cif'' msg) (\<lambda>c. rbind (as_bytes c) (\<lambda>INIT_cif.
     rbind (need shs) (\<lambda>k.
     rbind (decrypt_gcm L INIT_cif k) (\<lambda>plain.
     let PREINIT_bl_rx = take DIGEST_SIZE plain;
         RDN1 = slice DIGEST_SIZE (DIGEST_SIZE + ID_SIZE) plain in
     rbind (need peer) (\<lambda>pid.
     let INIT_reg = concat_b [RDN1, drop (DIGEST_SIZE + ID_SIZE) plain, pid, sid, k];
         A_INIT_bl = h_sha256 INIT_reg in
     rbind (need prv) (\<lambda>p.
     let PREINIT_bl = h_sha256 (concat_b [p, A_INIT_bl]) in
     if PREINIT_bl \<noteq> PREINIT_bl_rx then Inl (runtime_error ''PREINIT_bl verification failed'')
     else Inr (RDN1, INIT_reg, PREINIT_bl, PREINIT_bl_rx)))))))"

definition p3_conf ::
  "cryptolib \<Rightarrow> bytes \<Rightarrow> bytes \<Rightarrow> bytes \<Rightarrow> bytes \<Rightarrow> pyval \<Rightarrow> exc + unit" where
  \<comment> \<open>the checks on the \<open>ses_conf\<close> message\<close>
  "p3_conf L ses_key ses_id RDN1 RDN2 conf_msg =
     rbind (get_or ''type'' PNone conf_msg) (\<lambda>ty.
     if ty = PStr ''error'' then
       rbind (rbind (get_or ''error'' (PStr ''?'') conf_msg) as_str) (\<lambda>t.
       Inl (runtime_error (''Client P3 error: '' @ t)))
     else if ty \<noteq> PStr ''ses_conf'' then
       rbind (rbind (get_or ''type'' (PStr ''?'') conf_msg) as_str) (\<lambda>t.
       Inl (runtime_error (''Expected ses_conf, got: '' @ t)))
     else
       rbind (rbind (get_item ''CONF_cif'' conf_msg) as_bytes) (\<lambda>CONF_cif.
       rbind (decrypt_gcm L CONF_cif ses_key) (\<lambda>conf_tag_rx.
       let conf_expected = h_sha256 (concat_b [ses_key, ses_id, RDN1, RDN2]) in
       if conf_tag_rx \<noteq> conf_expected then Inl (runtime_error ''conf_tag mismatch'') else Inr ())))"

text \<open>The session parameters, drawn, stored as pending and sent encrypted.\<close>

definition p3_reply ::
  "cryptolib \<Rightarrow> bytes \<Rightarrow> bytes \<Rightarrow> bytes \<Rightarrow> bytes \<Rightarrow> (bytes \<times> bytes \<times> bytes) handler" where
  "p3_reply L RDN1 INIT_reg PREINIT_bl PREINIT_bl_rx =
     bnd (urandom ID_SIZE) (\<lambda>ses_id.
     bnd (urandom ID_SIZE) (\<lambda>RDN2.
     bnd (getr (\<lambda>s. need (ShS_AB s))) (\<lambda>shs.
     let ses_key = h_sha256 (concat_b [RDN2, shs]) in
     bnd (encrypt_gcm L (concat_b [ses_id, RDN2, RDN1, PREINIT_bl_rx]) shs) (\<lambda>SES_cif.
     seq (modify (\<lambda>s. s\<lparr>p3_pending :=
        [(''SES_id'', ses_id), (''RDN2'', RDN2), (''SES_key'', ses_key),
         (''PREINIT_bl'', PREINIT_bl), (''INIT_reg'', INIT_reg), (''RDN1_rx'', RDN1)]\<rparr>))
     (seq (send_msg [(''type'', PStr ''ses_reply''), (''SES_cif'', PBytes SES_cif)])
     (ret (ses_id, RDN2, ses_key)))))))"

definition p3_finish ::
  "cryptolib \<Rightarrow> bytes \<Rightarrow> bytes \<Rightarrow> bytes \<Rightarrow> bytes \<Rightarrow> bytes \<Rightarrow> int \<Rightarrow> bool handler" where
  "p3_finish L RDN1 PREINIT_bl ses_id RDN2 ses_key t0 =
     bnd recv_msg (\<lambda>conf_msg.
     bnd (lift (p3_conf L ses_key ses_id RDN1 RDN2 conf_msg)) (\<lambda>_.
     bnd (getr (\<lambda>s. need (PRV_bl s))) (\<lambda>prv.
     let INIT_bl = h_sha256 (concat_b [prv, ses_id, PREINIT_bl]) in
     seq (modify (\<lambda>s. s\<lparr>PRV_bl := Some INIT_bl, SES_id := Some ses_id, SES_key := Some ses_key,
                        session_active := True, M_num_expected := 0\<rparr>))
     (seq (send_msg [(''type'', PStr ''ses_conf_ack''), (''SES_id'', PBytes ses_id)])
     (seq (modify (\<lambda>s. s\<lparr>trust_score := fl (8 / 10), consecutive_anomalies := 0\<rparr>))
     (bnd perf_counter_ns (\<lambda>t1.
     seq (modify (\<lambda>s. s\<lparr>metr := (metr s)\<lparr>p3_us := (t1 - t0) div 1000\<rparr>\<rparr>))
     (ret True))))))))"

definition p3_body :: "cryptolib \<Rightarrow> pyval \<Rightarrow> int \<Rightarrow> bool handler" where
  "p3_body L msg t0 =
     bnd (getr (\<lambda>s. p3_check L msg (ShS_AB s) (PRV_bl s) (peer_id s) (server_id s)))
       (\<lambda>(RDN1, INIT_reg, PREINIT_bl, PREINIT_bl_rx).
     bnd (p3_reply L RDN1 INIT_reg PREINIT_bl PREINIT_bl_rx) (\<lambda>(ses_id, RDN2, ses_key).
     p3_finish L RDN1 PREINIT_bl ses_id RDN2 ses_key t0))"

definition run_p3 :: "cryptolib \<Rightarrow> lib_text \<Rightarrow> pyval \<Rightarrow> bool handler" where
  "run_p3 L lib msg = bnd perf_counter_ns (\<lambda>t0.
     try_except (p3_body L msg t0) (phase_failed ''P3: '' ''P3 failed: '' lib))"

section \<open>P4: data exchange\<close>

text \<open>What a verified \<open>dx_msg\<close> yields: the sensor register, the time stamp, the message
  number, the server's contribution and the new head of the chain.\<close>

type_synonym p4_accept = "bytes \<times> int \<times> int \<times> bytes \<times> bytes"

definition p4_verify ::
  "cryptolib \<Rightarrow> pyval \<Rightarrow> bytes \<Rightarrow> bytes option \<Rightarrow> bytes option \<Rightarrow> bytes option \<Rightarrow> exc + p4_accept" where
  "p4_verify L msg sid prv ses_id ses_key =
     rbind (rbind (get_item ''MSG_cif'' msg) as_bytes) (\<lambda>MSG_cif.
     rbind (need ses_key) (\<lambda>key.
     rbind (decrypt_gcm L MSG_cif key) (\<lambda>MSG_reg_bytes.
     case parse_tlv MSG_reg_bytes 6 of
       Some [SMG_reg_rx, TS_b, m_b, ID_A, PREG_bl_rx, A_REG_bl] \<Rightarrow>
         rbind (struct_unpack 4 m_b) (\<lambda>M_num.
         rbind (struct_unpack 8 TS_b) (\<lambda>TS_int.
         rbind (need ses_id) (\<lambda>sesid.
         rbind (make_reg_reg SMG_reg_rx TS_b M_num ID_A sid sesid) (\<lambda>REG_reg.
         let PRE_REG_bl = h_sha256 REG_reg in
         rbind (need prv) (\<lambda>p.
         let PREG_bl = h_sha256 (concat_b [p, PRE_REG_bl]) in
         if PREG_bl \<noteq> PREG_bl_rx then Inl (runtime_error (''PREG_bl mismatch at M#'' @ int_str M_num))
         else let B_REG_bl = h_sha256 (concat_b [PREG_bl, key]);
                  REG_bl = h_sha256 (concat_b [A_REG_bl, B_REG_bl])
              in Inr (SMG_reg_rx, TS_int, M_num, B_REG_bl, REG_bl))))))
     | _ \<Rightarrow> Inl (runtime_error ''MSG_reg malformed''))))"

definition advance_chain :: "int \<Rightarrow> int \<Rightarrow> bytes \<Rightarrow> node_session \<Rightarrow> node_session" where
  "advance_chain M_num TS_int REG_bl s = s\<lparr>PRV_bl := Some REG_bl, M_num_expected := M_num + 1,
     audit_chain := audit_chain s @ [\<lparr>ce_index = length (audit_chain s) + 1, ce_M_num = M_num,
       ce_TS = TS_int, ce_REG_bl = hexlify REG_bl, ce_node = node_label s\<rparr>]\<rparr>"

definition parse_sensor :: "string \<Rightarrow> int \<Rightarrow> bytes \<Rightarrow> exc + pyval" where
  "parse_sensor label M_num SMG_reg =
     rbind (struct_unpack 4 (take 4 SMG_reg)) (\<lambda>header_len.
     let raw_json = slice 4 (4 + nat header_len) SMG_reg in
     rbind (utf8_decode raw_json) (\<lambda>text.
     rbind (loads text) (\<lambda>data.
     rbind (set_item ''node'' (PStr label) data) (\<lambda>data.
     set_item ''M_num'' (PInt M_num) data))))"

definition check_anomaly :: "pyval \<Rightarrow> unit handler" where
  "check_anomaly data =
     bnd (getr (\<lambda>s. get_median_v_bus (Some (node_label s)) (data_st s))) (\<lambda>median_v. case median_v of
       None \<Rightarrow> ret ()
     | Some m \<Rightarrow>
         bnd (lift (get_or ''V_bus'' (PFloat m) data)) (\<lambda>v_reported.
         bnd (lift (rbind (py_sub v_reported (PFloat m)) py_abs)) (\<lambda>dev.
         bnd (lift (py_lt (PFloat V_BUS_ANOMALY_THRESHOLD) dev)) (\<lambda>far.
         modify (update_trust (if far then SensorAnomaly else SensorOk))))))"

text \<open>\<open>data_store.record\<close> calls \<open>setdefault\<close> on the reading, which only a dict has.\<close>

definition record_reading :: "pyval \<Rightarrow> unit handler" where
  "record_reading data =
     bnd time_time (\<lambda>now. case data of
       PDict r \<Rightarrow> modify (\<lambda>s. s\<lparr>data_st := store_record now (node_label s) r (data_st s)\<rparr>)
     | _ \<Rightarrow> raise attribute_error)"

definition sensor_body :: "int \<Rightarrow> bytes \<Rightarrow> unit handler" where
  "sensor_body M_num SMG_reg =
     bnd (getr (\<lambda>s. parse_sensor (node_label s) M_num SMG_reg)) (\<lambda>data.
     seq (check_anomaly data)
     (bnd (getr (\<lambda>s. set_item ''trust_score'' (PFloat (trust_score s)) data)) record_reading))"

definition handle_sensor :: "int \<Rightarrow> bytes \<Rightarrow> unit handler" where
  "handle_sensor M_num SMG_reg = try_except (sensor_body M_num SMG_reg)
     (\<lambda>e. if is_exception e then ret () else raise e)"

definition p4_reply :: "cryptolib \<Rightarrow> int \<Rightarrow> bytes \<Rightarrow> unit handler" where
  "p4_reply L M_num B_REG_bl =
     bnd (getr (\<lambda>s. need (SES_key s))) (\<lambda>key.
     bnd (encrypt_gcm L B_REG_bl key) (\<lambda>RES_cif.
     seq (send_msg [(''type'', PStr ''dx_res''), (''RES_cif'', PBytes RES_cif), (''M_num'', PInt M_num)])
     (bnd (gets (\<lambda>s. get_setpoint (node_label s) (coord s))) (\<lambda>setpoint. case setpoint of
        None \<Rightarrow> ret ()
      | Some sp \<Rightarrow> send_msg [(''type'', PStr ''setpoint''), (''data'', PDict [(''p_demand'', PFloat sp)])]))))"

definition p4_body :: "cryptolib \<Rightarrow> pyval \<Rightarrow> int \<Rightarrow> unit handler" where
  "p4_body L msg t0 =
     bnd (getr (\<lambda>s. p4_verify L msg (server_id s) (PRV_bl s) (SES_id s) (SES_key s)))
       (\<lambda>(SMG_reg, TS_int, M_num, B_REG_bl, REG_bl).
     seq (modify (advance_chain M_num TS_int REG_bl))
     (seq (handle_sensor M_num SMG_reg)
     (seq (p4_reply L M_num B_REG_bl)
     (bnd (gets (\<lambda>s. flt (trust_score s) TRUST_DROP_THRESHOLD)) (\<lambda>low.
     seq (if low then drop_connection else ret ())
     (bnd perf_counter_ns (\<lambda>t1.
     modify (\<lambda>s. s\<lparr>metr := (metr s)\<lparr>p4_count := p4_count (metr s) + 1,
        p4_total_us := p4_total_us (metr s) + (t1 - t0) div 1000\<rparr>\<rparr>))))))))"

definition p4_failed :: "lib_text \<Rightarrow> exc \<Rightarrow> unit handler" where
  "p4_failed lib e =
     (if is_exception e
      then seq (modify (update_trust SecurityError))
        (seq (modify (add_error (''P4: '' @ exc_str lib e)))
        (seq (send_error (''P4 failed: '' @ exc_str lib e))
        (bnd (gets (\<lambda>s. flt (trust_score s) TRUST_DROP_THRESHOLD)) (\<lambda>low.
         if low then drop_connection else modify (\<lambda>s. s\<lparr>session_active := False\<rparr>)))))
      else raise e)"

definition handle_p4 :: "cryptolib \<Rightarrow> lib_text \<Rightarrow> pyval \<Rightarrow> unit handler" where
  "handle_p4 L lib msg = bnd perf_counter_ns (\<lambda>t0. try_except (p4_body L msg t0) (p4_failed lib))"

section \<open>P5: logout\<close>

definition p5_verify ::
  "cryptolib \<Rightarrow> pyval \<Rightarrow> bytes option \<Rightarrow> bytes option \<Rightarrow> exc + bytes" where
  \<comment> \<open>the checks on \<open>logout_req\<close>; gives the verified closing block of the node\<close>
  "p5_verify L msg ses_id ses_key =
     rbind (rbind (get_item ''A_END_cif'' msg) as_bytes) (\<lambda>A_END_cif.
     rbind (need ses_key) (\<lambda>key.
     rbind (decrypt_gcm L A_END_cif key) (\<lambda>plain.
     case parse_tlv plain 2 of
       Some [END_reg_rx, A_END_bl_rx] \<Rightarrow>
         (case parse_tlv END_reg_rx 4 of
            Some [ts, sid, ID_A_rx, idb] \<Rightarrow>
              rbind (need ses_id) (\<lambda>sesid.
              let expected_a_end = h_sha256 (concat_b [END_reg_rx, sesid, ID_A_rx]) in
              if expected_a_end \<noteq> A_END_bl_rx
              then Inl (runtime_error ''P5: A_END_bl verification failed'')
              else Inr A_END_bl_rx)
          | _ \<Rightarrow> Inl (runtime_error ''P5: END_reg malformed''))
     | _ \<Rightarrow> Inl (runtime_error ''P5: logout payload malformed''))))"

definition p5_body :: "cryptolib \<Rightarrow> pyval \<Rightarrow> int \<Rightarrow> unit handler" where
  "p5_body L msg t0 =
     bnd (getr (\<lambda>s. p5_verify L msg (SES_id s) (SES_key s))) (\<lambda>A_END_bl_rx.
     bnd (getr (\<lambda>s. need (PRV_bl s))) (\<lambda>prv.
     bnd (getr (\<lambda>s. need (SES_key s))) (\<lambda>key.
     let PRE_END_bl = h_sha256 (concat_b [prv, A_END_bl_rx]);
         B_END_bl = h_sha256 (concat_b [PRE_END_bl, key]) in
     bnd (encrypt_gcm L B_END_bl key) (\<lambda>B_END_cif.
     seq (send_msg [(''type'', PStr ''logout_res''), (''B_END_cif'', PBytes B_END_cif)])
     (seq (modify (\<lambda>s. s\<lparr>session_active := False\<rparr>))
     (bnd perf_counter_ns (\<lambda>t1.
      modify (\<lambda>s. s\<lparr>metr := (metr s)\<lparr>p5_us := (t1 - t0) div 1000\<rparr>\<rparr>))))))))"

definition p5_failed :: "lib_text \<Rightarrow> exc \<Rightarrow> unit handler" where
  "p5_failed lib e =
     (if is_exception e
      then modify (\<lambda>s. (add_error (''P5: '' @ exc_str lib e) s)\<lparr>session_active := False\<rparr>)
      else raise e)"

definition handle_p5 :: "cryptolib \<Rightarrow> lib_text \<Rightarrow> pyval \<Rightarrow> unit handler" where
  "handle_p5 L lib msg = bnd perf_counter_ns (\<lambda>t0. try_except (p5_body L msg t0) (p5_failed lib))"

section \<open>The session runner\<close>

lemma keeps_send_error [keeps_intro]:
  "(\<And>s x y. P s \<Longrightarrow> P (s\<lparr>tx := x, tx_left := y\<rparr>)) \<Longrightarrow> keeps P (send_error m)"
  unfolding send_error_def by (intro keeps_intro)

lemma keeps_dict_case [keeps_intro]:
  "(\<And>r. keeps P (f r)) \<Longrightarrow> keeps P m \<Longrightarrow> keeps P (case v of PDict r \<Rightarrow> f r | _ \<Rightarrow> m)"
  by (cases v) auto

lemmas p4_parts = handle_p4_def p4_body_def p4_failed_def p4_reply_def handle_sensor_def
  sensor_body_def check_anomaly_def record_reading_def drop_connection_def split_def Let_def

lemmas p5_parts = handle_p5_def p5_body_def p5_failed_def split_def Let_def

lemmas state_updates = update_trust_def note_trust_def add_error_def advance_chain_def Let_def

text \<open>No handler touches what is still to be received, so each turn of the loop shortens it.\<close>

lemma keeps_rx_p4: "keeps (\<lambda>s. rx s = c) (handle_p4 L lib msg)"
  unfolding p4_parts
  by (intro keeps_intro keeps_modify) (simp_all add: state_updates split: trust_event.splits)

lemma keeps_rx_p5: "keeps (\<lambda>s. rx s = c) (handle_p5 L lib msg)"
  unfolding p5_parts by (intro keeps_intro keeps_modify) (simp_all add: state_updates)

text \<open>One turn of \<open>_run_data_loop\<close>; true stands for \<open>break\<close>.\<close>

definition loop_turn :: "cryptolib \<Rightarrow> lib_text \<Rightarrow> bool handler" where
  "loop_turn L lib =
     bnd recv_msg (\<lambda>msg.
     bnd (lift (get_or ''type'' PNone msg)) (\<lambda>msg_type.
     if msg_type = PStr ''dx_msg'' then seq (handle_p4 L lib msg) (ret False)
     else if msg_type = PStr ''logout_req'' then seq (handle_p5 L lib msg) (ret True)
     else ret False))"

lemma loop_turn_takes:
  assumes "loop_turn L lib s = (Inr b, t)"
  shows "length (avail t) < length (avail s)"
proof -
  obtain m u where r: "recv_msg s = (Inr m, u)" and
    k: "bnd (lift (get_or ''type'' PNone m)) (\<lambda>ty.
      if ty = PStr ''dx_msg'' then seq (handle_p4 L lib m) (ret False)
      else if ty = PStr ''logout_req'' then seq (handle_p5 L lib m) (ret True) else ret False) u = (Inr b, t)"
    (is "?k u = _")
    using assms unfolding loop_turn_def bnd_eq_Inr_iff by blast
  have "keeps (\<lambda>s. rx s = rx u) ?k" by (intro keeps_intro keeps_rx_p4 keeps_rx_p5)
  from keepsD [OF this refl k] show ?thesis using msg.recv_takes [OF r] by simp
qed

function run_data_loop :: "cryptolib \<Rightarrow> lib_text \<Rightarrow> unit handler" where
  "run_data_loop L lib s =
     (if session_active s then
        (case loop_turn L lib s of
           (Inl e, t) \<Rightarrow> if is_timeout_error e then (Inr (), t) else (Inl e, t)
         | (Inr stop, t) \<Rightarrow> if stop then (Inr (), t) else run_data_loop L lib t)
      else (Inr (), s))"
  by pat_completeness auto
termination
  by (relation "measure (\<lambda>(L, lib, s). length (avail s))") (auto dest: loop_turn_takes [OF sym])

declare run_data_loop.simps [simp del]

definition run_body :: "cryptolib \<Rightarrow> lib_text \<Rightarrow> unit handler" where
  "run_body L lib =
     bnd recv_msg (\<lambda>msg.
     bnd (lift (get_or ''type'' PNone msg)) (\<lambda>ty.
     if ty \<noteq> PStr ''rot_hello'' then
       bnd (lift (rbind (get_or ''type'' (PStr ''?'') msg) as_str)) (\<lambda>t.
       send_error (''Expected rot_hello, got: '' @ t))
     else bnd (run_p2 lib msg) (\<lambda>ok.
       if \<not> ok then ret () else
       bnd recv_msg (\<lambda>msg.
       bnd (lift (get_or ''type'' PNone msg)) (\<lambda>ty.
       if ty \<noteq> PStr ''ses_init'' then
         bnd (lift (rbind (get_or ''type'' (PStr ''?'') msg) as_str)) (\<lambda>t.
         send_error (''Expected ses_init, got: '' @ t))
       else bnd (run_p3 L lib msg) (\<lambda>ok.
         if \<not> ok then ret () else run_data_loop L lib))))))"

definition run_session :: "cryptolib \<Rightarrow> lib_text \<Rightarrow> unit handler" where
  "run_session L lib = try_except (run_body L lib)
     (\<lambda>e. if is_connection_error e then ret ()
          else if is_exception e then modify (add_error (exc_str lib e)) else raise e)"

text \<open>\<open>get_metrics\<close>: the counters with the average, the label, the chain length, the trust
  and the number of trust events.\<close>

definition get_metrics :: "node_session \<Rightarrow> metrics \<times> int \<times> string \<times> nat \<times> pyfloat \<times> nat" where
  "get_metrics s =
     (let avg_p4 = (if 0 < p4_count (metr s) then p4_total_us (metr s) div p4_count (metr s) else 0)
      in (metr s, avg_p4, node_label s, length (audit_chain s), trust_score s,
          length (trust_events (metr s))))"

end
