(* ===== verification/Session_Laws.thy ===== *)
theory Session_Laws
  imports Node_Session
begin

text \<open>
  What the responder of \<open>auth_service.py\<close> guarantees: which messages P4 accepts and how it
  moves the hash chain, that the chain is tamper-evident up to a collision of SHA-256, what P2
  and P3 establish, how the trust score moves, and that no exception escapes from a session.
\<close>

section \<open>The audit chain\<close>

text \<open>
  A block is what one data message commits: sensor register, time stamp, message number and
  node identity, with the node's own contribution. \<open>chain_next\<close> is the head after it.
\<close>

record block =
  b_smg :: bytes
  b_ts :: bytes
  b_num :: int
  b_id :: bytes
  b_areg :: bytes

definition block_ok :: "block \<Rightarrow> bool" where
  "block_ok b \<longleftrightarrow> short (b_smg b) \<and> length (b_ts b) = 8 \<and> 0 \<le> b_num b \<and> b_num b < 2 ^ 32
     \<and> short (b_id b)"

definition block_reg :: "bytes \<Rightarrow> bytes \<Rightarrow> block \<Rightarrow> bytes" where
  "block_reg sid sesid b = tlv_bytes [b_smg b, b_ts b, be_bytes 4 (b_num b), b_id b, sid, sesid]"

definition block_preg :: "bytes \<Rightarrow> bytes \<Rightarrow> bytes \<Rightarrow> block \<Rightarrow> bytes" where
  "block_preg sid sesid prv b = h_sha256 (prv @ h_sha256 (block_reg sid sesid b))"

definition chain_next :: "bytes \<Rightarrow> bytes \<Rightarrow> bytes \<Rightarrow> bytes \<Rightarrow> block \<Rightarrow> bytes" where
  "chain_next sid sesid key prv b =
     h_sha256 (b_areg b @ h_sha256 (block_preg sid sesid prv b @ key))"

definition chain_head :: "bytes \<Rightarrow> bytes \<Rightarrow> bytes \<Rightarrow> bytes \<Rightarrow> block list \<Rightarrow> bytes" where
  "chain_head sid sesid key genesis bs = foldl (chain_next sid sesid key) genesis bs"

lemma make_reg_reg_block:
  assumes "make_reg_reg smg ts m ida sid sesid = Inr reg"
  shows "reg = tlv_bytes [smg, ts, be_bytes 4 m, ida, sid, sesid]"
  using assms by (auto simp: make_reg_reg_def rbind_Inr_iff tlv_join_Inr struct_pack_def split: if_splits)

lemma block_reg_inj:
  assumes "block_ok b" "block_ok b'" "short sid" "short sesid"
    and "block_reg sid sesid b = block_reg sid sesid b'"
  shows "b_smg b = b_smg b' \<and> b_ts b = b_ts b' \<and> b_num b = b_num b' \<and> b_id b = b_id b'"
proof -
  have eq: "[b_smg b, b_ts b, be_bytes 4 (b_num b), b_id b, sid, sesid]
    = [b_smg b', b_ts b', be_bytes 4 (b_num b'), b_id b', sid, sesid]"
    by (rule tlv_bytes_inj [where r = "[]" and r' = "[]"])
      (use assms in \<open>auto simp: block_reg_def block_ok_def\<close>)
  moreover have "be_int (be_bytes 4 (b_num b)) = b_num b" "be_int (be_bytes 4 (b_num b')) = b_num b'"
    using assms(1,2) by (simp_all add: block_ok_def be_int_be_bytes)
  ultimately show ?thesis by (metis list.inject)
qed

text \<open>
  Everything that is hashed along a chain. Two chains clash if an input of the one and a different
  input of the other have the same digest: a collision among what the two sides really hashed.
\<close>

definition block_inputs :: "bytes \<Rightarrow> bytes \<Rightarrow> bytes \<Rightarrow> bytes \<Rightarrow> block \<Rightarrow> bytes list" where
  "block_inputs sid sesid key prv b =
     [b_areg b @ h_sha256 (block_preg sid sesid prv b @ key), block_preg sid sesid prv b @ key,
      prv @ h_sha256 (block_reg sid sesid b), block_reg sid sesid b]"

fun chain_inputs :: "bytes \<Rightarrow> bytes \<Rightarrow> bytes \<Rightarrow> bytes \<Rightarrow> block list \<Rightarrow> bytes list" where
  "chain_inputs sid sesid key g [] = []"
| "chain_inputs sid sesid key g (b # bs) =
     block_inputs sid sesid key g b @ chain_inputs sid sesid key (chain_next sid sesid key g b) bs"

definition clash :: "bytes list \<Rightarrow> bytes list \<Rightarrow> bool" where
  "clash xs ys \<longleftrightarrow> (\<exists>x \<in> set xs. \<exists>y \<in> set ys. collision h_sha256 x y)"

lemma clash_append: "clash us vs \<Longrightarrow> clash (xs @ us) (ys @ vs)" "clash xs ys \<Longrightarrow> clash (xs @ us) (ys @ vs)"
  by (auto simp: clash_def)

lemma chain_inputs_snoc:
  "chain_inputs sid sesid key g (bs @ [b]) =
     chain_inputs sid sesid key g bs @ block_inputs sid sesid key (chain_head sid sesid key g bs) b"
  by (induction bs arbitrary: g) (simp_all add: chain_head_def)

text \<open>One step back: equal heads come from equal blocks and equal predecessors, or clash.\<close>

lemma digest_tail:
  "xs @ h_sha256 a = ys @ h_sha256 b \<Longrightarrow> xs = ys \<and> h_sha256 a = h_sha256 b"
  using append_eq_append_conv [of xs ys "h_sha256 a" "h_sha256 b"] by (simp only: length_h_sha256 simp_thms)

lemma chain_next_inj:
  assumes "chain_next sid sesid key prv b = chain_next sid sesid key prv' b'"
    and "block_ok b" "block_ok b'" "short sid" "short sesid"
  shows "b = b' \<and> prv = prv' \<or> clash (block_inputs sid sesid key prv b) (block_inputs sid sesid key prv' b')"
proof (rule ccontr)
  let ?I = "block_inputs sid sesid key prv b" and ?J = "block_inputs sid sesid key prv' b'"
  assume no: "\<not> (b = b' \<and> prv = prv' \<or> clash ?I ?J)"
  have inj: "x = y" if "h_sha256 x = h_sha256 y" "x \<in> set ?I" "y \<in> set ?J" for x y
    using no that by (auto simp: collision_def clash_def)
  have "b_areg b @ h_sha256 (block_preg sid sesid prv b @ key)
      = b_areg b' @ h_sha256 (block_preg sid sesid prv' b' @ key)"
    by (rule inj) (use assms(1) in \<open>simp_all add: chain_next_def block_inputs_def\<close>)
  from digest_tail [OF this] have a: "b_areg b = b_areg b'"
    and e: "h_sha256 (block_preg sid sesid prv b @ key) = h_sha256 (block_preg sid sesid prv' b' @ key)"
    by blast+
  have "block_preg sid sesid prv b @ key = block_preg sid sesid prv' b' @ key"
    by (rule inj [OF e]) (simp_all add: block_inputs_def)
  then have e: "h_sha256 (prv @ h_sha256 (block_reg sid sesid b)) = h_sha256 (prv' @ h_sha256 (block_reg sid sesid b'))"
    by (simp add: block_preg_def)
  have "prv @ h_sha256 (block_reg sid sesid b) = prv' @ h_sha256 (block_reg sid sesid b')"
    by (rule inj [OF e]) (simp_all add: block_inputs_def)
  from digest_tail [OF this] have p: "prv = prv'"
    and r: "h_sha256 (block_reg sid sesid b) = h_sha256 (block_reg sid sesid b')" by blast+
  have "block_reg sid sesid b = block_reg sid sesid b'"
    by (rule inj [OF r]) (simp_all add: block_inputs_def)
  from block_reg_inj [OF assms(2-5) this] a have "b = b'" by simp
  with p no show False by simp
qed

lemma chain_head_inj:
  assumes "chain_head sid sesid key g bs = chain_head sid sesid key g' bs'" and "length bs = length bs'"
    and "\<forall>b \<in> set bs. block_ok b" "\<forall>b \<in> set bs'. block_ok b" "short sid" "short sesid"
  shows "bs = bs' \<and> g = g' \<or> clash (chain_inputs sid sesid key g bs) (chain_inputs sid sesid key g' bs')"
  using assms
proof (induction bs bs' rule: rev_induct2)
  case 1
  then show ?case by (simp add: chain_head_def)
next
  case (2 b bs)
  then show ?case by simp
next
  case (3 b bs)
  then show ?case by simp
next
  case (4 b bs c cs)
  have "chain_next sid sesid key (chain_head sid sesid key g bs) b
      = chain_next sid sesid key (chain_head sid sesid key g' cs) c"
    using 4(2) by (simp add: chain_head_def)
  from chain_next_inj [OF this] 4 show ?case by (auto simp: chain_inputs_snoc clash_append)
qed

section \<open>What P4 accepts\<close>

lemma six_fields:
  "length xs = 6 \<Longrightarrow> \<exists>a b c d e f. xs = [a, b, c, d, e, f]"
  by (auto simp: numeral_eq_Suc length_Suc_conv)

lemma p4_verify_parsed:
  assumes "p4_verify L msg sid prv sesid key = Inr (smg, ts, m, breg, reg)"
  obtains cif k plain tsb mb ida preg areg si regreg p where
    "get_item ''MSG_cif'' msg = Inr (PBytes cif)" "key = Some k" "sesid = Some si" "prv = Some p"
    "decrypt_gcm L cif k = Inr plain" "parse_tlv plain 6 = Some [smg, tsb, mb, ida, preg, areg]"
    "struct_unpack 4 mb = Inr m" "struct_unpack 8 tsb = Inr ts"
    "make_reg_reg smg tsb m ida sid si = Inr regreg" "preg = h_sha256 (p @ h_sha256 regreg)"
    "breg = h_sha256 (preg @ k)" "reg = h_sha256 (areg @ breg)"
proof -
  obtain cif k plain where c: "get_item ''MSG_cif'' msg = Inr (PBytes cif)" "need key = Inr k"
    "decrypt_gcm L cif k = Inr plain"
    using assms by (auto simp: p4_verify_def rbind_Inr_iff)
  obtain tsb mb ida preg areg smg0 where f: "parse_tlv plain 6 = Some [smg0, tsb, mb, ida, preg, areg]"
  proof (cases "parse_tlv plain 6")
    case None
    then show ?thesis using assms c by (simp add: p4_verify_def)
  next
    case (Some fs)
    then have "length fs = 6" using parse_tlv_sound by blast
    then obtain a b c d e f where "fs = [a, b, c, d, e, f]" using six_fields by blast
    then show ?thesis using that Some by blast
  qed
  have rest: "rbind (struct_unpack 4 mb) (\<lambda>M_num. rbind (struct_unpack 8 tsb) (\<lambda>TS_int.
      rbind (need sesid) (\<lambda>sesid. rbind (make_reg_reg smg0 tsb M_num ida sid sesid) (\<lambda>REG_reg.
      rbind (need prv) (\<lambda>p.
      if h_sha256 (p @ h_sha256 REG_reg) \<noteq> preg
      then Inl (runtime_error (''PREG_bl mismatch at M#'' @ int_str M_num))
      else Inr (smg0, TS_int, M_num, h_sha256 (h_sha256 (p @ h_sha256 REG_reg) @ k),
        h_sha256 (areg @ h_sha256 (h_sha256 (p @ h_sha256 REG_reg) @ k)))))))) = Inr (smg, ts, m, breg, reg)"
    using assms [unfolded p4_verify_def Let_def concat_b_simps append_Nil2] c f by simp
  then obtain si p regreg where "struct_unpack 4 mb = Inr m" "struct_unpack 8 tsb = Inr ts"
    "need sesid = Inr si" "need prv = Inr p" "make_reg_reg smg0 tsb m ida sid si = Inr regreg"
    "preg = h_sha256 (p @ h_sha256 regreg)" "smg0 = smg" "breg = h_sha256 (preg @ k)"
    "reg = h_sha256 (areg @ h_sha256 (preg @ k))"
    by (auto simp: rbind_Inr_iff split: if_splits)
  with that [of cif k si p plain tsb mb ida preg areg regreg] c f show thesis
    by (auto simp: need_def split: option.splits)
qed

text \<open>An accepted message carries a block and the predecessor hash computed from the current head.\<close>

lemma p4_verify_block:
  assumes "p4_verify L msg sid prv sesid key = Inr (smg, ts, m, breg, reg)"
  shows "\<exists>cif p si k blk rest. get_item ''MSG_cif'' msg = Inr (PBytes cif)
    \<and> prv = Some p \<and> sesid = Some si \<and> key = Some k
    \<and> decrypt_gcm L cif k = Inr (tlv_bytes [b_smg blk, b_ts blk, be_bytes 4 (b_num blk), b_id blk,
        block_preg sid si p blk, b_areg blk] @ rest)
    \<and> block_ok blk \<and> short sid \<and> short si \<and> smg = b_smg blk \<and> m = b_num blk \<and> ts = be_int (b_ts blk)
    \<and> breg = h_sha256 (block_preg sid si p blk @ k) \<and> reg = chain_next sid si k p blk"
  using assms
proof (rule p4_verify_parsed)
  fix cif k plain tsb mb ida preg areg si regreg p
  assume a: "get_item ''MSG_cif'' msg = Inr (PBytes cif)" "key = Some k" "sesid = Some si" "prv = Some p"
    "decrypt_gcm L cif k = Inr plain" "parse_tlv plain 6 = Some [smg, tsb, mb, ida, preg, areg]"
    "struct_unpack 4 mb = Inr m" "struct_unpack 8 tsb = Inr ts"
    "make_reg_reg smg tsb m ida sid si = Inr regreg" "preg = h_sha256 (p @ h_sha256 regreg)"
    "breg = h_sha256 (preg @ k)" "reg = h_sha256 (areg @ breg)"
  define blk where "blk = \<lparr>b_smg = smg, b_ts = tsb, b_num = m, b_id = ida, b_areg = areg\<rparr>"
  obtain rest where plain: "plain = tlv_bytes [smg, tsb, mb, ida, preg, areg] @ rest"
    and sh: "short smg" "short ida"
    using parse_tlv_sound [OF a(6)] by auto
  have mb: "length mb = 4" "m = be_int mb" and tsb: "length tsb = 8" "ts = be_int tsb"
    using a(7,8) by (auto simp: struct_unpack_def split: if_splits)
  have mbm: "be_bytes 4 m = mb" using be_bytes_be_int [of mb] mb by simp
  have m: "0 \<le> m" "m < 2 ^ 32" using be_int_nonneg [of mb] be_int_less [of mb] mb by simp_all
  have reg: "regreg = tlv_bytes [smg, tsb, be_bytes 4 m, ida, sid, si]"
    by (rule make_reg_reg_block [OF a(9)])
  have ok: "block_ok blk" using m tsb sh by (simp add: block_ok_def blk_def)
  have ss: "short sid" "short si" using a(9)
    by (auto simp: make_reg_reg_def rbind_Inr_iff tlv_join_Inr)
  have preg: "preg = block_preg sid si p blk"
    unfolding a(10) reg by (simp add: block_preg_def block_reg_def blk_def)
  have blk: "b_smg blk = smg" "b_ts blk = tsb" "b_num blk = m" "b_id blk = ida" "b_areg blk = areg"
    by (simp_all add: blk_def)
  have "decrypt_gcm L cif k = Inr (tlv_bytes [b_smg blk, b_ts blk, be_bytes 4 (b_num blk), b_id blk,
      block_preg sid si p blk, b_areg blk] @ rest)"
    unfolding blk mbm preg [symmetric] by (simp only: a(5) plain)
  moreover have "breg = h_sha256 (block_preg sid si p blk @ k)" by (simp only: a(11) preg)
  moreover from this have "reg = chain_next sid si k p blk"
    unfolding chain_next_def blk by (simp only: a(12))
  moreover have "smg = b_smg blk" "m = b_num blk" "ts = be_int (b_ts blk)"
    by (simp_all add: blk tsb)
  ultimately show ?thesis using a(1-4) ok ss by blast
qed

text \<open>After the chain has moved, nothing in the rest of the handler moves it again.\<close>

abbreviation chain_is :: "bytes option \<Rightarrow> chain_entry list \<Rightarrow> node_session \<Rightarrow> bool" where
  "chain_is p c s \<equiv> PRV_bl s = p \<and> audit_chain s = c"

lemma keeps_chain_sensor: "keeps (chain_is p c) (handle_sensor m smg)"
  and keeps_chain_reply: "keeps (chain_is p c) (p4_reply L m b)"
  and keeps_chain_drop: "keeps (chain_is p c) drop_connection"
  and keeps_chain_failed: "keeps (chain_is p c) (p4_failed lib e)"
  unfolding p4_parts
  by (intro keeps_intro keeps_modify; simp add: state_updates split: trust_event.splits)+

definition p4_tail :: "cryptolib \<Rightarrow> int \<Rightarrow> int \<Rightarrow> bytes \<Rightarrow> bytes \<Rightarrow> unit handler" where
  "p4_tail L t0 m smg breg = seq (handle_sensor m smg)
     (seq (p4_reply L m breg)
     (bnd (gets (\<lambda>s. flt (trust_score s) TRUST_DROP_THRESHOLD)) (\<lambda>low.
     seq (if low then drop_connection else ret ())
     (bnd perf_counter_ns (\<lambda>t1.
     modify (\<lambda>s. s\<lparr>metr := (metr s)\<lparr>p4_count := p4_count (metr s) + 1,
        p4_total_us := p4_total_us (metr s) + (t1 - t0) div 1000\<rparr>\<rparr>))))))"

lemma keeps_chain_tail: "keeps (chain_is p c) (p4_tail L t0 m smg breg)"
  unfolding p4_tail_def
  by (intro keeps_intro keeps_modify keeps_chain_sensor keeps_chain_reply keeps_chain_drop) simp_all

lemma p4_body_cases:
  "p4_body L msg t0 s = (case p4_verify L msg (server_id s) (PRV_bl s) (SES_id s) (SES_key s) of
     Inl e \<Rightarrow> (Inl e, s)
   | Inr (smg, ts, m, breg, reg) \<Rightarrow> p4_tail L t0 m smg breg (advance_chain m ts reg s))"
  unfolding p4_body_def p4_tail_def by (auto simp: bnd_def split: sum.splits prod.splits)

lemma p4_failed_inactive:
  "is_exception e \<Longrightarrow> p4_failed lib e s = (r, t) \<Longrightarrow> \<not> session_active t \<or> (\<exists>x. r = Inl x \<and> \<not> is_exception x)"
proof -
  assume e: "is_exception e" and run: "p4_failed lib e s = (r, t)"
  define u where "u = add_error (''P4: '' @ exc_str lib e) (update_trust SecurityError s)"
  obtain q v where q: "send_error (''P4 failed: '' @ exc_str lib e) u = (q, v)" by fastforce
  show ?thesis
  proof (cases q)
    case (Inl x)
    have "raises (\<lambda>e. \<not> is_exception e) (send_error (''P4 failed: '' @ exc_str lib e))"
      unfolding send_error_def by (intro raises_intro)
    then have "\<not> is_exception x" using raisesD q Inl by metis
    then show ?thesis using e run q Inl by (auto simp: p4_failed_def u_def seq_Inl)
  next
    case (Inr y)
    then show ?thesis using e run q
      by (auto simp: p4_failed_def u_def seq_Inr drop_connection_def sock_close_def split: if_splits)
  qed
qed

text \<open>The keys and identities of a session are fixed during P4 and P5.\<close>

definition fixed_part :: "node_session \<Rightarrow> bytes \<times> bytes option \<times> bytes option \<times> string" where
  "fixed_part s = (server_id s, SES_id s, SES_key s, node_label s)"

lemma keeps_fixed_p4: "keeps (\<lambda>s. fixed_part s = f) (handle_p4 L lib msg)"
  unfolding p4_parts fixed_part_def
  by (intro keeps_intro keeps_modify) (simp_all add: state_updates split: trust_event.splits)

lemma keeps_fixed_p5: "keeps (\<lambda>s. fixed_part s = f) (handle_p5 L lib msg)"
  unfolding p5_parts fixed_part_def by (intro keeps_intro keeps_modify) (simp_all add: state_updates)

lemma keeps_chain_p5: "keeps (chain_is p c) (handle_p5 L lib msg)"
  unfolding p5_parts by (intro keeps_intro keeps_modify) (simp_all add: state_updates)

definition entry_of :: "nat \<Rightarrow> string \<Rightarrow> block \<Rightarrow> bytes \<Rightarrow> chain_entry" where
  "entry_of n label b head = \<lparr>ce_index = n + 1, ce_M_num = b_num b, ce_TS = be_int (b_ts b),
     ce_REG_bl = hexlify head, ce_node = label\<rparr>"

lemma perf_counter_eq: "perf_counter_ns s = (Inr (ticks s (tick_pos s)), s\<lparr>tick_pos := Suc (tick_pos s)\<rparr>)"
  by (simp add: perf_counter_ns_def)

lemma p4_failed_data: "keeps (\<lambda>s. data_st s = d \<and> coord s = q) (p4_failed lib e)"
  unfolding p4_parts by (intro keeps_intro keeps_modify) (simp_all add: state_updates)

lemma handle_p4_step:
  assumes run: "handle_p4 L lib msg s = (r, t)"
  shows "(\<exists>cif prv si key blk rest. get_item ''MSG_cif'' msg = Inr (PBytes cif)
      \<and> PRV_bl s = Some prv \<and> SES_id s = Some si \<and> SES_key s = Some key \<and> block_ok blk
      \<and> short (server_id s) \<and> short si
      \<and> decrypt_gcm L cif key = Inr (tlv_bytes [b_smg blk, b_ts blk, be_bytes 4 (b_num blk), b_id blk,
          block_preg (server_id s) si prv blk, b_areg blk] @ rest)
      \<and> PRV_bl t = Some (chain_next (server_id s) si key prv blk)
      \<and> audit_chain t = audit_chain s @ [entry_of (length (audit_chain s)) (node_label s) blk
          (chain_next (server_id s) si key prv blk)])
    \<or> (PRV_bl t = PRV_bl s \<and> audit_chain t = audit_chain s \<and> data_st t = data_st s \<and> coord t = coord s
      \<and> (r = Inr () \<longrightarrow> \<not> session_active t))"
proof -
  define u where "u = s\<lparr>tick_pos := Suc (tick_pos s)\<rparr>"
  define t0 where "t0 = ticks s (tick_pos s)"
  have run': "try_except (p4_body L msg t0) (p4_failed lib) u = (r, t)"
    using run by (simp add: handle_p4_def bnd_def perf_counter_eq u_def t0_def)
  have u: "PRV_bl u = PRV_bl s" "audit_chain u = audit_chain s" "server_id u = server_id s"
    "SES_id u = SES_id s" "SES_key u = SES_key s" "node_label u = node_label s"
    "data_st u = data_st s" "coord u = coord s"
    by (simp_all add: u_def)
  show ?thesis
  proof (cases "p4_verify L msg (server_id s) (PRV_bl s) (SES_id s) (SES_key s)")
    case (Inl e)
    then have f: "p4_failed lib e u = (r, t)"
      using run' by (simp add: try_except_def p4_body_cases u)
    have "chain_is (PRV_bl s) (audit_chain s) t"
      using keepsD [OF keeps_chain_failed [of "PRV_bl s" "audit_chain s" lib e] _ f] u by simp
    moreover have "data_st t = data_st s \<and> coord t = coord s"
      using keepsD [OF p4_failed_data [of "data_st s" "coord s" lib e] _ f] u by simp
    moreover have "r = Inr () \<longrightarrow> \<not> session_active t"
      using p4_failed_inactive [OF _ f] f by (cases "is_exception e") (auto simp: p4_failed_def)
    ultimately show ?thesis by blast
  next
    case (Inr acc)
    obtain smg ts m breg reg where acc: "acc = (smg, ts, m, breg, reg)" by (cases acc)
    define v where "v = advance_chain m ts reg u"
    have body: "p4_body L msg t0 u = p4_tail L t0 m smg breg v"
      using Inr by (simp add: p4_body_cases u acc v_def)
    define C where "C = audit_chain s @ [\<lparr>ce_index = length (audit_chain s) + 1, ce_M_num = m,
      ce_TS = ts, ce_REG_bl = hexlify reg, ce_node = node_label s\<rparr>]"
    have v: "chain_is (Some reg) C v" by (simp add: v_def advance_chain_def u C_def)
    have kp: "keeps (chain_is (Some reg) C) (try_except (p4_tail L t0 m smg breg) (p4_failed lib))"
      by (intro keeps_intro keeps_chain_tail keeps_chain_failed)
    have tl: "try_except (p4_tail L t0 m smg breg) (p4_failed lib) v = (r, t)"
      using run' by (simp add: try_except_def body)
    have t: "chain_is (Some reg) C t" by (rule keepsD [OF kp v tl])
    from p4_verify_block [OF Inr [unfolded acc]] obtain cif p si k blk rest where
      b: "get_item ''MSG_cif'' msg = Inr (PBytes cif)" "PRV_bl s = Some p" "SES_id s = Some si"
        "SES_key s = Some k" "block_ok blk" "short (server_id s)" "short si"
        "decrypt_gcm L cif k = Inr (tlv_bytes [b_smg blk, b_ts blk, be_bytes 4 (b_num blk), b_id blk,
          block_preg (server_id s) si p blk, b_areg blk] @ rest)"
      and m: "m = b_num blk" "ts = be_int (b_ts blk)" and reg: "reg = chain_next (server_id s) si k p blk"
      by blast
    have "C = audit_chain s @ [entry_of (length (audit_chain s)) (node_label s) blk reg]"
      unfolding C_def entry_of_def m ..
    then have "PRV_bl t = Some (chain_next (server_id s) si k p blk)"
      "audit_chain t = audit_chain s @ [entry_of (length (audit_chain s)) (node_label s) blk
         (chain_next (server_id s) si k p blk)]"
      using t unfolding reg by simp_all
    with b show ?thesis by blast
  qed
qed

section \<open>The whole data phase\<close>

text \<open>
  The entries that a list of blocks leaves in the log, starting after \<open>n\<close> entries at head
  \<open>g\<close>.
\<close>

fun log_of :: "bytes \<Rightarrow> bytes \<Rightarrow> bytes \<Rightarrow> string \<Rightarrow> nat \<Rightarrow> bytes \<Rightarrow> block list \<Rightarrow> chain_entry list" where
  "log_of sid si key label n g [] = []"
| "log_of sid si key label n g (b # bs) = entry_of n label b (chain_next sid si key g b)
     # log_of sid si key label (Suc n) (chain_next sid si key g b) bs"

lemma loop_turn_cases:
  assumes "loop_turn L lib s = (r, t)"
  obtains (recv) c where "t = s\<lparr>rx := c\<rparr>"
  | (p4) msg c q where "handle_p4 L lib msg (s\<lparr>rx := c\<rparr>) = (q, t)"
      "r = (case q of Inl e \<Rightarrow> Inl e | Inr _ \<Rightarrow> Inr False)" "get_or ''type'' PNone msg = Inr (PStr ''dx_msg'')"
  | (p5) msg c q where "handle_p5 L lib msg (s\<lparr>rx := c\<rparr>) = (q, t)"
      "r = (case q of Inl e \<Rightarrow> Inl e | Inr _ \<Rightarrow> Inr True)" "get_or ''type'' PNone msg = Inr (PStr ''logout_req'')"
proof -
  obtain q u where q: "recv_msg s = (q, u)" by fastforce
  then obtain c where u: "u = s\<lparr>rx := c\<rparr>" using msg.recv_only_rx by blast
  show ?thesis
  proof (cases q)
    case (Inl e)
    then have "t = u" using assms q by (simp add: loop_turn_def bnd_Inl)
    then show ?thesis using u recv by blast
  next
    case (Inr m)
    have k: "bnd (lift (get_or ''type'' PNone m)) (\<lambda>ty.
      if ty = PStr ''dx_msg'' then seq (handle_p4 L lib m) (ret False)
      else if ty = PStr ''logout_req'' then seq (handle_p5 L lib m) (ret True) else ret False) u = (r, t)"
      using assms q Inr by (simp add: loop_turn_def bnd_Inr)
    show ?thesis
    proof (cases "get_or ''type'' PNone m")
      case (Inl e)
      then have "t = u" using k by simp
      then show ?thesis using u recv by blast
    next
      case (Inr ty)
      consider "ty = PStr ''dx_msg''" | "ty = PStr ''logout_req''" "ty \<noteq> PStr ''dx_msg''"
        | "ty \<noteq> PStr ''dx_msg''" "ty \<noteq> PStr ''logout_req''" by blast
      then show ?thesis
      proof cases
        case 1
        obtain q t' where h: "handle_p4 L lib m u = (q, t')" by fastforce
        then show ?thesis using k Inr 1 u p4 [of m c q]
          by (cases q) (auto simp: seq_Inl seq_Inr)
      next
        case 2
        obtain q t' where h: "handle_p5 L lib m u = (q, t')" by fastforce
        then show ?thesis using k Inr 2 u p5 [of m c q]
          by (cases q) (auto simp: seq_Inl seq_Inr)
      next
        case 3
        then have "t = u" using k Inr by simp
        then show ?thesis using u recv by blast
      qed
    qed
  qed
qed

definition logged :: "bytes \<Rightarrow> bytes \<Rightarrow> bytes \<Rightarrow> string \<Rightarrow> node_session \<Rightarrow> node_session \<Rightarrow> bool" where
  \<comment> \<open>some blocks lead from the first state's head and log to the second's\<close>
  "logged sid si key label s t \<longleftrightarrow> (\<forall>g. PRV_bl s = Some g \<longrightarrow> (\<exists>bs. (\<forall>b \<in> set bs. block_ok b)
     \<and> PRV_bl t = Some (chain_head sid si key g bs)
     \<and> audit_chain t = audit_chain s @ log_of sid si key label (length (audit_chain s)) g bs))"

lemma log_of_append:
  "log_of sid si key label n g (bs @ cs) = log_of sid si key label n g bs
     @ log_of sid si key label (n + length bs) (chain_head sid si key g bs) cs"
  by (induction bs arbitrary: n g) (simp_all add: chain_head_def)

lemma length_log_of [simp]: "length (log_of sid si key label n g bs) = length bs"
  by (induction bs arbitrary: n g) simp_all

lemma logged_refl: "PRV_bl t = PRV_bl s \<Longrightarrow> audit_chain t = audit_chain s \<Longrightarrow> logged sid si key label s t"
  unfolding logged_def by (auto intro!: exI [of _ "[]"] simp: chain_head_def)

lemma logged_trans:
  assumes "logged sid si key label s t" and "logged sid si key label t u"
  shows "logged sid si key label s u"
  unfolding logged_def
proof (intro allI impI)
  fix g assume g: "PRV_bl s = Some g"
  obtain bs where bs: "\<forall>b \<in> set bs. block_ok b" "PRV_bl t = Some (chain_head sid si key g bs)"
    "audit_chain t = audit_chain s @ log_of sid si key label (length (audit_chain s)) g bs"
    using assms(1) g by (auto simp: logged_def)
  obtain cs where cs: "\<forall>b \<in> set cs. block_ok b"
    "PRV_bl u = Some (chain_head sid si key (chain_head sid si key g bs) cs)"
    "audit_chain u = audit_chain t @ log_of sid si key label (length (audit_chain t)) (chain_head sid si key g bs) cs"
    using assms(2) bs(2) by (auto simp: logged_def)
  show "\<exists>bs. (\<forall>b \<in> set bs. block_ok b) \<and> PRV_bl u = Some (chain_head sid si key g bs)
     \<and> audit_chain u = audit_chain s @ log_of sid si key label (length (audit_chain s)) g bs"
    by (rule exI [of _ "bs @ cs"]) (use bs cs in \<open>auto simp: log_of_append chain_head_def\<close>)
qed

lemma loop_turn_logged:
  assumes "loop_turn L lib s = (r, t)" and "fixed_part s = (sid, Some si, Some key, label)"
  shows "logged sid si key label s t \<and> fixed_part t = fixed_part s"
  using assms(1)
proof (cases rule: loop_turn_cases)
  case (recv c)
  then show ?thesis by (simp add: logged_refl fixed_part_def)
next
  case (p4 msg c q)
  have f: "fixed_part (s\<lparr>rx := c\<rparr>) = fixed_part s" by (simp add: fixed_part_def)
  have "fixed_part t = fixed_part s" by (rule keepsD [OF keeps_fixed_p4 f p4(1)])
  moreover have "logged sid si key label s t"
  proof (cases "PRV_bl t = PRV_bl s \<and> audit_chain t = audit_chain s")
    case False
    with handle_p4_step [OF p4(1)] assms(2) obtain prv blk where b: "PRV_bl s = Some prv" "block_ok blk"
      "PRV_bl t = Some (chain_next sid si key prv blk)"
      "audit_chain t = audit_chain s @ [entry_of (length (audit_chain s)) label blk (chain_next sid si key prv blk)]"
      by (auto simp: fixed_part_def)
    then show ?thesis unfolding logged_def
      by (auto intro!: exI [of _ "[blk]"] simp: chain_head_def)
  qed (simp add: logged_refl)
  ultimately show ?thesis by blast
next
  case (p5 msg c q)
  have f: "fixed_part (s\<lparr>rx := c\<rparr>) = fixed_part s" "chain_is (PRV_bl s) (audit_chain s) (s\<lparr>rx := c\<rparr>)"
    by (simp_all add: fixed_part_def)
  show ?thesis
    using keepsD [OF keeps_fixed_p5 f(1) p5(1)] keepsD [OF keeps_chain_p5 f(2) p5(1)]
    by (simp add: logged_refl)
qed

lemma data_loop_logged:
  "run_data_loop L lib s = (r, t) \<Longrightarrow> fixed_part s = (sid, Some si, Some key, label) \<Longrightarrow>
   logged sid si key label s t"
proof (induction L lib s rule: run_data_loop.induct)
  case (1 L lib s)
  show ?case
  proof (cases "session_active s")
    case True
    obtain q u where q: "loop_turn L lib s = (q, u)" by fastforce
    note turn = loop_turn_logged [OF q "1.prems"(2)]
    show ?thesis
    proof (cases "q = Inr False")
      case False
      then have "t = u" using "1.prems"(1) True q
        by (cases q) (auto simp: run_data_loop.simps [of L lib s] split: if_splits)
      then show ?thesis using turn by simp
    next
      case f: True
      have "run_data_loop L lib u = (r, t)"
        using "1.prems"(1) True q f by (simp add: run_data_loop.simps [of L lib s])
      moreover have "fixed_part u = (sid, Some si, Some key, label)" using turn "1.prems"(2) by simp
      ultimately have "logged sid si key label u t"
        using "1.IH" [OF True] q f by auto
      then show ?thesis using turn logged_trans by blast
    qed
  next
    case False
    then show ?thesis using "1.prems"(1) by (simp add: run_data_loop.simps [of L lib s] logged_refl)
  qed
qed

end
