(* ===== verification/Trust_Laws.thy ===== *)
theory Trust_Laws
  imports Session_Laws
begin

text \<open>
  The trust score of a \<open>NodeSession\<close>: the values it takes while the session is active, what
  a run of anomalies does to it, that a session below the threshold is closed, and which trust
  values reach the data store and hence the coordinator.
\<close>

section \<open>Trust values\<close>

definition trust_levels :: "pyfloat set" where
  "trust_levels = {TRUST_START, TRUST_MID, Fin 0}"

lemma trust_steps:
  "pymax (Fin 0) (fsub TRUST_START (fl (40 / 100))) = TRUST_MID"
  "pymax (Fin 0) (fsub TRUST_MID (fl (40 / 100))) = Fin 0"
  "pymax (Fin 0) (fsub (Fin 0) (fl (40 / 100))) = Fin 0"
  by code_simp+

lemma trust_below:
  "\<not> flt TRUST_START TRUST_DROP_THRESHOLD" "\<not> flt TRUST_MID TRUST_DROP_THRESHOLD"
  "flt (Fin 0) TRUST_DROP_THRESHOLD"
  by code_simp+

lemma trust_step_level:
  "x \<in> trust_levels \<Longrightarrow> pymax (Fin 0) (fsub x (fl (40 / 100))) \<in> trust_levels"
  using trust_steps by (auto simp: trust_levels_def)

text \<open>A store whose latest readings all carry one of these values.\<close>

definition trusted_store :: "data_store \<Rightarrow> bool" where
  "trusted_store d \<longleftrightarrow> (\<forall>r \<in> snd ` set (latest d). \<exists>x \<in> trust_levels.
     map_of r ''trust_score'' = Some (PFloat x))"

definition trust_good :: "node_session \<Rightarrow> bool" where
  "trust_good s \<longleftrightarrow> trusted_store (data_st s) \<and> consecutive_anomalies s < V_BUS_ANOMALY_WINDOW
     \<and> trust_score s \<in> trust_levels"

lemma trusted_store_record:
  assumes "trusted_store d" and "x \<in> trust_levels" and "map_of r ''trust_score'' = Some (PFloat x)"
  shows "trusted_store (store_record now n r d)"
proof -
  define r' where "r' = dict_setdefault ''server_ts'' (PFloat (fl now)) r"
  have r': "map_of r' ''trust_score'' = Some (PFloat x)"
    using assms(3) by (simp add: r'_def dict_setdefault_def)
  have "latest (store_record now n r d) = dict_set n r' (latest d)"
    by (simp add: store_record_def Let_def r'_def)
  then have "snd ` set (latest (store_record now n r d)) \<subseteq> insert r' (snd ` set (latest d))"
    using set_values_dict_set [of n r' "latest d"] by simp
  then show ?thesis using assms(1,2) r' unfolding trusted_store_def by blast
qed

lemma trust_good_anomaly:
  "trust_good s \<Longrightarrow> trust_good (update_trust (if far then SensorAnomaly else SensorOk) s)"
  by (auto simp: trust_good_def update_trust_def note_trust_def Let_def trust_step_level [simplified]
      V_BUS_ANOMALY_WINDOW_def)

lemma keeps_trust_sensor: "keeps trust_good (handle_sensor m smg)"
proof -
  have rec: "keeps trust_good (bnd (getr (\<lambda>s. set_item ''trust_score'' (PFloat (trust_score s)) data))
      record_reading)" for data
  proof (rule keepsI)
    fix s r t assume s: "trust_good s"
      and run: "bnd (getr (\<lambda>s. set_item ''trust_score'' (PFloat (trust_score s)) data)) record_reading s = (r, t)"
    show "trust_good t"
    proof (cases data)
      case (PDict d)
      have "trusted_store (store_record (wall s (wall_pos s)) (node_label s)
          (dict_set ''trust_score'' (PFloat (trust_score s)) d) (data_st s))"
        using s by (intro trusted_store_record) (auto simp: trust_good_def)
      then show ?thesis using s run PDict
        by (auto simp: bnd_getr_Inr record_reading_def time_time_def bnd_def trust_good_def)
    qed (use s run in \<open>auto simp: bnd_def trust_good_def\<close>)
  qed
  show ?thesis
    unfolding handle_sensor_def sensor_body_def check_anomaly_def
    by (intro keeps_intro keeps_modify trust_good_anomaly rec)
qed

lemma keeps_trust_reply: "keeps trust_good (p4_reply L m b)"
  and keeps_trust_drop: "keeps trust_good drop_connection"
  unfolding p4_parts trust_good_def by (intro keeps_intro keeps_modify; simp)+

section \<open>P4 keeps the trust of an active session at a level\<close>

definition active_good :: "node_session \<Rightarrow> bool" where
  "active_good s \<longleftrightarrow> trusted_store (data_st s) \<and> consecutive_anomalies s < V_BUS_ANOMALY_WINDOW
     \<and> (session_active s \<longrightarrow> trust_score s \<in> {TRUST_START, TRUST_MID})"

lemma trust_good_active: "active_good s \<Longrightarrow> session_active s \<Longrightarrow> trust_good s"
  by (auto simp: active_good_def trust_good_def trust_levels_def)

lemma send_error_returns: "\<exists>t. send_error m s = (Inr (), t)"
proof -
  obtain r t where r: "send_msg [(''type'', PStr ''error''), (''error'', PStr m)] s = (r, t)" by fastforce
  show ?thesis
  proof (cases r)
    case (Inl e)
    have "is_exception e" using raisesD [OF raises_send_msg] r Inl by blast
    then show ?thesis using r Inl by (simp add: send_error_def try_except_def)
  qed (use r in \<open>simp add: send_error_def try_except_def\<close>)
qed

lemma send_error_only_sends: "send_error m s = (r, t) \<Longrightarrow> \<exists>x y. t = s\<lparr>tx := x, tx_left := y\<rparr>"
  by (rule keeps_only_sends [OF keeps_send_error])

lemma p4_failed_run:
  assumes "is_exception e"
  shows "\<exists>t. p4_failed lib e s = (Inr (), t) \<and> \<not> session_active t \<and> data_st t = data_st s
    \<and> consecutive_anomalies t = consecutive_anomalies s
    \<and> trust_score t = pymax (Fin 0) (fsub (trust_score s) (fl (30 / 100)))
    \<and> (\<exists>u. send_error (''P4 failed: '' @ exc_str lib e) u = (Inr (), u\<lparr>tx := tx t, tx_left := tx_left t\<rparr>)
          \<and> tx u = tx s)
    \<and> (flt (trust_score t) TRUST_DROP_THRESHOLD \<longrightarrow> sock_closed t)"
proof -
  define u where "u = add_error (''P4: '' @ exc_str lib e) (update_trust SecurityError s)"
  obtain v where v: "send_error (''P4 failed: '' @ exc_str lib e) u = (Inr (), v)"
    using send_error_returns by blast
  obtain x y where xy: "v = u\<lparr>tx := x, tx_left := y\<rparr>" using send_error_only_sends [OF v] by blast
  have run: "p4_failed lib e s = (if flt (trust_score v) TRUST_DROP_THRESHOLD then drop_connection
      else modify (\<lambda>s. s\<lparr>session_active := False\<rparr>)) v"
    using assms by (simp only: p4_failed_def if_True seq_modify u_def [symmetric] bnd_gets
        seq_Inr [where m = "send_error (''P4 failed: '' @ exc_str lib e)" and s = u, OF v])
  have "data_st v = data_st s" "consecutive_anomalies v = consecutive_anomalies s" "tx u = tx s"
    "trust_score v = pymax (Fin 0) (fsub (trust_score s) (fl (30 / 100)))"
    by (simp_all add: xy u_def state_updates)
  then show ?thesis
    using v xy unfolding run
    by (auto simp: drop_connection_def sock_close_def intro!: exI [of _ u])
qed

lemma p4_tail_good:
  assumes "trust_good v" and "p4_tail L t0 m smg breg v = (q, w)"
  shows "case q of Inl e \<Rightarrow> trust_good w | Inr _ \<Rightarrow> active_good w"
proof -
  obtain q1 v1 where 1: "handle_sensor m smg v = (q1, v1)" by fastforce
  have g1: "trust_good v1" by (rule keepsD [OF keeps_trust_sensor assms(1) 1])
  show ?thesis
  proof (cases q1)
    case (Inl e)
    then show ?thesis using assms(2) 1 g1 by (auto simp: p4_tail_def seq_Inl)
  next
    case (Inr x1)
    obtain q2 v2 where 2: "p4_reply L m breg v1 = (q2, v2)" by fastforce
    have g2: "trust_good v2" by (rule keepsD [OF keeps_trust_reply g1 2])
    show ?thesis
    proof (cases q2)
      case (Inl e)
      then show ?thesis using assms(2) 1 2 g2 Inr by (auto simp: p4_tail_def seq_Inl seq_Inr)
    next
      case r2: (Inr x2)
      have "q = Inr () \<and> data_st w = data_st v2 \<and> consecutive_anomalies w = consecutive_anomalies v2
        \<and> trust_score w = trust_score v2
        \<and> (flt (trust_score v2) TRUST_DROP_THRESHOLD \<longrightarrow> \<not> session_active w)"
        using assms(2) 1 2 Inr r2
        by (cases "flt (trust_score v2) TRUST_DROP_THRESHOLD")
          (auto simp: p4_tail_def seq_Inr drop_connection_def sock_close_def perf_counter_eq bnd_def seq_def)
      then show ?thesis using g2 trust_below
        by (auto simp: active_good_def trust_good_def trust_levels_def)
    qed
  qed
qed

lemma p4_failed_good:
  assumes "trust_good v" and "p4_failed lib e v = (q, w)"
  shows "active_good w \<or> (\<exists>x. q = Inl x \<and> \<not> is_exception x)"
proof (cases "is_exception e")
  case True
  from p4_failed_run [OF this, of lib v] assms show ?thesis
    by (auto simp: active_good_def trust_good_def)
next
  case False
  then show ?thesis using assms by (auto simp: p4_failed_def)
qed

lemma p4_active_good:
  assumes "active_good s" and "session_active s" and "handle_p4 L lib msg s = (r, t)"
  shows "active_good t \<or> (\<exists>x. r = Inl x \<and> \<not> is_exception x)"
proof -
  define u where "u = s\<lparr>tick_pos := Suc (tick_pos s)\<rparr>"
  define t0 where "t0 = ticks s (tick_pos s)"
  have run: "try_except (p4_body L msg t0) (p4_failed lib) u = (r, t)"
    using assms(3) by (simp add: handle_p4_def bnd_def perf_counter_eq u_def t0_def)
  have gu: "trust_good u"
    using trust_good_active [OF assms(1,2)] by (simp add: u_def trust_good_def)
  obtain q w where body: "p4_body L msg t0 u = (q, w)" by fastforce
  have "case q of Inl e \<Rightarrow> trust_good w | Inr _ \<Rightarrow> active_good w"
  proof (cases "p4_verify L msg (server_id u) (PRV_bl u) (SES_id u) (SES_key u)")
    case (Inl e)
    then show ?thesis using body gu by (auto simp: p4_body_cases)
  next
    case (Inr acc)
    obtain smg ts m breg reg where acc: "acc = (smg, ts, m, breg, reg)" by (cases acc)
    have "trust_good (advance_chain m ts reg u)" using gu by (simp add: trust_good_def advance_chain_def)
    from p4_tail_good [OF this] body show ?thesis by (simp add: p4_body_cases Inr acc)
  qed
  then show ?thesis
    using run body p4_failed_good [of w lib] by (auto simp: try_except_def split: sum.splits)
qed

lemma keeps_good_p5: "keeps active_good (handle_p5 L lib msg)"
  unfolding p5_parts active_good_def
  by (intro keeps_intro keeps_modify) (simp_all add: state_updates)

lemma loop_turn_good:
  assumes "loop_turn L lib s = (q, u)" and "active_good s" and "session_active s"
  shows "active_good u \<or> (\<exists>x. q = Inl x \<and> \<not> is_exception x)"
  using assms(1)
proof (cases rule: loop_turn_cases)
  case (recv c)
  then show ?thesis using assms(2) by (simp add: active_good_def)
next
  case (p4 msg c q')
  have "active_good (s\<lparr>rx := c\<rparr>)" "session_active (s\<lparr>rx := c\<rparr>)"
    using assms(2,3) by (simp_all add: active_good_def)
  from p4_active_good [OF this p4(1)] p4(2) show ?thesis by auto
next
  case (p5 msg c q')
  have "active_good (s\<lparr>rx := c\<rparr>)" using assms(2) by (simp add: active_good_def)
  from keepsD [OF keeps_good_p5 this p5(1)] show ?thesis by blast
qed

text \<open>Whatever a turn raises, what it has recorded carries a level, and the coordinator is only read.\<close>

lemma p4_trusted:
  assumes "trust_good s" and "handle_p4 L lib msg s = (r, t)"
  shows "trusted_store (data_st t)"
proof -
  define u where "u = s\<lparr>tick_pos := Suc (tick_pos s)\<rparr>"
  define t0 where "t0 = ticks s (tick_pos s)"
  have run: "try_except (p4_body L msg t0) (p4_failed lib) u = (r, t)"
    using assms(2) by (simp add: handle_p4_def bnd_def perf_counter_eq u_def t0_def)
  obtain q w where body: "p4_body L msg t0 u = (q, w)" by fastforce
  have "keeps trust_good (p4_body L msg t0)"
    unfolding p4_body_def split_def
    by (intro keeps_intro keeps_modify keeps_trust_sensor keeps_trust_reply keeps_trust_drop)
      (simp_all add: trust_good_def advance_chain_def)
  from keepsD [OF this _ body] have w: "trust_good w" using assms(1) by (simp add: u_def trust_good_def)
  have "data_st t = data_st w"
    using run body keepsD [OF p4_failed_data [of "data_st w" "coord w" lib] _, of w]
    by (cases q) (auto simp: try_except_def)
  then show ?thesis using w by (simp add: trust_good_def)
qed

lemma loop_turn_trusted:
  assumes "loop_turn L lib s = (q, u)" and "active_good s" and "session_active s"
  shows "trusted_store (data_st u)"
  using assms(1)
proof (cases rule: loop_turn_cases)
  case (p4 msg c q')
  have "trust_good (s\<lparr>rx := c\<rparr>)"
    using trust_good_active [OF assms(2,3)] by (simp add: trust_good_def)
  then show ?thesis by (rule p4_trusted) (rule p4(1))
next
  case (p5 msg c q')
  have "active_good (s\<lparr>rx := c\<rparr>)" using assms(2) by (simp add: active_good_def)
  from keepsD [OF keeps_good_p5 this p5(1)] show ?thesis by (simp add: active_good_def)
qed (use assms(2) in \<open>simp add: active_good_def\<close>)

lemma keeps_coord_turn: "keeps (\<lambda>s. coord s = e) (loop_turn L lib)"
  unfolding loop_turn_def p4_parts p5_parts
  by (intro keeps_intro keeps_modify msg.keeps_recv) (simp_all add: state_updates split: trust_event.splits)

lemma data_loop_good:
  "run_data_loop L lib s = (r, t) \<Longrightarrow> active_good s \<Longrightarrow>
   active_good t \<or> (\<exists>x. r = Inl x \<and> \<not> is_exception x)"
proof (induction L lib s rule: run_data_loop.induct)
  case (1 L lib s)
  show ?case
  proof (cases "session_active s")
    case True
    obtain q u where q: "loop_turn L lib s = (q, u)" by fastforce
    note turn = loop_turn_good [OF q "1.prems"(2) True]
    show ?thesis
    proof (cases "q = Inr False")
      case False
      then show ?thesis using "1.prems"(1) True q turn
        by (cases q) (auto simp: run_data_loop.simps [of L lib s] exc_class_defs split: if_splits)
    next
      case f: True
      have "run_data_loop L lib u = (r, t)"
        using "1.prems"(1) True q f by (simp add: run_data_loop.simps [of L lib s])
      then show ?thesis using "1.IH" [OF True] q f turn by auto
    qed
  next
    case False
    then show ?thesis using "1.prems" by (simp add: run_data_loop.simps [of L lib s])
  qed
qed

section \<open>Runs of anomalies\<close>

text \<open>Without a security error, five anomalies in a row cost one step; fewer cost nothing.\<close>

fun penalties :: "nat \<Rightarrow> trust_event list \<Rightarrow> nat" where
  "penalties n [] = 0"
| "penalties n (SensorAnomaly # es) = (if n + 1 = 5 then Suc (penalties 0 es) else penalties (n + 1) es)"
| "penalties n (e # es) = penalties 0 es"

fun trust_level :: "nat \<Rightarrow> pyfloat" where
  "trust_level 0 = TRUST_START"
| "trust_level (Suc 0) = TRUST_MID"
| "trust_level (Suc (Suc n)) = Fin 0"

lemma trust_level_Suc: "pymax (Fin 0) (fsub (trust_level k) (fl (40 / 100))) = trust_level (Suc k)"
  using trust_steps by (cases k rule: trust_level.cases) (simp_all del: divide_numeral_1)

lemma trust_fold:
  assumes "SecurityError \<notin> set es" and "trust_score s = trust_level k" and "consecutive_anomalies s < 5"
  shows "trust_score (fold update_trust es s) = trust_level (k + penalties (consecutive_anomalies s) es)"
  using assms
proof (induction es arbitrary: s k)
  case (Cons e es)
  show ?case
  proof (cases e)
    case SensorAnomaly
    show ?thesis
    proof (cases "consecutive_anomalies s = 4")
      case True
      then have "trust_score (update_trust e s) = trust_level (Suc k)" "consecutive_anomalies (update_trust e s) = 0"
        using Cons.prems trust_level_Suc [of k]
        by (simp_all add: SensorAnomaly update_trust_def note_trust_def V_BUS_ANOMALY_WINDOW_def)
      then show ?thesis using Cons.IH [of "update_trust e s" "Suc k"] Cons.prems(1) True
        by (simp add: SensorAnomaly)
    next
      case False
      then have "trust_score (update_trust e s) = trust_level k"
        "consecutive_anomalies (update_trust e s) = consecutive_anomalies s + 1"
        using Cons.prems by (simp_all add: SensorAnomaly update_trust_def V_BUS_ANOMALY_WINDOW_def)
      then show ?thesis using Cons.IH [of "update_trust e s" k] Cons.prems False
        by (simp add: SensorAnomaly)
    qed
  next
    case SensorOk
    then show ?thesis using Cons.IH [of "update_trust e s" k] Cons.prems
      by (simp add: update_trust_def)
  qed (use Cons.prems in simp)
qed simp

end
