(* ===== verification/Handshake_Laws.thy ===== *)
theory Handshake_Laws
  imports Trust_Laws
begin

text \<open>
  What the responder's P2 and P3 establish when they return true, how P2 treats an unknown node,
  and that no exception escapes from \<open>NodeSession.run\<close>.
\<close>

section \<open>P2\<close>

lemma phase_failed_False: "phase_failed tag reply lib e s = (Inr b, t) \<Longrightarrow> \<not> b"
  by (auto simp: phase_failed_def seq_eq_Inr_iff split: if_splits)

lemma try_phase_True:
  assumes "try_except m (phase_failed tag reply lib) s = (Inr True, t)"
  shows "m s = (Inr True, t)"
  using assms phase_failed_False by (fastforce simp: try_except_def split: prod.splits sum.splits)

lemma run_p2_True:
  assumes "run_p2 lib msg s = (Inr True, t)"
  shows "\<exists>id_a en h salt shs_a a_gen shs_b f.
    get_item ''ID_A'' msg = Inr (PBytes id_a) \<and> get_item ''ShS_A'' msg = Inr (PBytes shs_a)
    \<and> get_item ''A_GEN_bl'' msg = Inr (PBytes a_gen)
    \<and> map_of (registry s) (hexlify id_a) = Some en \<and> entry_salt en = Some h \<and> unhexlify h = Inr salt
    \<and> hkdf salt (server_key s) [] 32 = Inr shs_b
    \<and> peer_id t = Some id_a \<and> ShS_AB t = Some (h_sha256 (shs_a @ shs_b))
    \<and> PRV_bl t = Some (h_sha256 (a_gen @ h_sha256 (salt @ server_id s)))
    \<and> pack_payload [(''type'', PStr ''rot_ack''), (''ShS_B'', PBytes shs_b),
        (''B_GEN_bl'', PBytes (h_sha256 (salt @ server_id s))), (''ID_B'', PBytes (server_id s))] = Inr f
    \<and> tx t = tx s @ [f] \<and> rx t = rx s \<and> session_active t = session_active s
    \<and> node_label t = (case entry_label en of None \<Rightarrow> take 8 (hexlify id_a) | Some l \<Rightarrow> l)"
proof -
  define u where "u = s\<lparr>tick_pos := Suc (tick_pos s)\<rparr>"
  have body: "p2_body msg (ticks s (tick_pos s)) u = (Inr True, t)"
    using assms by (auto simp: run_p2_def bnd_def perf_counter_eq u_def dest: try_phase_True)
  obtain id_a shs a_gen where get: "get_item ''ID_A'' msg = Inr (PBytes id_a)"
    "get_item ''ShS_A'' msg = Inr shs" "get_item ''A_GEN_bl'' msg = Inr a_gen"
    using body by (auto simp: p2_body_def bnd_eq_Inr_iff)
  obtain en where en: "map_of (registry s) (hexlify id_a) = Some en"
    using body get by (cases "map_of (registry s) (hexlify id_a)")
      (auto simp: p2_body_def Let_def u_def seq_eq_Inr_iff)
  define label where "label = (case entry_label en of None \<Rightarrow> take 8 (hexlify id_a) | Some l \<Rightarrow> l)"
  obtain h salt where h: "entry_salt en = Some h" "unhexlify h = Inr salt"
    using body get en by (cases "entry_salt en") (auto simp: p2_body_def Let_def u_def bnd_eq_Inr_iff)
  show ?thesis
    using body get en h
    by (auto simp: p2_body_def bnd_eq_Inr_iff seq_eq_Inr_iff Let_def perf_counter_eq u_def DIGEST_SIZE_def
        simp flip: label_def dest!: send_msg_Inr)
qed

text \<open>An identity that is not registered gets one error frame and leaves no key material.\<close>

lemma run_p2_unknown_node:
  assumes "get_item ''ID_A'' msg = Inr (PBytes id_a)" and "get_item ''ShS_A'' msg = Inr x"
    and "get_item ''A_GEN_bl'' msg = Inr y" and "map_of (registry s) (hexlify id_a) = None"
  shows "\<exists>t. run_p2 lib msg s = (Inr False, t) \<and> ShS_AB t = ShS_AB s \<and> PRV_bl t = PRV_bl s
    \<and> peer_id t = peer_id s \<and> session_active t = session_active s"
proof -
  define u where "u = s\<lparr>tick_pos := Suc (tick_pos s)\<rparr>"
  define m where "m = send_error (''Unknown node ID: '' @ hexlify id_a)"
  obtain v where v: "m u = (Inr (), v)" using send_error_returns unfolding m_def by blast
  obtain a b where ab: "v = u\<lparr>tx := a, tx_left := b\<rparr>"
    using send_error_only_sends v unfolding m_def by blast
  have "map_of (registry u) (hexlify id_a) = None" using assms(4) by (simp add: u_def)
  then have "p2_body msg t0 u = (Inr False, v)" for t0
    using assms(1-3) seq_Inr [of m, OF v, of "ret False"]
    unfolding p2_body_def Let_def m_def by simp
  then have "run_p2 lib msg s = (Inr False, v)"
    by (simp add: run_p2_def bnd_def perf_counter_eq try_except_def flip: u_def)
  then show ?thesis using ab by (intro exI [of _ v]) (simp add: u_def)
qed

section \<open>P3\<close>

lemma p3_check_Inr:
  assumes "p3_check L msg shs prv peer sid = Inr (rdn1, reg, pre, pre_rx)"
  shows "\<exists>cif k plain pid p. get_item ''INIT_cif'' msg = Inr (PBytes cif) \<and> shs = Some k \<and> peer = Some pid
    \<and> prv = Some p \<and> decrypt_gcm L cif k = Inr plain \<and> rdn1 = slice 32 48 plain
    \<and> reg = rdn1 @ drop 48 plain @ pid @ sid @ k \<and> pre = h_sha256 (p @ h_sha256 reg)
    \<and> pre = take 32 plain \<and> pre_rx = pre"
  using assms
  by (auto simp: p3_check_def rbind_Inr_iff need_def DIGEST_SIZE_def ID_SIZE_def Let_def
      split: option.splits if_splits)

lemma p3_conf_Inr:
  assumes "p3_conf L key sesid rdn1 rdn2 msg = Inr u"
  shows "\<exists>c. get_or ''type'' PNone msg = Inr (PStr ''ses_conf'') \<and> get_item ''CONF_cif'' msg = Inr (PBytes c)
    \<and> decrypt_gcm L c key = Inr (h_sha256 (key @ sesid @ rdn1 @ rdn2))"
  using assms by (auto simp: p3_conf_def rbind_Inr_iff Let_def split: if_splits)

lemma p3_reply_Inr:
  assumes "p3_reply L rdn1 reg pre pre_rx s = (Inr (sesid, rdn2, key), t)"
  shows "\<exists>k x y z pend. ShS_AB s = Some k \<and> length sesid = 16 \<and> length rdn2 = 16 \<and> key = h_sha256 (rdn2 @ k)
    \<and> t = s\<lparr>entropy_pos := x, p3_pending := pend, tx := y, tx_left := z\<rparr>"
proof -
  obtain i r u1 u2 where r: "urandom ID_SIZE s = (Inr i, u1)" "urandom ID_SIZE u1 = (Inr r, u2)"
    by (simp add: urandom_def)
  obtain x where u2: "u2 = s\<lparr>entropy_pos := x\<rparr>" and l: "length i = 16" "length r = 16"
    using urandom_only [OF r(1)] urandom_only [OF r(2)] by (auto simp: ID_SIZE_def)
  obtain k where k: "ShS_AB s = Some k"
    using assms r u2 by (cases "ShS_AB s") (auto simp: p3_reply_def bnd_Inr need_def bnd_def)
  have k2: "ShS_AB u2 = Some k" using k by (simp add: u2)
  obtain c u3 where c: "encrypt_gcm L (i @ r @ rdn1 @ pre_rx) k u2 = (Inr c, u3)"
    using assms r k2 by (auto simp: p3_reply_def bnd_Inr bnd_getr need_def Let_def bnd_eq_Inr_iff)
  obtain x' where u3: "u3 = s\<lparr>entropy_pos := x'\<rparr>" using encrypt_gcm_only [OF c] u2 by auto
  show ?thesis
    using assms r c l k k2
    by (auto simp: p3_reply_def bnd_Inr bnd_getr need_def Let_def u3 seq_eq_Inr_iff dest!: send_msg_Inr)
qed

lemma p3_finish_Inr:
  assumes "p3_finish L rdn1 pre sesid rdn2 key t0 s = (Inr b, t)"
  shows "\<exists>p conf. PRV_bl s = Some p \<and> p3_conf L key sesid rdn1 rdn2 conf = Inr ()
    \<and> SES_id t = Some sesid \<and> SES_key t = Some key \<and> PRV_bl t = Some (h_sha256 (p @ sesid @ pre))
    \<and> session_active t \<and> trust_score t = TRUST_START \<and> consecutive_anomalies t = 0
    \<and> data_st t = data_st s \<and> node_label t = node_label s \<and> server_id t = server_id s \<and> b"
proof -
  obtain conf u where r: "recv_msg s = (Inr conf, u)"
    using assms by (auto simp: p3_finish_def bnd_eq_Inr_iff)
  obtain c where u: "u = s\<lparr>rx := c\<rparr>" using msg.recv_only_rx [OF r] by blast
  obtain p where p: "PRV_bl s = Some p" "p3_conf L key sesid rdn1 rdn2 conf = Inr ()"
    using assms r u by (cases "PRV_bl s"; cases "p3_conf L key sesid rdn1 rdn2 conf")
      (auto simp: p3_finish_def bnd_Inr need_def bnd_def)
  show ?thesis
    using assms r p
    by (auto simp: p3_finish_def bnd_Inr bnd_getr need_def Let_def u seq_eq_Inr_iff perf_counter_eq
        bnd_eq_Inr_iff TRUST_START_def dest!: send_msg_Inr)
qed

lemma run_p3_True:
  assumes "run_p3 L lib msg s = (Inr True, t)"
  shows "\<exists>init plain shs pid prv rdn1 pre sesid rdn2 key conf c.
    get_item ''INIT_cif'' msg = Inr (PBytes init) \<and> ShS_AB s = Some shs \<and> peer_id s = Some pid
    \<and> PRV_bl s = Some prv \<and> decrypt_gcm L init shs = Inr plain \<and> rdn1 = slice 32 48 plain
    \<and> pre = h_sha256 (prv @ h_sha256 (rdn1 @ drop 48 plain @ pid @ server_id s @ shs)) \<and> pre = take 32 plain
    \<and> length sesid = 16 \<and> length rdn2 = 16 \<and> key = h_sha256 (rdn2 @ shs)
    \<and> get_or ''type'' PNone conf = Inr (PStr ''ses_conf'') \<and> get_item ''CONF_cif'' conf = Inr (PBytes c)
    \<and> decrypt_gcm L c key = Inr (h_sha256 (key @ sesid @ rdn1 @ rdn2))
    \<and> SES_id t = Some sesid \<and> SES_key t = Some key \<and> PRV_bl t = Some (h_sha256 (prv @ sesid @ pre))
    \<and> session_active t \<and> trust_score t = TRUST_START \<and> consecutive_anomalies t = 0
    \<and> data_st t = data_st s \<and> node_label t = node_label s \<and> server_id t = server_id s"
proof -
  define u where "u = s\<lparr>tick_pos := Suc (tick_pos s)\<rparr>"
  define t0 where "t0 = ticks s (tick_pos s)"
  have body: "p3_body L msg t0 u = (Inr True, t)"
    using assms by (auto simp: run_p3_def bnd_def perf_counter_eq u_def t0_def dest: try_phase_True)
  obtain rdn1 reg pre pre_rx sesid rdn2 key v where
    chk: "p3_check L msg (ShS_AB s) (PRV_bl s) (peer_id s) (server_id s) = Inr (rdn1, reg, pre, pre_rx)"
    and rep: "p3_reply L rdn1 reg pre pre_rx u = (Inr (sesid, rdn2, key), v)"
    and fin: "p3_finish L rdn1 pre sesid rdn2 key t0 v = (Inr True, t)"
    using body by (auto simp: p3_body_def bnd_eq_Inr_iff u_def)
  from p3_check_Inr [OF chk] obtain cif k plain pid p where
    c: "get_item ''INIT_cif'' msg = Inr (PBytes cif)" "ShS_AB s = Some k" "peer_id s = Some pid" "PRV_bl s = Some p"
    "decrypt_gcm L cif k = Inr plain" "rdn1 = slice 32 48 plain" "reg = rdn1 @ drop 48 plain @ pid @ server_id s @ k"
    "pre = h_sha256 (p @ h_sha256 reg)" "pre = take 32 plain" "pre_rx = pre" by blast
  have r: "length sesid = 16" "length rdn2 = 16" "key = h_sha256 (rdn2 @ k)" "PRV_bl v = Some p"
    "data_st v = data_st s" "node_label v = node_label s" "server_id v = server_id s"
    using p3_reply_Inr [OF rep] c by (auto simp: u_def)
  from p3_finish_Inr [OF fin] r(4-) obtain conf where
    st: "p3_conf L key sesid rdn1 rdn2 conf = Inr ()"
      "SES_id t = Some sesid" "SES_key t = Some key" "PRV_bl t = Some (h_sha256 (p @ sesid @ pre))"
      "session_active t" "trust_score t = TRUST_START" "consecutive_anomalies t = 0"
      "data_st t = data_st s" "node_label t = node_label s" "server_id t = server_id s" by auto
  from p3_conf_Inr [OF st(1)] obtain cc where "get_or ''type'' PNone conf = Inr (PStr ''ses_conf'')"
    "get_item ''CONF_cif'' conf = Inr (PBytes cc)"
    "decrypt_gcm L cc key = Inr (h_sha256 (key @ sesid @ rdn1 @ rdn2))" by blast
  then show ?thesis using c(1-6) c(8) [unfolded c(7)] c(9) r(1-3) st(2-) by blast
qed

section \<open>The runner\<close>

lemma run_session_escapes:
  "run_session L lib s = (r, t) \<Longrightarrow> r = Inr () \<or> (\<exists>e. r = Inl e \<and> \<not> is_exception e)"
  by (auto simp: run_session_def try_except_def split: prod.splits sum.splits if_splits)

end
