(* ===== verification/Session_Props.thy ===== *)
theory Session_Props
  imports Handshake_Laws
begin

text \<open>
  The properties of the responder that concern one session, over the lemmas of the three theories
  before, with the states at which the witnesses apply them.
\<close>

section \<open>States for the witnesses\<close>

definition demo_session :: node_session where
  "demo_session = (new_session blank_io [] (replicate 16 1) (replicate 32 2) (new_store 5) new_ems)
     \<lparr>PRV_bl := Some (replicate 32 3), SES_id := Some (replicate 16 4), SES_key := Some (replicate 32 5),
      session_active := True, trust_score := TRUST_START\<rparr>"

lemma demo_session_simps [simp]:
  "PRV_bl demo_session = Some (replicate 32 3)" "SES_id demo_session = Some (replicate 16 4)"
  "SES_key demo_session = Some (replicate 32 5)" "session_active demo_session"
  "trust_score demo_session = TRUST_START" "server_id demo_session = replicate 16 1"
  "node_label demo_session = ''unknown''" "audit_chain demo_session = []"
  "consecutive_anomalies demo_session = 0" "data_st demo_session = new_store 5" "registry demo_session = []"
  by (simp_all add: demo_session_def new_session_def io.extend_def)

section \<open>Properties of the audit chain\<close>

text \<open>
  C2: the audit log is tamper-evident. If two data phases of the same session (whatever was
  received, from whatever states) end with the same chain head after the same number of log entries,
  then the logs commit the same blocks (sensor register, time stamp, number, node identity and node
  contribution of every message) from the same starting head, or two different inputs that the two
  runs hashed have the same SHA-256 digest.
\<close>

theorem chain_tamper_evident:
  assumes "SES_id s = Some si" and "SES_key s = Some key" and "PRV_bl s = Some g"
    and "SES_id s' = Some si" and "SES_key s' = Some key" and "PRV_bl s' = Some g'"
    and "server_id s' = server_id s" and "short (server_id s)" and "short si"
    and "run_data_loop L lib s = (r, t)" and "run_data_loop L' lib' s' = (r', t')"
    and "PRV_bl t = PRV_bl t'"
    and "length (audit_chain t) - length (audit_chain s) = length (audit_chain t') - length (audit_chain s')"
  shows "\<exists>bs bs'.
    audit_chain t = audit_chain s @ log_of (server_id s) si key (node_label s) (length (audit_chain s)) g bs
    \<and> audit_chain t' = audit_chain s'
        @ log_of (server_id s) si key (node_label s') (length (audit_chain s')) g' bs'
    \<and> (bs = bs' \<and> g = g'
       \<or> clash (chain_inputs (server_id s) si key g bs) (chain_inputs (server_id s) si key g' bs'))"
proof -
  have "logged (server_id s) si key (node_label s) s t"
    by (rule data_loop_logged [OF assms(10)]) (simp add: fixed_part_def assms)
  then obtain bs where bs: "\<forall>b \<in> set bs. block_ok b" "PRV_bl t = Some (chain_head (server_id s) si key g bs)"
    "audit_chain t = audit_chain s @ log_of (server_id s) si key (node_label s) (length (audit_chain s)) g bs"
    using assms(3) by (auto simp: logged_def)
  have "logged (server_id s) si key (node_label s') s' t'"
    by (rule data_loop_logged [OF assms(11)]) (simp add: fixed_part_def assms)
  then obtain bs' where bs': "\<forall>b \<in> set bs'. block_ok b"
    "PRV_bl t' = Some (chain_head (server_id s) si key g' bs')"
    "audit_chain t' = audit_chain s' @ log_of (server_id s) si key (node_label s') (length (audit_chain s')) g' bs'"
    using assms(6) by (auto simp: logged_def)
  have len: "length bs = length bs'" using assms(13) bs(3) bs'(3) by simp
  have "chain_head (server_id s) si key g bs = chain_head (server_id s) si key g' bs'"
    using assms(12) bs(2) bs'(2) by simp
  from chain_head_inj [OF this len bs(1) bs'(1) assms(8,9)] bs(3) bs'(3) show ?thesis by blast
qed

lemma chain_tamper_evident_witness:
  "\<exists>bs bs'.
    audit_chain (snd (run_data_loop ref_lib (\<lambda>_. ''error'') demo_session)) = audit_chain demo_session
      @ log_of (server_id demo_session) (replicate 16 4) (replicate 32 5) (node_label demo_session)
          (length (audit_chain demo_session)) (replicate 32 3) bs
    \<and> audit_chain (snd (run_data_loop ref_lib (\<lambda>_. ''error'') demo_session)) = audit_chain demo_session
        @ log_of (server_id demo_session) (replicate 16 4) (replicate 32 5) (node_label demo_session)
            (length (audit_chain demo_session)) (replicate 32 3) bs'
    \<and> (bs = bs' \<and> replicate 32 (3 :: byte) = replicate 32 3
       \<or> clash (chain_inputs (server_id demo_session) (replicate 16 4) (replicate 32 5) (replicate 32 3) bs)
           (chain_inputs (server_id demo_session) (replicate 16 4) (replicate 32 5) (replicate 32 3) bs'))"
  by (rule chain_tamper_evident [OF _ _ _ _ _ _ refl _ _ surjective_pairing surjective_pairing refl refl])
    simp_all

text \<open>
  C3: P4 accepts a message only if it is chained. Whatever arrives, either the decrypted message
  is a register whose predecessor hash is the one computed from the current head, and then head
  and log advance by exactly that block; or head, log, data store and coordinator are unchanged
  and the handler, if it returns, leaves the session inactive.
\<close>

theorem p4_accepts_only_chained:
  "case handle_p4 L lib msg s of (r, t) \<Rightarrow>
     (\<exists>cif prv si key blk rest. get_item ''MSG_cif'' msg = Inr (PBytes cif)
        \<and> PRV_bl s = Some prv \<and> SES_id s = Some si \<and> SES_key s = Some key \<and> block_ok blk
        \<and> decrypt_gcm L cif key = Inr (tlv_bytes [b_smg blk, b_ts blk, be_bytes 4 (b_num blk), b_id blk,
            block_preg (server_id s) si prv blk, b_areg blk] @ rest)
        \<and> PRV_bl t = Some (chain_next (server_id s) si key prv blk)
        \<and> audit_chain t = audit_chain s @ [entry_of (length (audit_chain s)) (node_label s) blk
            (chain_next (server_id s) si key prv blk)])
     \<or> PRV_bl t = PRV_bl s \<and> audit_chain t = audit_chain s \<and> data_st t = data_st s \<and> coord t = coord s
       \<and> (case r of Inl e \<Rightarrow> True | Inr u \<Rightarrow> \<not> session_active t)"
proof -
  obtain r t where run: "handle_p4 L lib msg s = (r, t)" by fastforce
  from handle_p4_step [OF run] show ?thesis
  proof (elim disjE)
    assume "PRV_bl t = PRV_bl s \<and> audit_chain t = audit_chain s \<and> data_st t = data_st s \<and> coord t = coord s
      \<and> (r = Inr () \<longrightarrow> \<not> session_active t)"
    then show ?thesis unfolding run by (cases r) simp_all
  qed (unfold run prod.case, blast)
qed

text \<open>
  C5: over the whole data phase the log and the head are those of a list of well-formed blocks:
  whatever is received, after the loop there are blocks such that the head is their chain head from
  the head at the start and the log has grown by exactly their entries.
\<close>

theorem data_phase_log:
  assumes "SES_id s = Some si" and "SES_key s = Some key" and "PRV_bl s = Some g"
  shows "case run_data_loop L lib s of (r, t) \<Rightarrow>
    \<exists>bs. (\<forall>b \<in> set bs. block_ok b) \<and> PRV_bl t = Some (chain_head (server_id s) si key g bs)
      \<and> audit_chain t = audit_chain s
          @ log_of (server_id s) si key (node_label s) (length (audit_chain s)) g bs"
proof -
  obtain r t where run: "run_data_loop L lib s = (r, t)" by fastforce
  have "logged (server_id s) si key (node_label s) s t"
    by (rule data_loop_logged [OF run]) (simp add: fixed_part_def assms)
  then show ?thesis using assms(3) unfolding run logged_def by simp
qed

lemma data_phase_log_witness:
  "case run_data_loop ref_lib (\<lambda>_. ''error'') demo_session of (r, t) \<Rightarrow>
    \<exists>bs. (\<forall>b \<in> set bs. block_ok b)
      \<and> PRV_bl t = Some (chain_head (server_id demo_session) (replicate 16 4) (replicate 32 5) (replicate 32 3) bs)
      \<and> audit_chain t = audit_chain demo_session @ log_of (server_id demo_session) (replicate 16 4) (replicate 32 5)
          (node_label demo_session) (length (audit_chain demo_session)) (replicate 32 3) bs"
  by (rule data_phase_log) simp_all

section \<open>Properties of the trust score\<close>

text \<open>
  C6: throughout the data phase an active session has trust 0.8 or 0.4 (as floats) and fewer than
  five pending anomalies, and every reading the session records carries a trust score of 0.8, 0.4
  or 0: whatever arrives, the loop ends in such a state, or an exception that is no \<open>Exception\<close>
  escaped from the cryptography package.
\<close>

theorem data_phase_trust:
  assumes "active_good s"
  shows "case run_data_loop L lib s of (r, t) \<Rightarrow> active_good t \<or> (\<exists>e. r = Inl e \<and> \<not> is_exception e)"
proof -
  obtain r t where run: "run_data_loop L lib s = (r, t)" by fastforce
  show ?thesis using data_loop_good [OF run assms] unfolding run by simp
qed

lemma data_phase_trust_witness:
  "case run_data_loop ref_lib (\<lambda>_. ''error'') demo_session of
     (r, t) \<Rightarrow> active_good t \<or> (\<exists>e. r = Inl e \<and> \<not> is_exception e)"
  by (rule data_phase_trust)
    (simp add: active_good_def trusted_store_def new_store_def V_BUS_ANOMALY_WINDOW_def)

text \<open>
  C13: what sensor events do to the trust of an authenticated session. Every fifth anomaly in a
  row costs one level (0.8, 0.4, 0), any normal reading in between starts the count again, and the
  score is below the threshold that closes the connection exactly from the second penalty on.
\<close>

theorem anomaly_windows:
  assumes "SecurityError \<notin> set es" and "trust_score s = TRUST_START" and "consecutive_anomalies s = 0"
  shows "trust_score (fold update_trust es s) = trust_level (penalties 0 es)
    \<and> flt (trust_score (fold update_trust es s)) TRUST_DROP_THRESHOLD = (2 \<le> penalties 0 es)"
proof -
  have "trust_score (fold update_trust es s) = trust_level (penalties 0 es)"
    using trust_fold [of es s 0] assms by simp
  moreover have "flt (trust_level k) TRUST_DROP_THRESHOLD = (2 \<le> k)" for k
    by (cases k rule: trust_level.cases) (simp_all add: trust_below)
  ultimately show ?thesis by simp
qed

lemma anomaly_windows_witness:
  "trust_score (fold update_trust (replicate 10 SensorAnomaly) demo_session) = trust_level 2
   \<and> flt (trust_score (fold update_trust (replicate 10 SensorAnomaly) demo_session)) TRUST_DROP_THRESHOLD"
proof -
  have "penalties 0 (replicate 10 SensorAnomaly) = 2" by code_simp
  moreover have "SecurityError \<notin> set (replicate 10 SensorAnomaly)" by simp
  ultimately show ?thesis
    using anomaly_windows [of "replicate 10 SensorAnomaly" demo_session]
    by (metis demo_session_simps(5) demo_session_simps(9) order_refl)
qed

text \<open>
  C18: a data message that fails verification closes the session. The score drops by 0.3, the
  session is inactive, the data store is unchanged, and if the score is then below the threshold the
  socket is closed.
\<close>

theorem p4_rejection_ends_session:
  assumes "p4_verify L msg (server_id s) (PRV_bl s) (SES_id s) (SES_key s) = Inl e" and "is_exception e"
  shows "\<exists>t. handle_p4 L lib msg s = (Inr (), t) \<and> \<not> session_active t \<and> data_st t = data_st s
    \<and> trust_score t = pymax (Fin 0) (fsub (trust_score s) (fl (30 / 100)))
    \<and> (if flt (trust_score t) TRUST_DROP_THRESHOLD then sock_closed t else True)"
proof -
  define u where "u = s\<lparr>tick_pos := Suc (tick_pos s)\<rparr>"
  have "p4_body L msg t0 u = (Inl e, u)" for t0
    using assms(1) by (simp add: p4_body_cases u_def)
  then have "handle_p4 L lib msg s = p4_failed lib e u"
    by (simp add: handle_p4_def bnd_def perf_counter_eq try_except_def flip: u_def)
  with p4_failed_run [OF assms(2), of lib u] show ?thesis by (auto simp: u_def)
qed

lemma p4_rejection_ends_session_witness:
  "\<exists>t. handle_p4 ref_lib (\<lambda>_. ''error'') (PDict []) demo_session = (Inr (), t) \<and> \<not> session_active t
    \<and> data_st t = data_st demo_session
    \<and> trust_score t = pymax (Fin 0) (fsub (trust_score demo_session) (fl (30 / 100)))
    \<and> (if flt (trust_score t) TRUST_DROP_THRESHOLD then sock_closed t else True)"
  by (rule p4_rejection_ends_session [where e = "key_error ''MSG_cif''"])
    (simp_all add: p4_verify_def key_error_def is_exception_def)

section \<open>Properties of the handshake and of the runner\<close>

text \<open>
  C30: a node whose identity is not in the registry is refused: P2 returns false and neither a
  shared secret, nor a genesis block, nor a peer identity is stored.
\<close>

theorem p2_refuses_unknown_node:
  assumes "get_item ''ID_A'' msg = Inr (PBytes id_a)" and "get_item ''ShS_A'' msg = Inr x"
    and "get_item ''A_GEN_bl'' msg = Inr y" and "map_of (registry s) (hexlify id_a) = None"
  shows "\<exists>t. run_p2 lib msg s = (Inr False, t) \<and> ShS_AB t = ShS_AB s \<and> PRV_bl t = PRV_bl s
    \<and> peer_id t = peer_id s \<and> session_active t = session_active s"
  using assms by (rule run_p2_unknown_node)

lemma p2_refuses_unknown_node_witness:
  "\<exists>t. run_p2 (\<lambda>_. ''error'') (PDict [(''ID_A'', PBytes [1]), (''ShS_A'', PBytes []), (''A_GEN_bl'', PBytes [])])
      demo_session = (Inr False, t) \<and> ShS_AB t = ShS_AB demo_session \<and> PRV_bl t = PRV_bl demo_session
    \<and> peer_id t = peer_id demo_session \<and> session_active t = session_active demo_session"
  by (rule p2_refuses_unknown_node) simp_all

text \<open>
  C17: the session runner always ends, and lets no \<open>Exception\<close> escape: whatever the peer sends
  and however the stream ends, it returns normally unless the cryptography package raised something
  outside \<open>Exception\<close>.
\<close>

theorem session_lets_nothing_escape:
  "case run_session L lib s of (r, t) \<Rightarrow> r = Inr () \<or> (\<exists>e. r = Inl e \<and> \<not> is_exception e)"
proof -
  obtain r t where run: "run_session L lib s = (r, t)" by fastforce
  show ?thesis using run_session_escapes [OF run] unfolding run by simp
qed

end
