(* ===== verification/Pytext.thy ===== *)
theory Pytext
  imports Json
begin

text \<open>
  \<open>str(v)\<close> of the values that \<open>json.loads\<close> yields, which the sources interpolate into error
  texts with f-strings. Which code points beyond ASCII \<open>repr\<close> leaves unescaped is decided by
  the Unicode database of the interpreter; the predicate \<open>pr\<close> stands for it. Also the truth
  value and the length of a value.
\<close>

definition hex_digs :: "nat \<Rightarrow> nat \<Rightarrow> string" where
  \<comment> \<open>\<open>n\<close> in \<open>k\<close> hexadecimal digits\<close>
  "hex_digs k n = map (\<lambda>i. hex_digits ! (n div 16 ^ i mod 16)) (rev [0..<k])"

definition repr_cp :: "(nat \<Rightarrow> bool) \<Rightarrow> nat \<Rightarrow> nat \<Rightarrow> string" where
  \<comment> \<open>one code point inside a literal quoted with \<open>q\<close>\<close>
  "repr_cp pr q n =
     (if n = q \<or> n = 92 then [CHR 0x5C, char_of n]
      else if n = 9 then [CHR 0x5C, CHR ''t''] else if n = 10 then [CHR 0x5C, CHR ''n'']
      else if n = 13 then [CHR 0x5C, CHR ''r'']
      else if n < 32 \<or> n = 127 then [CHR 0x5C, CHR ''x''] @ hex_digs 2 n
      else if n < 127 then [char_of n]
      else if pr n then utf8_encode n
      else if n < 256 then [CHR 0x5C, CHR ''x''] @ hex_digs 2 n
      else if n < 65536 then [CHR 0x5C, CHR ''u''] @ hex_digs 4 n
      else [CHR 0x5C, CHR ''U''] @ hex_digs 8 n)"

definition quote_of :: "nat list \<Rightarrow> nat" where
  \<comment> \<open>single quotes, unless the text has one and no double quote\<close>
  "quote_of cps = (if 39 \<in> set cps \<and> 34 \<notin> set cps then 34 else 39)"

definition repr_str :: "(nat \<Rightarrow> bool) \<Rightarrow> string \<Rightarrow> string" where
  "repr_str pr s = (let cps = utf8_cps (map of_char s); q = quote_of cps
     in [char_of q] @ concat (map (repr_cp pr q) cps) @ [char_of q])"

definition repr_bytes :: "bytes \<Rightarrow> string" where
  "repr_bytes b = (let cps = map unat b; q = quote_of cps
     in ''b'' @ [char_of q] @ concat (map (repr_cp (\<lambda>_. False) q) cps) @ [char_of q])"

fun py_repr :: "(nat \<Rightarrow> bool) \<Rightarrow> pyval \<Rightarrow> string"
and repr_items :: "(nat \<Rightarrow> bool) \<Rightarrow> pyval list \<Rightarrow> string"
and repr_members :: "(nat \<Rightarrow> bool) \<Rightarrow> (string \<times> pyval) list \<Rightarrow> string" where
  "py_repr pr PNone = ''None''"
| "py_repr pr (PBool b) = (if b then ''True'' else ''False'')"
| "py_repr pr (PInt n) = int_str n"
| "py_repr pr (PFloat x) = float_repr x"
| "py_repr pr (PStr s) = repr_str pr s"
| "py_repr pr (PBytes b) = repr_bytes b"
| "py_repr pr (PList vs) = ''['' @ repr_items pr vs @ '']''"
| "py_repr pr (PDict d) = ''{'' @ repr_members pr d @ ''}''"
| "repr_items pr [] = []"
| "repr_items pr (v # vs) = py_repr pr v @ (if vs = [] then [] else '', '' @ repr_items pr vs)"
| "repr_members pr [] = []"
| "repr_members pr ((k, v) # d) = repr_str pr k @ '': '' @ py_repr pr v
     @ (if d = [] then [] else '', '' @ repr_members pr d)"

definition py_str :: "(nat \<Rightarrow> bool) \<Rightarrow> pyval \<Rightarrow> string" where
  "py_str pr v = (case v of PStr s \<Rightarrow> s | _ \<Rightarrow> py_repr pr v)"

section \<open>Truth and length\<close>

fun py_len :: "pyval \<Rightarrow> exc + nat" where
  "py_len (PStr s) = Inr (length (utf8_cps (map of_char s)))"
| "py_len (PBytes b) = Inr (length b)"
| "py_len (PList vs) = Inr (length vs)"
| "py_len (PDict d) = Inr (length d)"
| "py_len _ = Inl type_error"

fun py_true :: "pyval \<Rightarrow> bool" where
  "py_true PNone = False"
| "py_true (PBool b) = b"
| "py_true (PInt n) = (n \<noteq> 0)"
| "py_true (PFloat x) = (x \<noteq> Fin 0)"
| "py_true (PStr s) = (s \<noteq> [])"
| "py_true (PBytes b) = (b \<noteq> [])"
| "py_true (PList vs) = (vs \<noteq> [])"
| "py_true (PDict d) = (d \<noteq> [])"

lemma py_str_PStr [simp]: "py_str pr (PStr s) = s"
  and py_str_PNone [simp]: "py_str pr PNone = ''None''"
  by (simp_all add: py_str_def)

lemma py_str_example:
  "py_str (\<lambda>_. False) (PDict [(''k'', PList [PInt (-7), PNone, PStr [CHR 0x27, CHR 0x0A]])])
   = ''{'' @ [CHR 0x27] @ ''k'' @ [CHR 0x27] @ '': [-7, None, '' @ [CHR 0x22, CHR 0x27, CHR 0x5C]
     @ ''n'' @ [CHR 0x22] @ '']}''"
  by code_simp

end
