(* ===== verification/Rot_Service.thy ===== *)
theory Rot_Service
  imports Pytext Protocol Cryptolib
begin

text \<open>
  \<open>smg_primary_server/rot_challenge_service.py\<close> and the client handler of \<open>puf_server.py\<close>:
  the PUF-based root of trust. \<open>RotSession\<close> answers one device: a three-message handshake in
  which the device signs the whole transcript and both sides derive a key, then a loop that
  opens AES-GCM messages. The state extends the surroundings \<open>io\<close> with the object's attributes;
  \<open>p3_log\<close> is what the service does with an opened message, which is to log it. Parameters:
  \<open>L\<close>, the cryptography package, and \<open>pr\<close>, the interpreter's Unicode table (see \<open>Pytext\<close>).
  A private key is made from 32 bytes of the operating system's randomness.
\<close>

definition ROT_ID_LEN :: nat where "ROT_ID_LEN = 16"
definition ROT_DIGEST_LEN :: nat where "ROT_DIGEST_LEN = 32"
definition ROT_PUBKEY_LEN :: nat where "ROT_PUBKEY_LEN = 65"
definition CHALLENGE_LEN :: nat where "CHALLENGE_LEN = 16"
definition GCM_NONCE_LEN :: nat where "GCM_NONCE_LEN = 12"
definition GCM_TAG_LEN :: nat where "GCM_TAG_LEN = 16"

definition DEVICE_PROOF_DOMAIN_TAG :: bytes where
  "DEVICE_PROOF_DOMAIN_TAG = str_bytes ''SMG-RoT-device-proof-v1''"

lemmas rot_size_defs = ROT_ID_LEN_def ROT_DIGEST_LEN_def ROT_PUBKEY_LEN_def CHALLENGE_LEN_def
  GCM_NONCE_LEN_def GCM_TAG_LEN_def

abbreviation protocol_error :: "string \<Rightarrow> exc" where
  "protocol_error m \<equiv> Raised ProtocolKind m"

section \<open>Wire framing\<close>

definition pack_json :: "payload \<Rightarrow> exc + bytes" where
  \<comment> \<open>the bytes \<open>send_json\<close> hands to the socket\<close>
  "pack_json obj =
     rbind (dumps (PDict obj)) (\<lambda>text.
     let body = str_bytes text in
     rbind (pack_I (int (length body))) (\<lambda>hdr. Inr (hdr @ body)))"

definition send_json :: "payload \<Rightarrow> ('z io_scheme, unit) py" where
  "send_json obj = bnd (lift (pack_json obj)) sock_sendall"

definition recv_exact :: "nat \<Rightarrow> ('z io_scheme, bytes) py" where
  "recv_exact n = recv_loop ''connection closed during recv'' n []"

definition json_bad_len :: "int \<Rightarrow> exc" where
  "json_bad_len n = protocol_error (''invalid message length: '' @ int_str n)"

definition parse_json :: "bytes \<Rightarrow> exc + pyval" where
  "parse_json body = rbind (utf8_decode body) loads"

definition recv_json :: "('z io_scheme, pyval) py" where
  "recv_json =
     bnd (recv_exact 4) (\<lambda>hdr.
     let len = be_int hdr in
     if len = 0 \<or> 65536 < len then raise (json_bad_len len)
     else bnd (recv_exact (nat len)) (\<lambda>body. lift (parse_json body)))"

definition hex_to_bin :: "pyval \<Rightarrow> nat \<Rightarrow> exc + bytes" where
  "hex_to_bin v expected_len =
     rbind (as_str v) (\<lambda>s. rbind (fromhex s) (\<lambda>b.
     if length b \<noteq> expected_len
     then Inl (protocol_error (''expected '' @ int_str (int expected_len) @ '' bytes, got ''
       @ int_str (int (length b))))
     else Inr b))"

section \<open>Identity and registry\<close>

text \<open>The file system is a map from paths to the texts of the files.\<close>

type_synonym files = "string \<Rightarrow> string option"

definition read_json :: "files \<Rightarrow> string \<Rightarrow> exc + pyval" where
  \<comment> \<open>\<open>with open(path) as f: json.load(f)\<close>\<close>
  "read_json fs path = (case fs path of None \<Rightarrow> Inl (LibRaised FileNotFoundKind) | Some text \<Rightarrow> loads text)"

definition load_server_identity :: "files \<Rightarrow> string \<Rightarrow> exc + bytes" where
  "load_server_identity fs path =
     rbind (read_json fs path) (\<lambda>data.
     rbind (get_item ''id_b'' data) (\<lambda>v. hex_to_bin v ROT_ID_LEN))"

definition load_node_registry :: "files \<Rightarrow> string \<Rightarrow> exc + pyval" where
  "load_node_registry fs path = (if fs path = None then Inr (PDict []) else read_json fs path)"

section \<open>Data messages\<close>

definition decrypt_data_message :: "cryptolib \<Rightarrow> pyval \<Rightarrow> bytes \<Rightarrow> exc + bytes" where
  "decrypt_data_message L msg key =
     rbind (rbind (get_item ''nonce'' msg) (\<lambda>v. hex_to_bin v GCM_NONCE_LEN)) (\<lambda>nonce.
     rbind (rbind (rbind (get_item ''ciphertext'' msg) as_str) fromhex) (\<lambda>ciphertext.
     rbind (rbind (get_item ''tag'' msg) (\<lambda>v. hex_to_bin v GCM_TAG_LEN)) (\<lambda>tag.
     aes_decrypt L key nonce (ciphertext @ tag))))"

definition encrypt_data_message :: "cryptolib \<Rightarrow> bytes \<Rightarrow> bytes \<Rightarrow> ('z io_scheme, payload) py" where
  "encrypt_data_message L plaintext key =
     bnd (urandom GCM_NONCE_LEN) (\<lambda>nonce.
     bnd (lift (aes_encrypt L key nonce plaintext)) (\<lambda>ct_and_tag.
     let ciphertext = slice_neg_stop 0 GCM_TAG_LEN ct_and_tag;
         tag = slice_neg_start GCM_TAG_LEN ct_and_tag
     in ret [(''type'', PStr ''data''), (''nonce'', PStr (hexlify nonce)),
             (''ciphertext'', PStr (hexlify ciphertext)), (''tag'', PStr (hexlify tag))]))"

section \<open>The session\<close>

record rot_session = io +
  id_b :: bytes
  puf_registry :: pyval
  key_ab :: "bytes option"
  rot_label :: pyval
  authenticated :: bool
  p3_log :: "bytes list"

type_synonym 'a rot = "(rot_session, 'a) py"

definition new_rot_session :: "io \<Rightarrow> bytes \<Rightarrow> pyval \<Rightarrow> rot_session" where
  "new_rot_session conn idb reg = io.extend conn
     \<lparr>id_b = idb, puf_registry = reg, key_ab = None, rot_label = PStr ''unknown'',
      authenticated = False, p3_log = []\<rparr>"

definition rot_send_error :: "string \<Rightarrow> unit rot" where
  "rot_send_error message = try_except (send_json [(''type'', PStr ''error''), (''error'', PStr message)])
     (\<lambda>e. if is_exception e then ret () else raise e)"

definition refuse :: "string \<Rightarrow> bool rot" where
  \<comment> \<open>\<open>self._send_error(...); return False\<close>\<close>
  "refuse message = seq (rot_send_error message) (ret False)"

definition server_proof_of :: "bytes \<Rightarrow> bytes \<Rightarrow> bytes \<Rightarrow> bytes" where
  "server_proof_of shs_b challenge_a eph_pk_b = sha256 (shs_b @ challenge_a @ eph_pk_b)"

definition transcript ::
  "bytes \<Rightarrow> bytes \<Rightarrow> bytes \<Rightarrow> bytes \<Rightarrow> bytes \<Rightarrow> bytes \<Rightarrow> bytes \<Rightarrow> bytes" where
  \<comment> \<open>what the device signs the digest of\<close>
  "transcript ida idb challenge_b challenge_a eph_pk_a eph_pk_b server_proof =
     DEVICE_PROOF_DOMAIN_TAG @ ida @ idb @ challenge_b @ challenge_a @ eph_pk_a @ eph_pk_b @ server_proof"

definition rot_key :: "bytes \<Rightarrow> bytes \<Rightarrow> bytes \<Rightarrow> bytes \<Rightarrow> bytes" where
  "rot_key shared_secret shs_b challenge_a challenge_b =
     sha256 (shared_secret @ shs_b @ challenge_a @ challenge_b)"

definition challenge_msg :: "bytes \<Rightarrow> bytes \<Rightarrow> bytes \<Rightarrow> bytes \<Rightarrow> payload" where
  "challenge_msg idb challenge_b eph_pk_b server_proof =
     [(''type'', PStr ''challenge''), (''id_b'', PStr (hexlify idb)),
      (''challenge_b'', PStr (hexlify challenge_b)), (''eph_pk_b'', PStr (hexlify eph_pk_b)),
      (''server_proof'', PStr (hexlify server_proof))]"

text \<open>The challenge that is sent, after the device has been looked up.\<close>

definition rot_challenge ::
  "cryptolib \<Rightarrow> bytes \<Rightarrow> bytes \<Rightarrow> (bytes \<times> bytes \<times> bytes \<times> bytes) rot" where
  "rot_challenge L shs_b challenge_a =
     bnd (urandom CHALLENGE_LEN) (\<lambda>challenge_b.
     bnd (urandom 32) (\<lambda>eph_sk_b.
     let eph_pk_b = ec_public L eph_sk_b;
         server_proof = server_proof_of shs_b challenge_a eph_pk_b in
     bnd (gets id_b) (\<lambda>idb.
     seq (send_json (challenge_msg idb challenge_b eph_pk_b server_proof))
     (ret (challenge_b, eph_sk_b, eph_pk_b, server_proof)))))"

text \<open>The device's response, verified against its registered key.\<close>

definition rot_response ::
  "cryptolib \<Rightarrow> (nat \<Rightarrow> bool) \<Rightarrow> bytes \<Rightarrow> bytes \<Rightarrow> bytes \<Rightarrow> bytes
   \<Rightarrow> bytes \<times> bytes \<times> bytes \<times> bytes \<Rightarrow> bool rot" where
  "rot_response L pr ida challenge_a pk_a shs_b = (\<lambda>(challenge_b, eph_sk_b, eph_pk_b, server_proof).
     bnd recv_json (\<lambda>resp.
     bnd (lift (get_or ''type'' PNone resp)) (\<lambda>ty.
     if ty \<noteq> PStr ''response'' then refuse (''expected response, got: '' @ py_str pr ty)
     else
     bnd (lift (rbind (get_item ''eph_pk_a'' resp) (\<lambda>v. hex_to_bin v ROT_PUBKEY_LEN))) (\<lambda>eph_pk_a.
     bnd (lift (rbind (rbind (get_item ''device_proof'' resp) as_str) fromhex)) (\<lambda>device_proof.
     if \<not> ec_point_ok L eph_pk_a then refuse ''malformed ephemeral public key''
     else bnd (gets id_b) (\<lambda>idb.
     let msg_hash = sha256 (transcript ida idb challenge_b challenge_a eph_pk_a eph_pk_b server_proof) in
     if \<not> ec_verify L pk_a device_proof msg_hash then refuse ''device authentication failed''
     else
     seq (modify (\<lambda>s. s\<lparr>key_ab := Some (rot_key (ecdh L eph_sk_b eph_pk_a) shs_b challenge_a challenge_b)\<rparr>))
     (seq (modify (\<lambda>s. s\<lparr>authenticated := True\<rparr>))
     (seq (send_json [(''type'', PStr ''session_ack'')])
     (ret True)))))))))"

definition rot_handshake :: "cryptolib \<Rightarrow> (nat \<Rightarrow> bool) \<Rightarrow> bool rot" where
  "rot_handshake L pr =
     bnd recv_json (\<lambda>hello.
     bnd (lift (get_or ''type'' PNone hello)) (\<lambda>ty.
     if ty \<noteq> PStr ''hello'' then refuse (''expected hello, got: '' @ py_str pr ty)
     else
     bnd (lift (rbind (get_item ''id_a'' hello) (\<lambda>v. hex_to_bin v ROT_ID_LEN))) (\<lambda>ida.
     bnd (lift (rbind (get_item ''challenge_a'' hello) (\<lambda>v. hex_to_bin v CHALLENGE_LEN))) (\<lambda>challenge_a.
     bnd (getr (\<lambda>s. get_or (hexlify ida) PNone (puf_registry s))) (\<lambda>entry.
     if entry = PNone then refuse ''unknown device id_a''
     else
     bnd (lift (rbind (get_item ''pk_a'' entry) (\<lambda>v. hex_to_bin v ROT_PUBKEY_LEN))) (\<lambda>pk_a.
     bnd (lift (rbind (get_item ''shs_b'' entry) (\<lambda>v. hex_to_bin v ROT_DIGEST_LEN))) (\<lambda>shs_b.
     bnd (lift (get_or ''label'' (PStr (take 8 (hexlify ida))) entry)) (\<lambda>label.
     seq (modify (\<lambda>s. s\<lparr>rot_label := label\<rparr>))
     (if \<not> ec_point_ok L pk_a then refuse ''malformed registered public key''
      else bnd (rot_challenge L shs_b challenge_a) (rot_response L pr ida challenge_a pk_a shs_b))))))))))"

section \<open>The data phase\<close>

definition rot_data_msg :: "cryptolib \<Rightarrow> pyval \<Rightarrow> unit rot" where
  "rot_data_msg L msg =
     bnd (lift (get_or ''type'' PNone msg)) (\<lambda>ty.
     if ty \<noteq> PStr ''data'' then ret ()
     else try_else
       (getr (\<lambda>s. case key_ab s of None \<Rightarrow> Inl type_error | Some k \<Rightarrow> decrypt_data_message L msg k))
       (\<lambda>e. if is_exception e then rot_send_error ''GCM verification failed'' else raise e)
       (\<lambda>plaintext. modify (\<lambda>s. s\<lparr>p3_log := p3_log s @ [plaintext]\<rparr>)))"

lemma keeps_send_json [keeps_intro]:
  "(\<And>s x y. P s \<Longrightarrow> P (s\<lparr>tx := x, tx_left := y\<rparr>)) \<Longrightarrow> keeps P (send_json p)"
  unfolding send_json_def by (intro keeps_intro)

lemma keeps_rot_send_error [keeps_intro]:
  "(\<And>s x y. P s \<Longrightarrow> P (s\<lparr>tx := x, tx_left := y\<rparr>)) \<Longrightarrow> keeps P (rot_send_error m)"
  unfolding rot_send_error_def by (intro keeps_intro)

lemma keeps_rx_data_msg: "keeps (\<lambda>s. rx s = c) (rot_data_msg L msg)"
  unfolding rot_data_msg_def by (intro keeps_intro keeps_modify) simp_all

lemma json_wire_shape: "\<exists>h b. recv_json = recv_frame h b 65536 json_bad_len parse_json"
  unfolding recv_json_def recv_frame_def recv_exact_def Let_def by blast

lemma recv_json_takes: "recv_json s = (Inr m, t) \<Longrightarrow> length (avail t) + 5 \<le> length (avail s)"
  using json_wire_shape recv_frame_takes by metis

text \<open>Each turn takes a frame off the stream, so the loop ends with the stream.\<close>

function rot_data_loop :: "cryptolib \<Rightarrow> unit rot" where
  "rot_data_loop L s =
     (case recv_json s of
        (Inl e, t) \<Rightarrow> if is_connection_error e \<or> is_timeout_error e then (Inr (), t) else (Inl e, t)
      | (Inr msg, t) \<Rightarrow>
          (case rot_data_msg L msg t of
             (Inl e, u) \<Rightarrow> (Inl e, u)
           | (Inr x, u) \<Rightarrow> rot_data_loop L u))"
  by pat_completeness auto
termination
proof (relation "measure (\<lambda>(L, s). length (avail s))")
  fix L s msg t x u r y
  assume "(r, t) = recv_json s" and "r = Inr msg" and "(x, u) = rot_data_msg L msg t" and "x = Inr y"
  then have r: "recv_json s = (Inr msg, t)" and k: "rot_data_msg L msg t = (Inr y, u)" by simp_all
  have "length (avail t) + 5 \<le> length (avail s)" by (rule recv_json_takes [OF r])
  moreover have "rx u = rx t" by (rule keepsD [OF keeps_rx_data_msg refl k])
  ultimately show "((L, u), L, s) \<in> measure (\<lambda>(L, s). length (avail s))" by simp
qed auto

declare rot_data_loop.simps [simp del]

definition rot_run :: "cryptolib \<Rightarrow> (nat \<Rightarrow> bool) \<Rightarrow> bool rot" where
  "rot_run L pr = try_except
     (bnd (rot_handshake L pr) (\<lambda>ok. if \<not> ok then ret False else seq (rot_data_loop L) (ret True)))
     (\<lambda>e. if is_connection_error e \<or> exc_kind_of e = ProtocolKind then gets authenticated
          else if is_os_error e then gets authenticated
          else raise e)"

section \<open>The server process\<close>

text \<open>\<open>handle_client\<close> of \<open>puf_server.py\<close>: the connection is closed however the session ended.\<close>

definition handle_puf_client :: "cryptolib \<Rightarrow> (nat \<Rightarrow> bool) \<Rightarrow> io \<Rightarrow> bytes \<Rightarrow> pyval \<Rightarrow> (exc + unit) \<times> rot_session" where
  "handle_puf_client L pr conn idb reg =
     try_finally (seq (rot_run L pr) (ret ())) (\<lambda>s. s\<lparr>sock_closed := True\<rparr>)
       (new_rot_session conn idb reg)"

text \<open>
  The start of \<open>main\<close>: without an identity file the process exits with status 1, and a registry
  that has entries is counted.
\<close>

definition puf_server_start :: "files \<Rightarrow> string \<Rightarrow> string \<Rightarrow> exc + bytes \<times> pyval" where
  "puf_server_start fs identity_path registry_path =
     (case load_server_identity fs identity_path of
        Inl e \<Rightarrow> if exc_kind_of e = FileNotFoundKind then Inl (Raised SystemExitKind ''1'') else Inl e
      | Inr idb \<Rightarrow> rbind (load_node_registry fs registry_path) (\<lambda>reg.
          rbind (if py_true reg then py_len reg else Inr 0) (\<lambda>_. Inr (idb, reg))))"

end
