(* ===== verification/Puf_Server.thy ===== *)
theory Puf_Server
  imports Rot_Service
begin

text \<open>
  \<open>smg_primary_server/puf_server.py\<close>: \<open>main\<close> with its accept loop and one thread per connection. A
  thread keeps the arguments it was started with; its turns are those of \<open>RotSession.run\<close>, cut
  before every message of the data phase (the handshake is one turn), and end with the \<open>finally\<close>
  of \<open>handle_client\<close>. The threads share only the identity and the registry, which no thread
  changes, so any interleaving of turns is allowed. The listening socket is a flag; argument
  parsing and logging are left out.
\<close>

section \<open>A thread\<close>

datatype rot_stage = Handshaking | Receiving | Finished "exc + unit"

text \<open>The exception clauses of \<open>run\<close>, the discarded result and the \<open>finally\<close> of \<open>handle_client\<close>.\<close>

definition rot_caught :: "exc \<Rightarrow> exc + unit" where
  "rot_caught e =
     (if is_connection_error e \<or> exc_kind_of e = ProtocolKind then Inr ()
      else if is_os_error e then Inr () else Inl e)"

definition rot_ends :: "exc + unit \<Rightarrow> rot_session \<Rightarrow> rot_stage \<times> rot_session" where
  "rot_ends r s = (Finished r, s\<lparr>sock_closed := True\<rparr>)"

text \<open>One pass of \<open>_data_loop\<close>; true stands for its \<open>return\<close>.\<close>

definition rot_loop_turn :: "cryptolib \<Rightarrow> bool rot" where
  "rot_loop_turn L =
     try_else recv_json (\<lambda>e. if is_connection_error e \<or> is_timeout_error e then ret True else raise e)
       (\<lambda>msg. seq (rot_data_msg L msg) (ret False))"

fun rot_turn :: "cryptolib \<Rightarrow> (nat \<Rightarrow> bool) \<Rightarrow> rot_stage \<Rightarrow> rot_session \<Rightarrow> rot_stage \<times> rot_session" where
  "rot_turn L pr Handshaking s = (case rot_handshake L pr s of
       (Inl e, t) \<Rightarrow> rot_ends (rot_caught e) t
     | (Inr ok, t) \<Rightarrow> if \<not> ok then rot_ends (Inr ()) t else (Receiving, t))"
| "rot_turn L pr Receiving s = (case rot_loop_turn L s of
       (Inl e, t) \<Rightarrow> rot_ends (rot_caught e) t
     | (Inr stop, t) \<Rightarrow> if stop then rot_ends (Inr ()) t else (Receiving, t))"
| "rot_turn L pr (Finished r) s = (Finished r, s)"

section \<open>The process\<close>

record puf_thread =
  thr_conn :: io
  thr_stage :: rot_stage
  thr_session :: rot_session

record puf_server =
  puf_id_b :: bytes
  puf_reg :: pyval
  puf_listening :: bool
  puf_threads :: "puf_thread list"

text \<open>\<open>main\<close> up to its loop, an accepted connection, one turn of a thread, and the interrupt.\<close>

definition puf_main :: "files \<Rightarrow> string \<Rightarrow> string \<Rightarrow> exc + puf_server" where
  "puf_main fs identity_path registry_path =
     rbind (puf_server_start fs identity_path registry_path) (\<lambda>(idb, reg).
     Inr \<lparr>puf_id_b = idb, puf_reg = reg, puf_listening = True, puf_threads = []\<rparr>)"

definition puf_accept :: "io \<Rightarrow> puf_server \<Rightarrow> puf_server" where
  "puf_accept conn srv = srv\<lparr>puf_threads := puf_threads srv @
     [\<lparr>thr_conn = conn, thr_stage = Handshaking,
       thr_session = new_rot_session conn (puf_id_b srv) (puf_reg srv)\<rparr>]\<rparr>"

definition puf_turn :: "cryptolib \<Rightarrow> (nat \<Rightarrow> bool) \<Rightarrow> nat \<Rightarrow> puf_server \<Rightarrow> puf_server" where
  "puf_turn L pr i srv =
     (let th = puf_threads srv ! i in
      case rot_turn L pr (thr_stage th) (thr_session th) of (st, s) \<Rightarrow>
        srv\<lparr>puf_threads := (puf_threads srv)[i := th\<lparr>thr_stage := st, thr_session := s\<rparr>]\<rparr>)"

definition puf_interrupt :: "puf_server \<Rightarrow> puf_server" where
  "puf_interrupt srv = srv\<lparr>puf_listening := False\<rparr>"

inductive puf_step :: "cryptolib \<Rightarrow> (nat \<Rightarrow> bool) \<Rightarrow> puf_server \<Rightarrow> puf_server \<Rightarrow> bool" for L pr where
  puf_accepts: "puf_listening srv \<Longrightarrow> puf_step L pr srv (puf_accept conn srv)"
| puf_turns: "i < length (puf_threads srv) \<Longrightarrow> puf_step L pr srv (puf_turn L pr i srv)"
| puf_interrupted: "puf_step L pr srv (puf_interrupt srv)"

inductive puf_serving :: "cryptolib \<Rightarrow> (nat \<Rightarrow> bool) \<Rightarrow> puf_server \<Rightarrow> puf_server \<Rightarrow> bool" for L pr where
  puf_start: "puf_serving L pr srv srv"
| puf_next: "puf_serving L pr srv srv' \<Longrightarrow> puf_step L pr srv' srv'' \<Longrightarrow> puf_serving L pr srv srv''"

section \<open>The turns of a thread are its run\<close>

text \<open>What \<open>handle_client\<close> still has to do from each stage on.\<close>

fun rest_of_thread :: "cryptolib \<Rightarrow> (nat \<Rightarrow> bool) \<Rightarrow> rot_stage \<Rightarrow> rot_session \<Rightarrow> (exc + unit) \<times> rot_session" where
  "rest_of_thread L pr Handshaking s =
     try_finally (seq (rot_run L pr) (ret ())) (\<lambda>s. s\<lparr>sock_closed := True\<rparr>) s"
| "rest_of_thread L pr Receiving s = (case rot_data_loop L s of
       (Inl e, t) \<Rightarrow> (rot_caught e, t\<lparr>sock_closed := True\<rparr>)
     | (Inr x, t) \<Rightarrow> (Inr (), t\<lparr>sock_closed := True\<rparr>))"
| "rest_of_thread L pr (Finished r) s = (r, s)"

lemma rest_of_handshake:
  "rest_of_thread L pr Handshaking s = (case rot_handshake L pr s of
       (Inl e, t) \<Rightarrow> (rot_caught e, t\<lparr>sock_closed := True\<rparr>)
     | (Inr ok, t) \<Rightarrow> if \<not> ok then (Inr (), t\<lparr>sock_closed := True\<rparr>) else rest_of_thread L pr Receiving t)"
  by (auto simp: rot_run_def try_finally_def try_except_def bnd_def seq_def ret_def gets_def raise_def
      rot_caught_def split: prod.splits sum.splits)

lemma rot_data_loop_eq:
  "rot_data_loop L s = (case rot_loop_turn L s of
     (Inl e, t) \<Rightarrow> (Inl e, t) | (Inr stop, t) \<Rightarrow> if stop then (Inr (), t) else rot_data_loop L t)"
  by (auto simp: rot_data_loop.simps [of L s] rot_loop_turn_def try_else_def seq_def bnd_def
      split: prod.split sum.split)

lemma rest_of_turn:
  "(case rot_turn L pr st s of (st', t) \<Rightarrow> rest_of_thread L pr st' t) = rest_of_thread L pr st s"
proof (cases st)
  case Handshaking
  then show ?thesis
    by (auto simp: rest_of_handshake rot_ends_def simp del: rest_of_thread.simps(1,2) split: prod.split sum.split)
next
  case Receiving
  then show ?thesis
    by (auto simp: rot_data_loop_eq [of L s] rot_ends_def split: prod.split sum.split)
qed simp

text \<open>A bound on the turns a thread still has, by the bytes it can still receive.\<close>

fun turns_to_go :: "rot_stage \<Rightarrow> rot_session \<Rightarrow> nat" where
  "turns_to_go Handshaking s = length (avail s) + 2"
| "turns_to_go Receiving s = length (avail s) + 1"
| "turns_to_go (Finished r) s = 0"

end
