(* ===== verification/Rot_Laws.thy ===== *)
theory Rot_Laws
  imports Rot_Service
begin

text \<open>
  Laws of the root-of-trust service: its framing interprets \<open>framing\<close>; a handshake that
  authenticates has verified a signature over the transcript; how a run ends; what the data
  phase keeps. \<open>wire\<close> is the frame of a message whose fields are integers and strings that
  need no escape, as all messages of this protocol are.
\<close>

section \<open>Framing\<close>

definition wf_json :: "payload \<Rightarrow> bool" where
  "wf_json p \<longleftrightarrow> json_plain (PDict p)"

lemma pack_json_frame:
  assumes "wf_json p" and "pack_json p = Inr f"
  shows "\<exists>body. f = frame body \<and> 0 < length body \<and> parse_json body = Inr (PDict p)"
proof -
  obtain t where t: "dumps (PDict p) = Inr t"
    using assms(1) dumps_plain unfolding wf_json_def by blast
  have "parse_json (str_bytes t) = Inr (PDict p)"
    using assms(1) utf8_decode_ascii [OF ascii_dumps [OF _ t]] loads_dumps [OF t]
    by (simp add: parse_json_def wf_json_def)
  moreover have "f = frame (str_bytes t)"
    using assms(2) t
    by (auto simp: pack_json_def frame_def Let_def struct_pack_def simp del: dumps.simps split: if_splits)
  ultimately show ?thesis
    using dumps_dict_nonempty [OF t] by (intro exI [of _ "str_bytes t"]) simp
qed

interpretation jmsg: framing pack_json recv_json parse_json 65536 json_bad_len wf_json PDict
proof
  fix m f assume "wf_json m" "pack_json m = Inr f"
  then show "\<exists>body. f = frame body \<and> 0 < length body \<and> parse_json body = Inr (PDict m)"
    by (rule pack_json_frame)
qed (use json_wire_shape in simp_all)

lemmas keeps_recv_json [keeps_intro] = jmsg.keeps_recv

text \<open>A message of the protocol is always packed, within the receiver's limit.\<close>

definition flat_msg :: "payload \<Rightarrow> bool" where
  "flat_msg p \<longleftrightarrow> dict_ok p \<and> flat_dict p \<and> dict_size p \<le> 65534"

definition wire :: "payload \<Rightarrow> bytes" where
  "wire p = (case pack_json p of Inr f \<Rightarrow> f | Inl e \<Rightarrow> [])"

lemma flat_msg_wf: "flat_msg p \<Longrightarrow> wf_json p"
  by (simp add: flat_msg_def wf_json_def flat_dict_plain)

lemma flat_msg_pack:
  assumes "flat_msg p"
  shows "pack_json p = Inr (wire p) \<and> length (wire p) \<le> 65540"
proof -
  obtain t where "dumps (PDict p) = Inr t" "length t \<le> 65536"
    using dumps_flat_dict [of p] assms by (auto simp: flat_msg_def)
  then show ?thesis by (simp add: wire_def pack_json_def Let_def struct_pack_ok del: dumps.simps)
qed

lemma send_json_ok:
  "flat_msg p \<Longrightarrow> open_tx s \<Longrightarrow> send_json p s = (Inr (), s\<lparr>tx := tx s @ [wire p]\<rparr>)"
  by (simp add: send_json_def flat_msg_pack sock_sendall_def open_tx_def)

text \<open>Any JSON object within the limit, nested values and floats included, is received as it was sent.\<close>

definition json_msg :: "payload \<Rightarrow> bool" where
  "json_msg p \<longleftrightarrow> json_plain (PDict p) \<and> pack_json p = Inr (wire p) \<and> length (wire p) \<le> 65540"

lemma flat_json_msg: "flat_msg p \<Longrightarrow> json_msg p"
  using flat_msg_wf flat_msg_pack by (auto simp: json_msg_def wf_json_def)

lemma recv_json_msg:
  assumes "json_msg p" and "live s" and "avail s = wire p @ r"
  shows "recv_json s = (Inr (PDict p), s\<lparr>rx := chop (length (wire p)) (rx s)\<rparr>)"
  using jmsg.recv_pack [of p "wire p", OF _ _ _ assms(2,3)] assms(1) by (simp add: json_msg_def wf_json_def)

lemmas recv_json_ok = recv_json_msg [OF flat_json_msg]

lemma send_json_only: "send_json p s = (r, t) \<Longrightarrow> \<exists>x y. t = s\<lparr>tx := x, tx_left := y\<rparr>"
  by (rule keeps_only_sends [OF keeps_send_json])

lemma raises_send_json: "raises is_exception (send_json p)"
proof -
  have "is_exception e" if "pack_json p = Inl e" for e
    using that
    by (auto simp: pack_json_def rbind_Inl_iff Let_def struct_pack_def exc_class_defs split: if_splits
        dest: dumps_error simp del: dumps.simps)
  then have "raises is_exception (lift (pack_json p))" by (auto intro: raisesI)
  then show ?thesis unfolding send_json_def by (intro raises_bnd raises_sock_sendall)
qed

lemma rot_send_error_returns: "\<exists>t. rot_send_error m s = (Inr (), t)"
  using raisesD [OF raises_send_json]
  by (cases "send_json [(''type'', PStr ''error''), (''error'', PStr m)] s" rule: prod.exhaust)
    (auto simp: rot_send_error_def try_except_def split: sum.splits)

lemma rot_send_error_only: "rot_send_error m s = (r, t) \<Longrightarrow> \<exists>x y. t = s\<lparr>tx := x, tx_left := y\<rparr>"
  by (rule keeps_only_sends [OF keeps_rot_send_error])

text \<open>A refusal returns false and touches nothing but what is sent.\<close>

lemma refuse_eq: "\<exists>x y. refuse m s = (Inr False, s\<lparr>tx := x, tx_left := y\<rparr>)"
proof -
  obtain t where t: "rot_send_error m s = (Inr (), t)" using rot_send_error_returns by blast
  with rot_send_error_only [OF t] show ?thesis by (auto simp: refuse_def seq_Inr)
qed

lemma refuseD: "refuse m s = (r, t) \<Longrightarrow> r = Inr False \<and> (\<exists>x y. t = s\<lparr>tx := x, tx_left := y\<rparr>)"
  using refuse_eq [of m s] by auto

section \<open>Authentication\<close>

text \<open>
  What an authenticated session stands on: the registry has an entry whose public key verifies a
  signature of the transcript of this session's own challenge and ephemeral key, and the key is
  derived from that exchange.
\<close>

definition hex_field :: "string \<Rightarrow> nat \<Rightarrow> pyval \<Rightarrow> exc + bytes" where
  "hex_field k n v = rbind (get_item k v) (\<lambda>x. hex_to_bin x n)"

definition device_proved ::
  "cryptolib \<Rightarrow> pyval \<Rightarrow> bytes \<Rightarrow> bytes \<Rightarrow> bytes \<Rightarrow> bytes option \<Rightarrow> bool" where
  "device_proved L reg idb challenge_b eph_sk_b key \<longleftrightarrow>
     (\<exists>ida entry pk_a shs_b challenge_a eph_pk_a sig.
        length ida = 16 \<and> length challenge_a = 16 \<and> length eph_pk_a = 65
        \<and> get_or (hexlify ida) PNone reg = Inr entry \<and> entry \<noteq> PNone
        \<and> hex_field ''pk_a'' 65 entry = Inr pk_a \<and> hex_field ''shs_b'' 32 entry = Inr shs_b
        \<and> ec_verify L pk_a sig (sha256 (transcript ida idb challenge_b challenge_a eph_pk_a
             (ec_public L eph_sk_b) (server_proof_of shs_b challenge_a (ec_public L eph_sk_b))))
        \<and> key = Some (rot_key (ecdh L eph_sk_b eph_pk_a) shs_b challenge_a challenge_b))"

lemma hex_to_bin_length: "hex_to_bin v n = Inr b \<Longrightarrow> length b = n"
  by (auto simp: hex_to_bin_def rbind_Inr_iff split: if_splits)

lemma hex_field_length: "hex_field k n v = Inr b \<Longrightarrow> length b = n"
  by (auto simp: hex_field_def rbind_Inr_iff hex_to_bin_length)

lemma device_provedI:
  assumes "ec_verify L pk sig (sha256 (transcript ida idb cb ca epk (ec_public L sk)
      (server_proof_of shs ca (ec_public L sk))))"
    and "length epk = 65" and "get_or (hexlify ida) PNone reg = Inr entry" and "entry \<noteq> PNone"
    and "hex_to_bin a 16 = Inr ida" and "hex_to_bin c 16 = Inr ca"
    and "get_item ''pk_a'' entry = Inr p" and "hex_to_bin p 65 = Inr pk"
    and "get_item ''shs_b'' entry = Inr q" and "hex_to_bin q 32 = Inr shs"
  shows "device_proved L reg idb cb sk (Some (rot_key (ecdh L sk epk) shs ca cb))"
proof -
  have "hex_field ''pk_a'' 65 entry = Inr pk" and "hex_field ''shs_b'' 32 entry = Inr shs"
    using assms(7-10) by (simp_all add: hex_field_def)
  then show ?thesis
    unfolding device_proved_def using assms(1-4) hex_to_bin_length assms(5,6) by blast
qed

lemma draw_simps [simp]: "draw (s\<lparr>rx := c\<rparr>) = draw s"
  "draw (t\<lparr>rot_label := l\<rparr>) = draw t"
  by (simp_all add: draw_def fun_eq_iff)

definition same_setup :: "rot_session \<Rightarrow> rot_session \<Rightarrow> bool" where
  "same_setup s t \<longleftrightarrow> puf_registry t = puf_registry s \<and> id_b t = id_b s \<and> p3_log t = p3_log s"

lemma rot_response_run:
  assumes "rot_response L pr ida ca pk shs (cb, sk, epk, sp) s = (r, t)" and "\<not> authenticated s"
  shows "same_setup s t
    \<and> (if authenticated t
       then r \<noteq> Inr False \<and> (\<exists>epka sig. length epka = 65
         \<and> ec_verify L pk sig (sha256 (transcript ida (id_b s) cb ca epka epk sp))
         \<and> key_ab t = Some (rot_key (ecdh L sk epka) shs ca cb))
       else r \<noteq> Inr True \<and> key_ab t = key_ab s)"
  using assms unfolding rot_response_def prod.case same_setup_def
  by (auto elim!: bnd_cases seq_cases dest!: refuseD jmsg.recv_only_rx send_json_only
      simp: rbind_Inr_iff Let_def ROT_PUBKEY_LEN_def split: if_splits)
    (use hex_to_bin_length in blast)+

lemma rot_challenge_run:
  assumes "rot_challenge L shs ca s = (r, t)"
  shows "same_setup s t \<and> authenticated t = authenticated s \<and> key_ab t = key_ab s
    \<and> (case r of Inl e \<Rightarrow> True
       | Inr (cb, sk, epk, sp) \<Rightarrow> cb = draw s 0 16 \<and> sk = draw s 16 32 \<and> epk = ec_public L sk
           \<and> sp = server_proof_of shs ca epk)"
  using assms unfolding rot_challenge_def same_setup_def
  by (auto elim!: bnd_cases seq_cases dest!: send_json_only
      simp: Let_def CHALLENGE_LEN_def urandom_def draw_def add.assoc)

lemma rot_handshake_run:
  assumes "rot_handshake L pr s = (r, t)" and "\<not> authenticated s"
  shows "same_setup s t
    \<and> (if authenticated t
       then r \<noteq> Inr False
         \<and> device_proved L (puf_registry s) (id_b s) (draw s 0 16) (draw s 16 32) (key_ab t)
       else r \<noteq> Inr True \<and> key_ab t = key_ab s)"
  using assms unfolding rot_handshake_def
  by (auto elim!: bnd_cases seq_cases dest!: refuseD jmsg.recv_only_rx rot_challenge_run rot_response_run
      simp: rbind_Inr_iff Let_def rot_size_defs same_setup_def split: if_splits)
    (erule (9) device_provedI)

section \<open>The data phase and the run\<close>

definition opens :: "cryptolib \<Rightarrow> bytes option \<Rightarrow> bytes \<Rightarrow> bool" where
  \<comment> \<open>\<open>p\<close> is the plaintext of some message under the session key\<close>
  "opens L key p \<longleftrightarrow> (\<exists>k n c. key = Some k \<and> length n = 12 \<and> aes_decrypt L k n c = Inr p)"

definition data_step :: "cryptolib \<Rightarrow> rot_session \<Rightarrow> rot_session \<Rightarrow> bool" where
  "data_step L s t \<longleftrightarrow> key_ab t = key_ab s \<and> authenticated t = authenticated s
     \<and> (\<exists>ps. p3_log t = p3_log s @ ps \<and> (\<forall>p \<in> set ps. opens L (key_ab s) p))"

lemma data_step_refl: "key_ab t = key_ab s \<Longrightarrow> authenticated t = authenticated s \<Longrightarrow> p3_log t = p3_log s
    \<Longrightarrow> data_step L s t"
  by (simp add: data_step_def)

lemma data_step_trans: "data_step L s t \<Longrightarrow> data_step L t u \<Longrightarrow> data_step L s u"
  unfolding data_step_def by auto

lemma decrypt_data_opens: "decrypt_data_message L msg k = Inr p \<Longrightarrow> opens L (Some k) p"
  unfolding decrypt_data_message_def opens_def GCM_NONCE_LEN_def
  by (auto simp: rbind_Inr_iff dest!: hex_to_bin_length)

lemma rot_data_msg_run:
  assumes "rot_data_msg L msg s = (r, t)"
  shows "data_step L s t"
  using assms unfolding rot_data_msg_def data_step_def
  by (auto simp: try_else_def split: if_splits sum.splits option.splits elim!: bnd_cases
      dest!: rot_send_error_only decrypt_data_opens)

lemma recv_json_step: "recv_json s = (r, t) \<Longrightarrow> data_step L s t"
  by (auto intro: data_step_refl dest!: jmsg.recv_only_rx)

lemma rot_data_loop_run: "rot_data_loop L s = (r, t) \<Longrightarrow> data_step L s t"
proof (induction L s rule: rot_data_loop.induct)
  case (1 L s)
  obtain q u where rec: "recv_json s = (q, u)" by fastforce
  note step = recv_json_step [OF rec, of L]
  show ?case
  proof (cases q)
    case (Inl e)
    then show ?thesis using "1.prems" rec step
      by (simp add: rot_data_loop.simps [of L s] split: if_splits)
  next
    case (Inr msg)
    obtain x v where msg: "rot_data_msg L msg u = (x, v)" by fastforce
    have su: "data_step L s v" using data_step_trans [OF step rot_data_msg_run [OF msg]] .
    show ?thesis
    proof (cases x)
      case (Inl e)
      then show ?thesis using "1.prems" rec msg su Inr by (simp add: rot_data_loop.simps [of L s])
    next
      case (Inr y)
      then have "rot_data_loop L v = (r, t)"
        using "1.prems" rec msg \<open>q = Inr msg\<close> by (simp add: rot_data_loop.simps [of L s])
      then have "data_step L v t"
        using "1.IH" rec msg \<open>q = Inr msg\<close> Inr by metis
      then show ?thesis by (rule data_step_trans [OF su])
    qed
  qed
qed

text \<open>What is left of a run: the state of the handshake, moved on by the data phase.\<close>

lemma rot_run_split:
  assumes "rot_run L pr s = (r, t)" and "\<not> authenticated s"
  shows "\<exists>q u. rot_handshake L pr s = (q, u) \<and> data_step L u t \<and> (\<not> authenticated u \<longrightarrow> t = u)
    \<and> (\<forall>b. r = Inr b \<longrightarrow> b = authenticated t)
    \<and> (\<forall>e. r = Inl e \<longrightarrow> \<not> is_os_error e \<and> exc_kind_of e \<noteq> ProtocolKind)"
proof -
  obtain q u where h: "rot_handshake L pr s = (q, u)" by fastforce
  note facts = rot_handshake_run [OF h assms(2)]
  have ce: "is_os_error e" if "is_connection_error e" for e
    using that by (simp add: exc_class_defs)
  have refl: "data_step L u u" by (rule data_step_refl) simp_all
  show ?thesis
  proof (cases "q = Inr True")
    case True
    obtain x v where d: "rot_data_loop L u = (x, v)" by fastforce
    have "data_step L u v" by (rule rot_data_loop_run [OF d])
    moreover have "authenticated u" using facts True by (auto split: if_splits)
    moreover have "authenticated v" using calculation by (simp add: data_step_def)
    ultimately show ?thesis
      using assms(1) h True d ce
      by (cases x) (auto simp: rot_run_def try_except_def bnd_def seq_def ret_def split: if_splits)
  next
    case False
    then show ?thesis
      using assms(1) h ce refl facts
      by (cases q) (auto simp: rot_run_def try_except_def bnd_def split: if_splits)
  qed
qed

end
