(* ===== verification/Rot_Device.thy ===== *)
theory Rot_Device
  imports Rot_Laws
begin

text \<open>
  The device side of the root-of-trust handshake, as \<open>FakeDevice\<close> of
  \<open>tests/test_rot_challenge_protocol.py\<close> computes it (the executable reference of the
  firmware's \<open>rot_session.c\<close>), and its agreement with \<open>RotSession\<close>: two honest ends that
  receive what the other one sent finish with the same key, and a message sealed by one is
  opened by the other.
\<close>

record rot_device = io +
  dev_id :: bytes
  dev_sk :: bytes
  dev_id_b :: bytes
  dev_challenge :: bytes
  dev_key_ab :: "bytes option"
  dev_shs_b :: "bytes option"

type_synonym 'a dev = "(rot_device, 'a) py"

text \<open>The pinned verifier is an attribute that the constructor does not set; reading it before fails.\<close>

definition new_device :: "io \<Rightarrow> bytes \<Rightarrow> bytes \<Rightarrow> bytes \<Rightarrow> rot_device" where
  "new_device conn ida sk_a id_b_expected =
     io.extend (conn\<lparr>entropy_pos := entropy_pos conn + CHALLENGE_LEN\<rparr>)
       \<lparr>dev_id = ida, dev_sk = sk_a, dev_id_b = id_b_expected, dev_challenge = draw conn 0 CHALLENGE_LEN,
        dev_key_ab = None, dev_shs_b = None\<rparr>"

definition with_server_ref :: "bytes \<Rightarrow> rot_device \<Rightarrow> rot_device" where
  "with_server_ref shs_b_ref d = d\<lparr>dev_shs_b := Some shs_b_ref\<rparr>"

definition server_ref :: "bytes dev" where
  \<comment> \<open>\<open>self._shs_b_ref\<close>\<close>
  "server_ref = getr (\<lambda>d. case dev_shs_b d of None \<Rightarrow> Inl (LibRaised AttributeKind) | Some b \<Rightarrow> Inr b)"

abbreviation assertion_error :: "string \<Rightarrow> exc" where
  "assertion_error m \<equiv> Raised AssertionKind m"

definition hello_msg :: "bytes \<Rightarrow> bytes \<Rightarrow> payload" where
  "hello_msg ida challenge_a =
     [(''type'', PStr ''hello''), (''id_a'', PStr (hexlify ida)), (''challenge_a'', PStr (hexlify challenge_a))]"

definition response_msg :: "bytes \<Rightarrow> bytes \<Rightarrow> payload" where
  "response_msg eph_pk_a sig =
     [(''type'', PStr ''response''), (''eph_pk_a'', PStr (hexlify eph_pk_a)),
      (''device_proof'', PStr (hexlify sig))]"

definition item_hex :: "string \<Rightarrow> pyval \<Rightarrow> exc + bytes" where
  \<comment> \<open>\<open>bytes.fromhex(msg[k])\<close>\<close>
  "item_hex k msg = rbind (rbind (get_item k msg) as_str) fromhex"

text \<open>The server is the pinned one, and knows the pinned verifier.\<close>

definition device_check :: "bytes \<Rightarrow> bytes \<Rightarrow> bytes \<Rightarrow> unit dev" where
  "device_check idb eph_pk_b server_proof =
     bnd (gets (\<lambda>d. d)) (\<lambda>d.
     if idb \<noteq> dev_id_b d then raise (assertion_error ''server id_b mismatch'')
     else bnd server_ref (\<lambda>shs_b_ref.
     if server_proof \<noteq> sha256 (shs_b_ref @ dev_challenge d @ eph_pk_b)
     then seq (send_json [(''type'', PStr ''error''), (''error'', PStr ''server auth failed'')])
            (raise (assertion_error ''server_proof did not verify''))
     else ret ()))"

definition device_handshake :: "cryptolib \<Rightarrow> (nat \<Rightarrow> bool) \<Rightarrow> bytes dev" where
  "device_handshake L pr =
     bnd (gets (\<lambda>d. d)) (\<lambda>d.
     seq (send_json (hello_msg (dev_id d) (dev_challenge d)))
     (bnd recv_json (\<lambda>msg.
      bnd (lift (get_or ''type'' PNone msg)) (\<lambda>ty.
      if ty \<noteq> PStr ''challenge'' then raise (assertion_error (''expected challenge, got '' @ py_str pr msg))
      else
      bnd (lift (item_hex ''id_b'' msg)) (\<lambda>idb.
      bnd (lift (item_hex ''challenge_b'' msg)) (\<lambda>challenge_b.
      bnd (lift (item_hex ''eph_pk_b'' msg)) (\<lambda>eph_pk_b.
      bnd (lift (item_hex ''server_proof'' msg)) (\<lambda>server_proof.
      seq (device_check idb eph_pk_b server_proof)
      (bnd (urandom 32) (\<lambda>eph_sk_a.
      let eph_pk_a = ec_public L eph_sk_a;
          msg_hash = sha256 (DEVICE_PROOF_DOMAIN_TAG @ dev_id d @ idb @ challenge_b @ dev_challenge d
                       @ eph_pk_a @ eph_pk_b @ server_proof);
          signature = ec_sign L (dev_sk d) msg_hash in
      seq (send_json (response_msg eph_pk_a signature))
      (bnd recv_json (\<lambda>ack.
       bnd (lift (get_or ''type'' PNone ack)) (\<lambda>ty.
       if ty \<noteq> PStr ''session_ack''
       then raise (assertion_error (''handshake rejected: '' @ py_str pr ack))
       else if \<not> ec_point_ok L eph_pk_b then raise (LibRaised ValueKind)
       else bnd server_ref (\<lambda>shs_b_ref.
       let key = sha256 (ecdh L eph_sk_a eph_pk_b @ shs_b_ref @ dev_challenge d @ challenge_b) in
       seq (modify (\<lambda>d. d\<lparr>dev_key_ab := Some key\<rparr>)) (ret key)))))))))))))))"

section \<open>Agreement\<close>

lemma hex_to_bin_hexlify: "length b = n \<Longrightarrow> hex_to_bin (PStr (hexlify b)) n = Inr b"
  by (simp add: hex_to_bin_def)

text \<open>The messages of an honest exchange are flat, so they are sent and received whole.\<close>

lemma safe_literals [simp]:
  "safe_str ''type''" "safe_str ''hello''" "safe_str ''id_a''" "safe_str ''challenge_a''"
  "safe_str ''challenge''" "safe_str ''id_b''" "safe_str ''challenge_b''" "safe_str ''eph_pk_b''"
  "safe_str ''server_proof''" "safe_str ''response''" "safe_str ''eph_pk_a''" "safe_str ''device_proof''"
  "safe_str ''session_ack''" "safe_str ''data''" "safe_str ''nonce''" "safe_str ''ciphertext''"
  "safe_str ''tag''"
  by code_simp+

lemma flat_hello: "length ida = 16 \<Longrightarrow> length ca = 16 \<Longrightarrow> flat_msg (hello_msg ida ca)"
  by (simp add: flat_msg_def hello_msg_def del: safe_str_simps)

lemma flat_challenge:
  "length idb = 16 \<Longrightarrow> length cb = 16 \<Longrightarrow> length epk = 65 \<Longrightarrow> length sp = 32 \<Longrightarrow>
   flat_msg (challenge_msg idb cb epk sp)"
  by (simp add: flat_msg_def challenge_msg_def del: safe_str_simps)

lemma flat_response: "length epk = 65 \<Longrightarrow> length sig \<le> 30000 \<Longrightarrow> flat_msg (response_msg epk sig)"
  by (simp add: flat_msg_def response_msg_def del: safe_str_simps)

lemma flat_ack: "flat_msg [(''type'', PStr ''session_ack'')]"
  by (simp add: flat_msg_def del: safe_str_simps)

abbreviation pinned :: "rot_device \<Rightarrow> bytes" where
  "pinned d \<equiv> the (dev_shs_b d)"

text \<open>The challenge and the response of an honest exchange, as functions of the two starting states.\<close>

definition honest_proof :: "cryptolib \<Rightarrow> rot_session \<Rightarrow> rot_device \<Rightarrow> bytes" where
  "honest_proof L s d = server_proof_of (pinned d) (dev_challenge d) (ec_public L (draw s 16 32))"

definition honest_challenge :: "cryptolib \<Rightarrow> rot_session \<Rightarrow> rot_device \<Rightarrow> payload" where
  "honest_challenge L s d =
     challenge_msg (id_b s) (draw s 0 16) (ec_public L (draw s 16 32)) (honest_proof L s d)"

definition honest_hash :: "cryptolib \<Rightarrow> rot_session \<Rightarrow> rot_device \<Rightarrow> bytes" where
  "honest_hash L s d = sha256 (transcript (dev_id d) (id_b s) (draw s 0 16) (dev_challenge d)
     (ec_public L (draw d 0 32)) (ec_public L (draw s 16 32)) (honest_proof L s d))"

definition honest_response :: "cryptolib \<Rightarrow> rot_session \<Rightarrow> rot_device \<Rightarrow> payload" where
  "honest_response L s d =
     response_msg (ec_public L (draw d 0 32)) (ec_sign L (dev_sk d) (honest_hash L s d))"

definition session_ack :: payload where
  "session_ack = [(''type'', PStr ''session_ack'')]"

text \<open>The two ends know each other: the device is registered with its key and its verifier.\<close>

definition enrolled :: "cryptolib \<Rightarrow> rot_session \<Rightarrow> rot_device \<Rightarrow> bool" where
  "enrolled L s d \<longleftrightarrow> length (dev_id d) = 16 \<and> length (dev_challenge d) = 16 \<and> length (id_b s) = 16
     \<and> dev_id_b d = id_b s
     \<and> (\<exists>entry. get_or (hexlify (dev_id d)) PNone (puf_registry s) = Inr entry
          \<and> hex_field ''pk_a'' 65 entry = Inr (ec_public L (dev_sk d))
          \<and> dev_shs_b d \<noteq> None \<and> hex_field ''shs_b'' 32 entry = Inr (pinned d))"

definition short_signatures :: "cryptolib \<Rightarrow> bool" where
  \<comment> \<open>a DER signature over P-256 has at most 72 bytes\<close>
  "short_signatures L \<longleftrightarrow> (\<forall>sk d. length d = 32 \<longrightarrow> length (ec_sign L sk d) \<le> 128)"

lemma honest_flat:
  assumes "ec_ok L" and "short_signatures L" and "enrolled L s d"
  shows "flat_msg (hello_msg (dev_id d) (dev_challenge d))" "flat_msg (honest_challenge L s d)"
    "flat_msg (honest_response L s d)" "flat_msg session_ack"
proof -
  have "length (ec_sign L (dev_sk d) (honest_hash L s d)) \<le> 128"
    using assms(2) by (simp add: short_signatures_def honest_hash_def)
  then show "flat_msg (honest_response L s d)"
    using ec_okD(1) [OF assms(1)] by (simp add: honest_response_def flat_response)
  show "flat_msg (honest_challenge L s d)"
    using ec_okD(1) [OF assms(1)] assms(3)
    by (simp add: honest_challenge_def flat_challenge enrolled_def honest_proof_def server_proof_of_def)
  show "flat_msg (hello_msg (dev_id d) (dev_challenge d))"
    using assms(3) by (simp add: flat_hello enrolled_def)
  show "flat_msg session_ack" by (simp add: session_ack_def flat_ack)
qed

lemma recv_msg_next:
  assumes "json_msg p" and "live s" and "avail s = wire p @ r"
  obtains c where "recv_json s = (Inr (PDict p), s\<lparr>rx := c\<rparr>)" "concat c = r" "[] \<notin> set c"
proof
  show "recv_json s = (Inr (PDict p), s\<lparr>rx := chop (length (wire p)) (rx s)\<rparr>)"
    by (rule recv_json_msg [OF assms])
  show "concat (chop (length (wire p)) (rx s)) = r" using assms(3) by (simp add: concat_chop)
  show "[] \<notin> set (chop (length (wire p)) (rx s))" using assms(2) by (simp add: live_def chop_nonempty)
qed

lemmas recv_json_next = recv_msg_next [OF flat_json_msg]

lemma send_json_next:
  "flat_msg p \<Longrightarrow> open_tx s \<Longrightarrow> seq (send_json p) n s = n (s\<lparr>tx := tx s @ [wire p]\<rparr>)"
  by (rule seq_Inr [OF send_json_ok])

lemma open_tx_label [simp]: "open_tx (s\<lparr>rot_label := l\<rparr>) = open_tx s"
  "open_tx (s\<lparr>key_ab := k\<rparr>) = open_tx s" "open_tx (s\<lparr>authenticated := b\<rparr>) = open_tx s"
  by (simp_all add: open_tx_def)

lemma draw_tx [simp]: "draw (s\<lparr>tx := x\<rparr>) = draw s"
  by (simp add: draw_def fun_eq_iff)

lemma bnd_server_ref: "dev_shs_b d \<noteq> None \<Longrightarrow> bnd server_ref k d = k (pinned d) d"
  by (auto simp: server_ref_def bnd_getr)

lemma device_side:
  assumes ok: "ec_ok L" "short_signatures L" "enrolled L s d"
    and d: "live d" "open_tx d" "avail d = wire (honest_challenge L s d) @ wire session_ack @ r"
  defines "key \<equiv> rot_key (ecdh L (draw d 0 32) (ec_public L (draw s 16 32))) (pinned d) (dev_challenge d) (draw s 0 16)"
  shows "\<exists>d'. device_handshake L pr d = (Inr key, d') \<and> dev_key_ab d' = Some key
    \<and> tx d' = tx d @ [wire (hello_msg (dev_id d) (dev_challenge d)), wire (honest_response L s d)]
    \<and> avail d' = r"
proof -
  note flat = honest_flat [OF ok]
  define d1 where "d1 = d\<lparr>tx := tx d @ [wire (hello_msg (dev_id d) (dev_challenge d))]\<rparr>"
  have "live d1" and "avail d1 = wire (honest_challenge L s d) @ wire session_ack @ r"
    using d by (simp_all add: d1_def live_def)
  then obtain c where c: "recv_json d1 = (Inr (PDict (honest_challenge L s d)), d1\<lparr>rx := c\<rparr>)"
    "concat c = wire session_ack @ r" "[] \<notin> set c"
    using recv_json_next flat(2) by blast
  define d2 where "d2 = d1\<lparr>rx := c, entropy_pos := entropy_pos d + 32\<rparr>"
  define d3 where "d3 = d2\<lparr>tx := tx d2 @ [wire (honest_response L s d)]\<rparr>"
  have "live d3" and "avail d3 = wire session_ack @ r"
    using d c by (simp_all add: d3_def d2_def d1_def live_def)
  then obtain e where e: "recv_json d3 = (Inr (PDict session_ack), d3\<lparr>rx := e\<rparr>)" "concat e = r"
    using recv_json_next flat(4) by metis
  have chal: "get_or ''type'' PNone (PDict (honest_challenge L s d)) = Inr (PStr ''challenge'')"
    "item_hex ''id_b'' (PDict (honest_challenge L s d)) = Inr (id_b s)"
    "item_hex ''challenge_b'' (PDict (honest_challenge L s d)) = Inr (draw s 0 16)"
    "item_hex ''eph_pk_b'' (PDict (honest_challenge L s d)) = Inr (ec_public L (draw s 16 32))"
    "item_hex ''server_proof'' (PDict (honest_challenge L s d)) = Inr (honest_proof L s d)"
    by (simp_all add: honest_challenge_def challenge_msg_def item_hex_def)
  have ack: "get_or ''type'' PNone (PDict session_ack) = Inr (PStr ''session_ack'')"
    by (simp add: session_ack_def)
  define e1 where "e1 = d1\<lparr>rx := c\<rparr>"
  have ref: "dev_shs_b d \<noteq> None" using ok(3) by (auto simp: enrolled_def)
  then have refs: "dev_shs_b e1 = dev_shs_b d" "dev_shs_b (d3\<lparr>rx := e\<rparr>) = dev_shs_b d"
    by (simp_all add: e1_def d1_def d2_def d3_def)
  have same: "dev_id_b e1 = id_b s" "dev_challenge e1 = dev_challenge d"
    using ok(3) by (simp_all add: enrolled_def e1_def d1_def)
  have pin: "bnd server_ref k e1 = k (pinned d) e1" for k :: "bytes \<Rightarrow> unit dev"
    using bnd_server_ref [of e1] ref refs(1) by simp
  have "device_check (id_b s) (ec_public L (draw s 16 32)) (honest_proof L s d) e1 = (Inr (), e1)"
    using same by (simp add: device_check_def pin honest_proof_def server_proof_of_def)
  then have check: "seq (device_check (id_b s) (ec_public L (draw s 16 32)) (honest_proof L s d)) n e1 = n e1"
    for n :: "bytes dev" by (rule seq_Inr)
  have hello: "seq (send_json (hello_msg (dev_id d) (dev_challenge d))) n d = n d1" for n :: "bytes dev"
    using send_json_next [OF flat(1) d(2)] by (simp add: d1_def)
  have e1: "draw e1 0 32 = draw d 0 32" "e1\<lparr>entropy_pos := entropy_pos e1 + 32\<rparr> = d2"
    by (simp_all add: e1_def d1_def d2_def draw_def)
  have resp: "seq (send_json (honest_response L s d)) n d2 = n d3" for n :: "bytes dev"
    using send_json_next [OF flat(3), of d2] d(2) by (simp add: d3_def d2_def d1_def)
  have "device_handshake L pr d = (Inr key, d3\<lparr>rx := e, dev_key_ab := Some key\<rparr>)"
    using resp [unfolded honest_response_def honest_hash_def transcript_def] e(1) ec_okD(2) [OF ok(1)] c(1)
    by (simp add: device_handshake_def hello bnd_Inr [where m = recv_json] chal check bnd_urandom e1
        ack ref bnd_server_ref refs key_def Let_def rot_key_def flip: e1_def del: get_or.simps get_item.simps)
  then show ?thesis using e(2) by (simp add: d3_def d2_def d1_def)
qed

text \<open>After an enrolled device's hello the service has sent the challenge and waits for the response.\<close>

lemma server_challenge:
  assumes ok: "ec_ok L" "short_signatures L" "enrolled L s d"
    and s: "live s" "open_tx s" "avail s = wire (hello_msg (dev_id d) (dev_challenge d)) @ r"
  shows "\<exists>c label. rot_handshake L pr s = rot_response L pr (dev_id d) (dev_challenge d) (ec_public L (dev_sk d)) (pinned d)
      (draw s 0 16, draw s 16 32, ec_public L (draw s 16 32), honest_proof L s d)
      (s\<lparr>rx := c, rot_label := label, entropy_pos := 48 + entropy_pos s, tx := tx s @ [wire (honest_challenge L s d)]\<rparr>)
    \<and> concat c = r \<and> [] \<notin> set c"
proof -
  note flat = honest_flat [OF ok]
  define ida ca where "ida = dev_id d" and "ca = dev_challenge d"
  have len: "length ida = 16" "length ca = 16" using ok(3) by (simp_all add: enrolled_def ida_def ca_def)
  obtain entry where en: "get_or (hexlify ida) PNone (puf_registry s) = Inr entry"
    "hex_field ''pk_a'' 65 entry = Inr (ec_public L (dev_sk d))"
    "hex_field ''shs_b'' 32 entry = Inr (pinned d)"
    using ok(3) unfolding enrolled_def ida_def by blast
  then obtain label where label: "get_or ''label'' (PStr (take 8 (hexlify ida))) entry = Inr label"
    by (cases entry) (auto simp: hex_field_def rbind_Inr_iff)
  have ne: "entry \<noteq> PNone" using en(2) by (auto simp: hex_field_def)
  obtain c where c: "recv_json s = (Inr (PDict (hello_msg ida ca)), s\<lparr>rx := c\<rparr>)" "concat c = r" "[] \<notin> set c"
    using recv_json_next [OF flat(1) s(1,3)] unfolding ida_def ca_def .
  define s1 where "s1 = s\<lparr>rx := c\<rparr>"
  define s2 where "s2 = s1\<lparr>rot_label := label\<rparr>"
  define s3 where "s3 = s2\<lparr>entropy_pos := 48 + entropy_pos s, tx := tx s @ [wire (honest_challenge L s d)]\<rparr>"
  let ?sk = "draw s 16 32" and ?cb = "draw s 0 16"
  have hello: "get_or ''type'' PNone (PDict (hello_msg ida ca)) = Inr (PStr ''hello'')"
    "rbind (get_item ''id_a'' (PDict (hello_msg ida ca))) (\<lambda>v. hex_to_bin v ROT_ID_LEN) = Inr ida"
    "rbind (get_item ''challenge_a'' (PDict (hello_msg ida ca))) (\<lambda>v. hex_to_bin v CHALLENGE_LEN) = Inr ca"
    using len by (simp_all add: hello_msg_def rot_size_defs hex_to_bin_hexlify)
  have keys: "rbind (get_item ''pk_a'' entry) (\<lambda>v. hex_to_bin v ROT_PUBKEY_LEN) = Inr (ec_public L (dev_sk d))"
    "rbind (get_item ''shs_b'' entry) (\<lambda>v. hex_to_bin v ROT_DIGEST_LEN) = Inr (pinned d)"
    using en by (simp_all add: hex_field_def rot_size_defs)
  have send: "send_json (honest_challenge L s d) (s2\<lparr>entropy_pos := 48 + entropy_pos s\<rparr>) = (Inr (), s3)"
    using send_json_ok [OF flat(2), of "s2\<lparr>entropy_pos := 48 + entropy_pos s\<rparr>"] s(2)
    by (simp add: s3_def s2_def s1_def)
  have chal: "rot_challenge L (pinned d) ca s2 = (Inr (?cb, ?sk, ec_public L ?sk, honest_proof L s d), s3)"
  proof -
    have "draw s2 0 16 = ?cb" "draw (s2\<lparr>entropy_pos := entropy_pos s2 + 16\<rparr>) 0 32 = ?sk"
      "entropy_pos s2 = entropy_pos s" "id_b s2 = id_b s"
      by (simp_all add: s2_def s1_def draw_def)
    then show ?thesis
      using send [unfolded honest_challenge_def]
      by (simp add: rot_challenge_def bnd_urandom Let_def CHALLENGE_LEN_def honest_proof_def ca_def
          seq_Inr [where m = "send_json p" for p])
  qed
  have "rot_handshake L pr s = rot_response L pr ida ca (ec_public L (dev_sk d)) (pinned d)
      (?cb, ?sk, ec_public L ?sk, honest_proof L s d) s3"
    using c(1) en(1) ne keys chal label ec_okD(2) [OF ok(1)]
    by (simp add: rot_handshake_def bnd_Inr [where m = recv_json] hello bnd_getr s1_def s2_def bnd_Inr
        del: get_or.simps get_item.simps)
  then show ?thesis
    using c by (intro exI [of _ c] exI [of _ label]) (simp add: s3_def s2_def s1_def ida_def ca_def)
qed

lemma server_side:
  assumes ok: "ec_ok L" "short_signatures L" "enrolled L s d"
    and s: "live s" "open_tx s"
      "avail s = wire (hello_msg (dev_id d) (dev_challenge d)) @ wire (honest_response L s d) @ r"
  shows "\<exists>s'. rot_handshake L pr s = (Inr True, s') \<and> authenticated s'
    \<and> key_ab s' = Some (rot_key (ecdh L (draw s 16 32) (ec_public L (draw d 0 32)))
        (pinned d) (dev_challenge d) (draw s 0 16))
    \<and> tx s' = tx s @ [wire (honest_challenge L s d), wire session_ack] \<and> avail s' = r"
proof -
  note flat = honest_flat [OF ok]
  let ?sk = "draw s 16 32" and ?cb = "draw s 0 16"
  obtain c label where c: "concat c = wire (honest_response L s d) @ r" "[] \<notin> set c"
    and run: "rot_handshake L pr s = rot_response L pr (dev_id d) (dev_challenge d) (ec_public L (dev_sk d)) (pinned d)
      (?cb, ?sk, ec_public L ?sk, honest_proof L s d)
      (s\<lparr>rx := c, rot_label := label, entropy_pos := 48 + entropy_pos s, tx := tx s @ [wire (honest_challenge L s d)]\<rparr>)"
    using server_challenge [OF ok s] by blast
  define s3 where "s3 = s\<lparr>rx := c, rot_label := label, entropy_pos := 48 + entropy_pos s,
    tx := tx s @ [wire (honest_challenge L s d)]\<rparr>"
  have "live s3" and "avail s3 = wire (honest_response L s d) @ r"
    using s c by (simp_all add: s3_def live_def)
  then obtain e where e: "recv_json s3 = (Inr (PDict (honest_response L s d)), s3\<lparr>rx := e\<rparr>)"
    "concat e = r"
    using recv_json_next flat(3) by metis
  define key where "key = rot_key (ecdh L ?sk (ec_public L (draw d 0 32))) (pinned d) (dev_challenge d) ?cb"
  define s4 where "s4 = s3\<lparr>rx := e, key_ab := Some key, authenticated := True\<rparr>"
  define s5 where "s5 = s4\<lparr>tx := tx s4 @ [wire session_ack]\<rparr>"
  have resp: "get_or ''type'' PNone (PDict (honest_response L s d)) = Inr (PStr ''response'')"
    "rbind (get_item ''eph_pk_a'' (PDict (honest_response L s d))) (\<lambda>v. hex_to_bin v ROT_PUBKEY_LEN)
      = Inr (ec_public L (draw d 0 32))"
    "rbind (rbind (get_item ''device_proof'' (PDict (honest_response L s d))) as_str) fromhex
      = Inr (ec_sign L (dev_sk d) (honest_hash L s d))"
    using ec_okD(1) [OF ok(1)]
    by (simp_all add: honest_response_def response_msg_def rot_size_defs hex_to_bin_hexlify)
  have ver: "ec_verify L (ec_public L (dev_sk d)) (ec_sign L (dev_sk d) (honest_hash L s d))
      (sha256 (transcript (dev_id d) (id_b s3) ?cb (dev_challenge d) (ec_public L (draw d 0 32)) (ec_public L ?sk) (honest_proof L s d)))"
    using ec_okD(3) [OF ok(1)] by (simp add: honest_hash_def s3_def)
  have ack: "send_json [(''type'', PStr ''session_ack'')] s4 = (Inr (), s5)"
    using send_json_ok [OF flat(4), of s4] s(2)
    by (simp add: s5_def s4_def s3_def session_ack_def)
  have "rot_handshake L pr s = (Inr True, s5)"
    unfolding run s3_def [symmetric]
    using e(1) ver ec_okD(2) [OF ok(1)] ack
    by (simp add: rot_response_def bnd_Inr [where m = recv_json] resp Let_def key_def [symmetric] s4_def
        seq_Inr [where m = "send_json p" for p] del: get_or.simps get_item.simps)
  then show ?thesis
    using e(2) by (intro exI [of _ s5]) (simp add: s5_def s4_def s3_def key_def)
qed

section \<open>Data messages\<close>

lemma encrypt_data_ok:
  assumes "aead_ok L" and "length k = 32" and "encrypt_data_message L p k s = (r, t)"
  shows "\<exists>m. r = Inr m \<and> get_or ''type'' PNone (PDict m) = Inr (PStr ''data'')
    \<and> decrypt_data_message L (PDict m) k = Inr p \<and> (length p \<le> 30000 \<longrightarrow> flat_msg m)"
proof -
  obtain c where c: "aes_encrypt L k (draw s 0 12) p = Inr c" "length c = length p + 16"
    "aes_decrypt L k (draw s 0 12) c = Inr p"
    using aead_okE [OF assms(1,2)] length_draw by blast
  define ct tag where "ct = take (length c - 16) c" and "tag = drop (length c - 16) c"
  have len: "length ct = length p" "length tag = 16" and app: "ct @ tag = c"
    using c(2) by (simp_all add: ct_def tag_def)
  define m where "m = [(''type'', PStr ''data''), (''nonce'', PStr (hexlify (draw s 0 12))),
    (''ciphertext'', PStr (hexlify ct)), (''tag'', PStr (hexlify tag))]"
  have "r = Inr m"
    using assms(3) c(1)
    by (simp add: encrypt_data_message_def bnd_urandom GCM_NONCE_LEN_def GCM_TAG_LEN_def Let_def
        slice_neg_stop_def slice_neg_start_def ct_def tag_def m_def)
  moreover have "decrypt_data_message L (PDict m) k = Inr p"
    using len app c(3)
    by (simp add: decrypt_data_message_def m_def hex_to_bin_hexlify GCM_NONCE_LEN_def GCM_TAG_LEN_def)
  moreover have "flat_msg m" if "length p \<le> 30000"
    using that len by (simp add: flat_msg_def m_def del: safe_str_simps)
  ultimately show ?thesis by (simp add: m_def)
qed

text \<open>A sealed message at the head of the stream is opened and logged.\<close>

definition sealed :: "cryptolib \<Rightarrow> bytes \<Rightarrow> bytes \<Rightarrow> payload \<Rightarrow> bool" where
  "sealed L k p m \<longleftrightarrow> length p \<le> 30000
     \<and> (\<exists>s t :: io. encrypt_data_message L p k s = (Inr m, t))"

lemma data_loop_next:
  assumes "aead_ok L" and "length k = 32" and "key_ab s = Some k" and "sealed L k p m"
    and "live s" and "avail s = wire m @ r"
  shows "\<exists>u. rot_data_loop L s = rot_data_loop L u \<and> p3_log u = p3_log s @ [p] \<and> avail u = r
    \<and> live u \<and> key_ab u = Some k \<and> rx_end u = rx_end s"
proof -
  have m: "get_or ''type'' PNone (PDict m) = Inr (PStr ''data'')"
    "decrypt_data_message L (PDict m) k = Inr p" "flat_msg m"
    using assms(4) encrypt_data_ok [OF assms(1,2)] by (fastforce simp: sealed_def)+
  obtain c where c: "recv_json s = (Inr (PDict m), s\<lparr>rx := c\<rparr>)" "concat c = r" "[] \<notin> set c"
    using recv_json_next [OF m(3) assms(5,6)] .
  define u where "u = s\<lparr>rx := c, p3_log := p3_log s @ [p]\<rparr>"
  have "rot_data_msg L (PDict m) (s\<lparr>rx := c\<rparr>) = (Inr (), u)"
    using m(1,2) assms(3) by (simp add: rot_data_msg_def try_else_def u_def del: get_or.simps)
  then have "rot_data_loop L s = rot_data_loop L u"
    using c(1) by (simp add: rot_data_loop.simps [of L s])
  then show ?thesis
    using c assms(3,5) by (intro exI [of _ u]) (simp add: u_def live_def)
qed

lemma data_loop_end:
  assumes "live s" and "avail s = []" and "rx_end s = EndOfStream"
  shows "rot_data_loop L s = (Inr (), s)"
proof -
  have rx: "rx s = []" using assms by (cases "rx s") (auto simp: live_def)
  moreover have "s\<lparr>rx := []\<rparr> = s" using rx by simp
  ultimately have "recv_json s = (Inl (Raised ConnectionKind ''connection closed during recv''), s)"
    using assms recv_loop_stream [of s "[]" 4 "''connection closed during recv''"]
    by (simp add: recv_json_def recv_exact_def bnd_Inl)
  then show ?thesis by (simp add: rot_data_loop.simps [of L s] exc_class_defs)
qed

lemma data_loop_delivers:
  assumes "aead_ok L" and "length k = 32" and "list_all2 (sealed L k) ps ms"
    and "key_ab s = Some k" and "live s" and "avail s = concat (map wire ms)" and "rx_end s = EndOfStream"
  shows "\<exists>t. rot_data_loop L s = (Inr (), t) \<and> p3_log t = p3_log s @ ps"
  using assms(3-7)
proof (induction ps ms arbitrary: s rule: list_all2_induct)
  case Nil
  then show ?case using data_loop_end [of s L] by auto
next
  case (Cons p ps m ms)
  obtain u where u: "rot_data_loop L s = rot_data_loop L u" "p3_log u = p3_log s @ [p]"
    "avail u = concat (map wire ms)" "live u" "key_ab u = Some k" "rx_end u = EndOfStream"
    using data_loop_next [OF assms(1,2) Cons.prems(1) Cons.hyps(1) Cons.prems(2)] Cons.prems(3,4) by force
  from Cons.IH [OF u(5,4,3,6)] show ?case using u(1,2) by auto
qed

end
