(* ===== verification/Rot_Props.thy ===== *)
theory Rot_Props
  imports Rot_Device
begin

text \<open>
  The properties of the root-of-trust service: what an authenticated session stands on, what the
  data phase logs, how a run ends, how bad requests are treated, that signatures bind the whole
  transcript, and that honest ends agree.
\<close>

section \<open>Concrete instances\<close>

lemma new_rot_session_simps [simp]:
  "rx (new_rot_session c i g) = rx c" "rx_end (new_rot_session c i g) = rx_end c"
  "tx (new_rot_session c i g) = tx c"
  "tx_left (new_rot_session c i g) = tx_left c" "sock_closed (new_rot_session c i g) = sock_closed c"
  "id_b (new_rot_session c i g) = i" "puf_registry (new_rot_session c i g) = g"
  "key_ab (new_rot_session c i g) = None" "\<not> authenticated (new_rot_session c i g)"
  "p3_log (new_rot_session c i g) = []" "draw (new_rot_session c i g) = draw c"
  by (simp_all add: new_rot_session_def io.defs draw_def fun_eq_iff)

lemma new_rot_session_live [simp]:
  "live (new_rot_session c i g) = live c" "open_tx (new_rot_session c i g) = open_tx c"
  by (simp_all add: live_def open_tx_def)

lemma byte_wise_open [simp]: "open_tx (byte_wise b)" "tx (byte_wise b) = []"
  by (simp_all add: open_tx_def byte_wise_def)

section \<open>Authentication\<close>

text \<open>
  C4: a session is authenticated only by a signature. Whatever arrives and whatever the registry
  holds, a run that ends authenticated has an entry whose public key verifies a signature over this
  session's transcript (both identities, the fresh challenge and the fresh ephemeral key drawn in
  this run, the device's challenge and ephemeral key, the server's proof), and its key is the hash of
  that exchange; a run that ends unauthenticated has no key and has opened nothing.
\<close>

theorem rot_authentication:
  "case rot_run L pr (new_rot_session conn idb reg) of (r, t) \<Rightarrow>
     if authenticated t then device_proved L reg idb (draw conn 0 16) (draw conn 16 32) (key_ab t)
     else key_ab t = None \<and> p3_log t = []"
proof -
  let ?s = "new_rot_session conn idb reg"
  obtain r t where run: "rot_run L pr ?s = (r, t)" by fastforce
  obtain q u where h: "rot_handshake L pr ?s = (q, u)" "data_step L u t" "\<not> authenticated u \<longrightarrow> t = u"
    using rot_run_split [OF run] by auto
  show ?thesis
    using rot_handshake_run [OF h(1)] h(2,3) unfolding run data_step_def same_setup_def
    by (auto split: if_splits)
qed

text \<open>
  C22: the data phase logs only what was sealed under the session's key: after any run every
  logged plaintext is the decryption of some message under the key of the handshake.
\<close>

theorem rot_log_opens:
  "case rot_run L pr (new_rot_session conn idb reg) of (r, t) \<Rightarrow>
     list_all (opens L (key_ab t)) (p3_log t)"
proof -
  let ?s = "new_rot_session conn idb reg"
  obtain r t where run: "rot_run L pr ?s = (r, t)" by fastforce
  obtain q u where h: "rot_handshake L pr ?s = (q, u)" "data_step L u t"
    using rot_run_split [OF run] by auto
  have "p3_log u = []" using rot_handshake_run [OF h(1)] by (simp add: same_setup_def)
  then show ?thesis
    using h(2) unfolding run by (auto simp: data_step_def list_all_iff)
qed

text \<open>
  C36: how a run ends. It always ends; the value it returns says whether the device's signature was
  verified (also when sending the acknowledgement failed), and no \<open>OSError\<close> or protocol error
  escapes.
\<close>

theorem rot_run_ends:
  "case rot_run L pr (new_rot_session conn idb reg) of
     (Inr b, t) \<Rightarrow> b = authenticated t
   | (Inl e, t) \<Rightarrow> \<not> is_os_error e \<and> exc_kind_of e \<noteq> ProtocolKind"
proof -
  let ?s = "new_rot_session conn idb reg"
  obtain r t where run: "rot_run L pr ?s = (r, t)" by fastforce
  show ?thesis using rot_run_split [OF run] unfolding run by (cases r) auto
qed

section \<open>Bad requests\<close>

definition rot_error :: "string \<Rightarrow> payload" where
  "rot_error m = [(''type'', PStr ''error''), (''error'', PStr m)]"

lemma rot_error_sent:
  assumes "safe_str m" and "length m \<le> 1000" and "open_tx s"
  shows "refuse m s = (Inr False, s\<lparr>tx := tx s @ [wire (rot_error m)]\<rparr>)"
proof -
  have "safe_str ''error''" by code_simp
  then have "flat_msg (rot_error m)"
    using assms(1,2) by (simp add: flat_msg_def rot_error_def del: safe_str_simps)
  from send_json_ok [OF this assms(3)] show ?thesis
    by (simp add: refuse_def rot_send_error_def rot_error_def try_except_def seq_def bnd_def)
qed

text \<open>
  A device that is not in the registry is refused: it gets one error frame, the run
  returns false, and there is no key.
\<close>

theorem rot_unknown_device:
  assumes "live conn" and "open_tx conn" and "avail conn = wire (hello_msg ida ca) @ rest"
    and "length ida = 16" and "length ca = 16" and "get_or (hexlify ida) PNone reg = Inr PNone"
  shows "case rot_run L pr (new_rot_session conn idb reg) of (r, t) \<Rightarrow>
    r = Inr False \<and> tx t = tx conn @ [wire (rot_error ''unknown device id_a'')] \<and> key_ab t = None"
proof -
  let ?s = "new_rot_session conn idb reg" and ?m = "hello_msg ida ca"
  obtain c where c: "recv_json ?s = (Inr (PDict ?m), ?s\<lparr>rx := c\<rparr>)"
    using recv_json_next [OF flat_hello [OF assms(4,5)], of ?s rest] assms(1,3) by auto
  have hello: "get_or ''type'' PNone (PDict ?m) = Inr (PStr ''hello'')"
    "rbind (get_item ''id_a'' (PDict ?m)) (\<lambda>v. hex_to_bin v ROT_ID_LEN) = Inr ida"
    "rbind (get_item ''challenge_a'' (PDict ?m)) (\<lambda>v. hex_to_bin v CHALLENGE_LEN) = Inr ca"
    using assms(4,5) by (simp_all add: hello_msg_def rot_size_defs hex_to_bin_hexlify)
  have "safe_str ''unknown device id_a''" by code_simp
  then have "refuse ''unknown device id_a'' (?s\<lparr>rx := c\<rparr>)
      = (Inr False, ?s\<lparr>rx := c, tx := tx conn @ [wire (rot_error ''unknown device id_a'')]\<rparr>)"
    using assms(2) by (subst rot_error_sent) simp_all
  then have "rot_handshake L pr ?s
      = (Inr False, ?s\<lparr>rx := c, tx := tx conn @ [wire (rot_error ''unknown device id_a'')]\<rparr>)"
    using c assms(6)
    by (simp add: rot_handshake_def bnd_Inr [where m = recv_json] hello bnd_getr del: get_or.simps get_item.simps)
  then show ?thesis by (simp add: rot_run_def bnd_def try_except_def)
qed

lemma rot_unknown_device_witness:
  "case rot_run ref_lib (\<lambda>_. False) (new_rot_session
      (byte_wise (wire (hello_msg (replicate 16 1) (replicate 16 2)) @ [7])) (replicate 16 3) (PDict [])) of
     (r, t) \<Rightarrow> r = Inr False
       \<and> tx t = tx (byte_wise (wire (hello_msg (replicate 16 1) (replicate 16 2)) @ [7]))
           @ [wire (rot_error ''unknown device id_a'')] \<and> key_ab t = None"
proof (rule rot_unknown_device)
  show "length (replicate 16 (1 :: byte)) = 16" "length (replicate 16 (2 :: byte)) = 16"
    by simp_all
qed simp_all

section \<open>Binding\<close>

text \<open>
  C24: one signature is for one session. If the digests of two transcripts of the fixed field
  lengths agree, then all fields agree (both identities, both nonces, both ephemeral keys and the
  server's proof), or the two transcripts are an exhibited collision of SHA-256.
\<close>

theorem transcript_binds:
  assumes "length ida = 16" "length idb = 16" "length cb = 16" "length ca = 16" "length epa = 65"
    "length epb = 65"
    and "length ida' = 16" "length idb' = 16" "length cb' = 16" "length ca' = 16" "length epa' = 65"
    "length epb' = 65"
    and "sha256 (transcript ida idb cb ca epa epb sp) = sha256 (transcript ida' idb' cb' ca' epa' epb' sp')"
  shows "ida = ida' \<and> idb = idb' \<and> cb = cb' \<and> ca = ca' \<and> epa = epa' \<and> epb = epb' \<and> sp = sp'
    \<or> collision sha256 (transcript ida idb cb ca epa epb sp) (transcript ida' idb' cb' ca' epa' epb' sp')"
  using sha.binds [OF assms(13)] assms(1-12) by (auto simp: transcript_def)

lemma transcript_binds_witness:
  "replicate 16 (1 :: byte) = replicate 16 1 \<and> replicate 16 (2 :: byte) = replicate 16 2
    \<and> replicate 16 (3 :: byte) = replicate 16 3 \<and> replicate 16 (4 :: byte) = replicate 16 4
    \<and> replicate 65 (5 :: byte) = replicate 65 5 \<and> replicate 65 (6 :: byte) = replicate 65 6 \<and> [7 :: byte] = [7]
    \<or> collision sha256
       (transcript (replicate 16 1) (replicate 16 2) (replicate 16 3) (replicate 16 4) (replicate 65 5)
          (replicate 65 6) [7])
       (transcript (replicate 16 1) (replicate 16 2) (replicate 16 3) (replicate 16 4) (replicate 65 5)
          (replicate 65 6) [7])"
  by (rule transcript_binds) (rule length_replicate refl)+

section \<open>Honest ends\<close>

text \<open>
  C7: honest ends agree. If the device is enrolled with its key and its verifier, and each end
  receives what the other one sends, then the service authenticates the device, the device accepts
  the service, both hold the same key, and the frames each of them sent are those the other one
  received; what follows on either stream is left for the data phase.
\<close>

theorem rot_handshake_agrees:
  assumes "ec_ok L" and "short_signatures L" and "enrolled L s d"
    and "live s" and "open_tx s" and "live d" and "open_tx d"
    and "avail s = wire (hello_msg (dev_id d) (dev_challenge d)) @ wire (honest_response L s d) @ r"
    and "avail d = wire (honest_challenge L s d) @ wire session_ack @ q"
  shows "\<exists>s' d' key. rot_handshake L pr s = (Inr True, s') \<and> device_handshake L pr d = (Inr key, d')
    \<and> key_ab s' = Some key \<and> dev_key_ab d' = Some key \<and> authenticated s'
    \<and> tx s' = tx s @ [wire (honest_challenge L s d), wire session_ack]
    \<and> tx d' = tx d @ [wire (hello_msg (dev_id d) (dev_challenge d)), wire (honest_response L s d)]
    \<and> avail s' = r \<and> avail d' = q"
  using server_side [OF assms(1-5,8), of pr] device_side [OF assms(1-3,6,7,9), of pr]
    ec_okD(4) [OF assms(1), of "draw s 16 32" "draw d 0 32"] by force

text \<open>An enrolled device and a service, each with the other's frames on its stream.\<close>

definition demo_sk :: bytes where "demo_sk = replicate 32 2"

definition demo_puf_registry :: pyval where
  "demo_puf_registry = PDict [(hexlify (replicate 16 1), PDict
     [(''pk_a'', PStr (hexlify (ec_public ref_lib demo_sk))), (''shs_b'', PStr (hexlify (replicate 32 3)))])]"

definition demo_service :: "bytes list \<Rightarrow> rot_session" where
  "demo_service c = new_rot_session (blank_io\<lparr>rx := c\<rparr>) (replicate 16 4) demo_puf_registry"

definition demo_device :: "bytes list \<Rightarrow> rot_device" where
  "demo_device c = with_server_ref (replicate 32 3)
     (new_device (blank_io\<lparr>rx := c\<rparr>) (replicate 16 1) demo_sk (replicate 16 4))"

lemma demo_device_simps [simp]:
  "dev_id (demo_device c) = replicate 16 1" "dev_sk (demo_device c) = demo_sk"
  "dev_id_b (demo_device c) = replicate 16 4" "dev_challenge (demo_device c) = replicate 16 0"
  "dev_shs_b (demo_device c) = Some (replicate 32 3)" "rx (demo_device c) = c"
  "open_tx (demo_device c)" "live (demo_device c) \<longleftrightarrow> [] \<notin> set c" "draw (demo_device c) = draw blank_io"
  by (simp_all add: demo_device_def with_server_ref_def new_device_def io.defs open_tx_def live_def blank_io_def
      draw_def fun_eq_iff CHALLENGE_LEN_def map_replicate_trivial map_replicate_const)

lemma demo_service_simps [simp]:
  "rx (demo_service c) = c" "id_b (demo_service c) = replicate 16 4"
  "puf_registry (demo_service c) = demo_puf_registry"
  "open_tx (demo_service c)" "live (demo_service c) \<longleftrightarrow> [] \<notin> set c" "draw (demo_service c) = draw blank_io"
  by (simp_all add: demo_service_def open_tx_def live_def)

lemma demo_enrolled: "enrolled ref_lib (demo_service c) (demo_device e)"
  using ec_okD(1) [OF ec_ok_ref_lib]
  by (simp add: enrolled_def demo_puf_registry_def hex_field_def hex_to_bin_def)

lemma short_signatures_ref_lib: "short_signatures ref_lib"
  by (simp add: short_signatures_def ref_lib_def)

lemma wire_nonempty: "flat_msg p \<Longrightarrow> wire p \<noteq> []"
  using pack_json_frame [OF flat_msg_wf] flat_msg_pack by (fastforce simp: frame_def)

definition demo_resp :: bytes where
  "demo_resp = wire (honest_response ref_lib (demo_service []) (demo_device []))"

definition demo_chal :: bytes where
  "demo_chal = wire (honest_challenge ref_lib (demo_service []) (demo_device []))"

lemma demo_frames:
  "wire (honest_response ref_lib (demo_service c) (demo_device e)) = demo_resp"
  "wire (honest_challenge ref_lib (demo_service c) (demo_device e)) = demo_chal"
  by (simp_all add: demo_resp_def demo_chal_def honest_response_def honest_challenge_def honest_hash_def
      honest_proof_def)

lemmas demo_flat = honest_flat [OF ec_ok_ref_lib short_signatures_ref_lib demo_enrolled [of "[]" "[]"]]

lemma demo_nonempty:
  "demo_resp \<noteq> []" "demo_chal \<noteq> []" "wire session_ack \<noteq> []"
  "wire (hello_msg (replicate 16 1) (replicate 16 0)) \<noteq> []"
  using demo_flat [THEN wire_nonempty]
  by (simp_all add: demo_resp_def demo_chal_def)

abbreviation demo_s :: rot_session where
  "demo_s \<equiv> demo_service [wire (hello_msg (replicate 16 1) (replicate 16 0)), demo_resp]"

abbreviation demo_d :: rot_device where
  "demo_d \<equiv> demo_device [demo_chal, wire session_ack]"

lemma rot_handshake_agrees_witness:
  "\<exists>s' d' key. rot_handshake ref_lib (\<lambda>_. False) demo_s = (Inr True, s')
    \<and> device_handshake ref_lib (\<lambda>_. False) demo_d = (Inr key, d')
    \<and> key_ab s' = Some key \<and> dev_key_ab d' = Some key \<and> authenticated s'
    \<and> tx s' = tx demo_s @ [wire (honest_challenge ref_lib demo_s demo_d), wire session_ack]
    \<and> tx d' = tx demo_d @ [wire (hello_msg (dev_id demo_d) (dev_challenge demo_d)),
        wire (honest_response ref_lib demo_s demo_d)]
    \<and> avail s' = [] \<and> avail d' = []"
proof (rule rot_handshake_agrees)
  show "enrolled ref_lib demo_s demo_d" by (rule demo_enrolled)
  show "live demo_s" "live demo_d" using demo_nonempty by auto
  show "avail demo_s = wire (hello_msg (dev_id demo_d) (dev_challenge demo_d))
      @ wire (honest_response ref_lib demo_s demo_d) @ []"
    by (simp add: demo_frames)
  show "avail demo_d = wire (honest_challenge ref_lib demo_s demo_d) @ wire session_ack @ []"
    by (simp add: demo_frames)
qed (simp_all add: ec_ok_ref_lib short_signatures_ref_lib)

section \<open>Hexadecimal errors\<close>

text \<open>
  The fields of a message that are read as hexadecimal text, in this order and with the length of the
  value where it is checked, up to the first that is not hexadecimal: the fields before it are as expected.
\<close>

fun bad_hex :: "(string \<times> nat option) list \<Rightarrow> payload \<Rightarrow> bool" where
  "bad_hex [] m = False"
| "bad_hex ((k, n) # fs) m = (case map_of m k of
     Some (PStr x) \<Rightarrow> (case fromhex x of Inl e \<Rightarrow> True | Inr b \<Rightarrow> (n = None \<or> n = Some (length b)) \<and> bad_hex fs m)
   | _ \<Rightarrow> False)"

definition bad_hello :: "payload \<Rightarrow> bool" where
  "bad_hello m \<longleftrightarrow> map_of m ''type'' = Some (PStr ''hello'')
     \<and> bad_hex [(''id_a'', Some ROT_ID_LEN), (''challenge_a'', Some CHALLENGE_LEN)] m"

definition bad_response :: "payload \<Rightarrow> bool" where
  "bad_response m \<longleftrightarrow> map_of m ''type'' = Some (PStr ''response'')
     \<and> bad_hex [(''eph_pk_a'', Some ROT_PUBKEY_LEN), (''device_proof'', None)] m"

lemma hex_to_bin_bad: "fromhex x = Inl e \<Longrightarrow> hex_to_bin (PStr x) n = Inl (LibRaised ValueKind)"
  using fromhex_error by (auto simp: hex_to_bin_def)

lemma bad_hello_raises:
  assumes "bad_hello m" and "recv_json s = (Inr (PDict m), s\<lparr>rx := c\<rparr>)"
  shows "rot_handshake L pr s = (Inl (LibRaised ValueKind), s\<lparr>rx := c\<rparr>)"
  using assms fromhex_error
  by (auto simp: bad_hello_def rot_handshake_def bnd_Inr [where m = recv_json] lift_def bnd_def hex_to_bin_bad
      hex_to_bin_def split: option.splits pyval.splits sum.splits)

lemma bad_response_raises:
  assumes "bad_response m" and "recv_json s = (Inr (PDict m), s\<lparr>rx := c\<rparr>)"
  shows "rot_response L pr ida ca pk shs (cb, sk, epk, sp) s = (Inl (LibRaised ValueKind), s\<lparr>rx := c\<rparr>)"
  using assms fromhex_error
  by (auto simp: bad_response_def rot_response_def bnd_Inr [where m = recv_json] lift_def bnd_def hex_to_bin_bad
      hex_to_bin_def split: option.splits pyval.splits sum.splits)

text \<open>
  C37: in the handshake, a field that is not hexadecimal ends the run with an exception. If the hello
  has such an \<open>id_a\<close> or \<open>challenge_a\<close>, or the response to the challenge such an \<open>eph_pk_a\<close> or
  \<open>device_proof\<close>, with any other fields and the fields read before it as expected, then the \<open>ValueError\<close>
  of \<open>bytes.fromhex\<close> is in none of the clauses of \<open>run\<close>: the peer gets no error frame (after a bad hello
  nothing, after a bad response only the challenge it already had), there is no key, and the exception
  reaches the thread. In the data phase the same error is caught.
\<close>

theorem rot_bad_hex_escapes:
  assumes lib: "ec_ok L" "short_signatures L" and conn: "live conn" "open_tx conn" and m: "json_msg m"
    and sent: "bad_hello m \<and> avail conn = wire m @ rest \<and> out = []
      \<or> bad_response m \<and> enrolled L (new_rot_session conn idb reg) d
        \<and> avail conn = wire (hello_msg (dev_id d) (dev_challenge d)) @ wire m @ rest
        \<and> out = [wire (honest_challenge L (new_rot_session conn idb reg) d)]"
  shows "case rot_run L pr (new_rot_session conn idb reg) of (r, t) \<Rightarrow>
    r = Inl (LibRaised ValueKind) \<and> tx t = tx conn @ out \<and> key_ab t = None \<and> \<not> authenticated t"
proof -
  let ?s = "new_rot_session conn idb reg"
  have "\<exists>t. rot_handshake L pr ?s = (Inl (LibRaised ValueKind), t) \<and> tx t = tx conn @ out
      \<and> key_ab t = None \<and> \<not> authenticated t"
  proof (cases "bad_hello m \<and> avail conn = wire m @ rest \<and> out = []")
    case True
    then obtain c where "recv_json ?s = (Inr (PDict m), ?s\<lparr>rx := c\<rparr>)"
      using recv_msg_next [OF m, of ?s rest] conn(1) by auto
    from bad_hello_raises [OF _ this] True show ?thesis by auto
  next
    case False
    then have r: "bad_response m" "enrolled L ?s d" "out = [wire (honest_challenge L ?s d)]"
      "avail ?s = wire (hello_msg (dev_id d) (dev_challenge d)) @ wire m @ rest"
      using sent by auto
    define ask where "ask = rot_response L pr (dev_id d) (dev_challenge d) (ec_public L (dev_sk d)) (pinned d)
      (draw ?s 0 16, draw ?s 16 32, ec_public L (draw ?s 16 32), honest_proof L ?s d)"
    obtain c label where c: "concat c = wire m @ rest" "[] \<notin> set c"
      and run: "rot_handshake L pr ?s = ask (?s\<lparr>rx := c, rot_label := label, entropy_pos := 48 + entropy_pos ?s,
        tx := tx ?s @ [wire (honest_challenge L ?s d)]\<rparr>)"
      unfolding ask_def using server_challenge [OF lib r(2) _ _ r(4)] conn by (metis new_rot_session_live)
    define u where "u = ?s\<lparr>rx := c, rot_label := label, entropy_pos := 48 + entropy_pos ?s,
      tx := tx ?s @ [wire (honest_challenge L ?s d)]\<rparr>"
    have "live u" "avail u = wire m @ rest" using c conn(1) by (simp_all add: u_def live_def)
    then obtain e where "recv_json u = (Inr (PDict m), u\<lparr>rx := e\<rparr>)" using recv_msg_next [OF m] by blast
    from bad_response_raises [OF r(1) this] have "rot_handshake L pr ?s = (Inl (LibRaised ValueKind), u\<lparr>rx := e\<rparr>)"
      unfolding run ask_def u_def [symmetric] by blast
    then show ?thesis using r(3) by (simp add: u_def)
  qed
  then show ?thesis by (auto simp: rot_run_def bnd_def try_except_def exc_class_defs)
qed

definition demo_bad_response :: payload where
  "demo_bad_response = [(''type'', PStr ''response''), (''eph_pk_a'', PStr (hexlify (replicate 65 4))), (''device_proof'', PStr ''zz'')]"

lemma demo_bad: "bad_response demo_bad_response" "flat_msg demo_bad_response"
proof -
  have "fromhex ''zz'' = Inl (LibRaised ValueKind)" "safe_str ''zz''" by code_simp+
  then show "bad_response demo_bad_response" "flat_msg demo_bad_response"
    by (simp_all add: bad_response_def demo_bad_response_def rot_size_defs flat_msg_def del: safe_str_simps)
qed

lemma rot_bad_hex_escapes_witness:
  "\<exists>t. rot_run ref_lib (\<lambda>_. False) (new_rot_session
      (blank_io\<lparr>rx := [wire (hello_msg (replicate 16 1) (replicate 16 0)), wire demo_bad_response]\<rparr>) (replicate 16 4) demo_puf_registry)
      = (Inl (LibRaised ValueKind), t) \<and> length (tx t) = 1"
proof -
  let ?c = "blank_io\<lparr>rx := [wire (hello_msg (replicate 16 1) (replicate 16 0)), wire demo_bad_response]\<rparr>"
  let ?s = "new_rot_session ?c (replicate 16 4) demo_puf_registry"
  have "live ?c" "open_tx ?c"
    using demo_nonempty(4) wire_nonempty [OF demo_bad(2)] by (simp_all add: live_def open_tx_def)
  moreover have "enrolled ref_lib ?s (demo_device [])"
    using demo_enrolled [of "rx ?c"] by (simp add: demo_service_def)
  moreover have "avail ?c = wire (hello_msg (dev_id (demo_device [])) (dev_challenge (demo_device []))) @ wire demo_bad_response @ []"
    by simp
  ultimately have "case rot_run ref_lib (\<lambda>_. False) ?s of (r, t) \<Rightarrow> r = Inl (LibRaised ValueKind)
      \<and> tx t = tx ?c @ [wire (honest_challenge ref_lib ?s (demo_device []))] \<and> key_ab t = None \<and> \<not> authenticated t"
    using demo_bad(1) flat_json_msg [OF demo_bad(2)] by (intro rot_bad_hex_escapes [OF ec_ok_ref_lib short_signatures_ref_lib, where m = demo_bad_response and rest = "[]"]) blast+
  then show ?thesis by (auto split: prod.splits)
qed

section \<open>The data phase\<close>

text \<open>What the service logs for a message of the data phase, and what it answers.\<close>

definition logged :: "cryptolib \<Rightarrow> bytes \<Rightarrow> payload \<Rightarrow> bytes list" where
  "logged L k m = (if map_of m ''type'' = Some (PStr ''data'')
     then (case decrypt_data_message L (PDict m) k of Inr p \<Rightarrow> [p] | Inl e \<Rightarrow> []) else [])"

definition answered :: "cryptolib \<Rightarrow> bytes \<Rightarrow> payload \<Rightarrow> bytes list" where
  "answered L k m = (if map_of m ''type'' = Some (PStr ''data'')
     then (case decrypt_data_message L (PDict m) k of Inr p \<Rightarrow> [] | Inl e \<Rightarrow> [wire (rot_error ''GCM verification failed'')]) else [])"

lemma gcm_error_sent:
  assumes "open_tx s"
  shows "rot_send_error ''GCM verification failed'' s
    = (Inr (), s\<lparr>tx := tx s @ [wire (rot_error ''GCM verification failed'')]\<rparr>)"
proof -
  have "safe_str ''GCM verification failed''" by code_simp
  from rot_error_sent [OF this _ assms] show ?thesis
    by (cases "rot_send_error ''GCM verification failed'' s")
      (auto simp: refuse_def seq_def bnd_def ret_def split: sum.splits)
qed

lemma data_msg_effect:
  assumes "key_ab s = Some k" and "open_tx s" and "\<And>e. decrypt_data_message L (PDict m) k = Inl e \<Longrightarrow> is_exception e"
  shows "rot_data_msg L (PDict m) s
    = (Inr (), s\<lparr>tx := tx s @ answered L k m, p3_log := p3_log s @ logged L k m\<rparr>)"
proof (cases "map_of m ''type'' = Some (PStr ''data'')")
  case True
  then show ?thesis
    using assms gcm_error_sent [OF assms(2)]
    by (cases "decrypt_data_message L (PDict m) k")
      (auto simp: rot_data_msg_def try_else_def answered_def logged_def)
qed (auto simp: rot_data_msg_def answered_def logged_def ret_def split: option.splits)

text \<open>
  C29: the data phase handles every message on its own. Over any sequence of messages (JSON
  objects within the frame limit) and any segmentation, until the device closes the connection: each data message that opens under the session's
  key is logged, in order; each that does not, be it for a missing field, a text that is not hexadecimal,
  a wrong length or a failed authentication, is answered with one error frame and changes nothing else;
  messages of another type are passed over. Then the loop returns.
\<close>

theorem rot_data_phase_robust:
  assumes "key_ab s = Some k" and "live s" and "open_tx s" and "rx_end s = EndOfStream"
    and "avail s = concat (map wire ms)"
    and "\<forall>m \<in> set ms. json_msg m \<and> (\<forall>e. decrypt_data_message L (PDict m) k = Inl e \<longrightarrow> is_exception e)"
  shows "\<exists>t. rot_data_loop L s = (Inr (), t) \<and> p3_log t = p3_log s @ concat (map (logged L k) ms)
    \<and> tx t = tx s @ concat (map (answered L k) ms) \<and> key_ab t = Some k"
  using assms
proof (induction ms arbitrary: s)
  case Nil
  then show ?case using data_loop_end [of s L] by auto
next
  case (Cons m ms)
  have m: "json_msg m" using Cons.prems(6) by simp
  obtain c where c: "recv_json s = (Inr (PDict m), s\<lparr>rx := c\<rparr>)" "concat c = concat (map wire ms)" "[] \<notin> set c"
    using recv_msg_next [OF m Cons.prems(2)] Cons.prems(5) by auto
  define u where "u = s\<lparr>rx := c, tx := tx s @ answered L k m, p3_log := p3_log s @ logged L k m\<rparr>"
  have "rot_data_msg L (PDict m) (s\<lparr>rx := c\<rparr>) = (Inr (), u)"
    using data_msg_effect [of "s\<lparr>rx := c\<rparr>" k L m] Cons.prems(1,3,6) by (simp add: u_def open_tx_def)
  then have "rot_data_loop L s = rot_data_loop L u" using c(1) by (simp add: rot_data_loop.simps [of L s])
  moreover have "\<exists>t. rot_data_loop L u = (Inr (), t) \<and> p3_log t = p3_log u @ concat (map (logged L k) ms)
      \<and> tx t = tx u @ concat (map (answered L k) ms) \<and> key_ab t = Some k"
    using Cons.prems c by (intro Cons.IH) (simp_all add: u_def live_def open_tx_def)
  ultimately show ?case by (auto simp: u_def)
qed

text \<open>
  C15: sealed messages arrive. The service opens and logs exactly the messages the device sealed
  under the session key, in order, over any segmentation of the stream, and returns when the device
  closes the connection.
\<close>

theorem rot_data_delivered:
  assumes "aead_ok L" and "length k = 32" and "list_all2 (sealed L k) ps ms"
    and "key_ab s = Some k" and "live s" and "avail s = concat (map wire ms)" and "rx_end s = EndOfStream"
  shows "\<exists>t. rot_data_loop L s = (Inr (), t) \<and> p3_log t = p3_log s @ ps"
  by (rule data_loop_delivers [OF assms])

definition demo_data :: payload where
  "demo_data = [(''type'', PStr ''data''), (''nonce'', PStr (hexlify (replicate 12 0))),
     (''ciphertext'', PStr (hexlify [8, 9])), (''tag'', PStr (hexlify (replicate 16 6)))]"

lemma demo_sealed: "sealed ref_lib (replicate 32 6) [8, 9] demo_data"
  unfolding sealed_def
  by (rule conjI [OF _ exI [of _ blank_io]])
    (simp_all add: encrypt_data_message_def bnd_urandom GCM_NONCE_LEN_def GCM_TAG_LEN_def ref_lib_def
      demo_data_def draw_def blank_io_def slice_neg_stop_def slice_neg_start_def Let_def map_replicate_trivial
      flip: replicate_Suc)

lemma rot_data_delivered_witness:
  "\<exists>t. rot_data_loop ref_lib ((demo_service [wire demo_data, wire demo_data])\<lparr>key_ab := Some (replicate 32 6)\<rparr>)
      = (Inr (), t)
     \<and> p3_log t = p3_log ((demo_service [wire demo_data, wire demo_data])\<lparr>key_ab := Some (replicate 32 6)\<rparr>)
         @ [[8, 9], [8, 9]]"
proof (rule rot_data_delivered)
  show "aead_ok ref_lib" by (rule aead_ok_ref_lib)
  show "list_all2 (sealed ref_lib (replicate 32 6)) [[8, 9], [8, 9]] [demo_data, demo_data]"
    by (simp add: demo_sealed)
  have "flat_msg demo_data"
    using encrypt_data_ok [OF aead_ok_ref_lib, of "replicate 32 6"] demo_sealed by (fastforce simp: sealed_def)
  then have "[] \<noteq> wire demo_data" using wire_nonempty by metis
  then show "live ((demo_service [wire demo_data, wire demo_data])\<lparr>key_ab := Some (replicate 32 6)\<rparr>)"
    by (simp add: live_def demo_service_def)
qed (simp_all add: demo_service_def)


text \<open>A message with a bad nonce between two good ones, and one of another type.\<close>

definition demo_bad_data :: payload where
  "demo_bad_data = [(''type'', PStr ''data''), (''nonce'', PStr ''zz'')]"

definition demo_mixed :: "payload list" where
  "demo_mixed = [demo_data, demo_bad_data, session_ack, demo_data]"

lemma demo_bad_decrypt: "decrypt_data_message L (PDict demo_bad_data) k = Inl (LibRaised ValueKind)"
proof -
  have "fromhex ''zz'' = Inl (LibRaised ValueKind)" by code_simp
  then show ?thesis by (simp add: decrypt_data_message_def demo_bad_data_def hex_to_bin_def)
qed

lemma demo_data_ok:
  "decrypt_data_message ref_lib (PDict demo_data) (replicate 32 6) = Inr [8, 9]" "flat_msg demo_data"
  "flat_msg demo_bad_data"
proof -
  show "decrypt_data_message ref_lib (PDict demo_data) (replicate 32 6) = Inr [8, 9]" "flat_msg demo_data"
    using encrypt_data_ok [OF aead_ok_ref_lib, of "replicate 32 6"] demo_sealed by (fastforce simp: sealed_def)+
  have "safe_str ''zz''" by code_simp
  then show "flat_msg demo_bad_data" by (simp add: demo_bad_data_def flat_msg_def del: safe_str_simps)
qed

lemma demo_mixed_effect:
  "concat (map (logged ref_lib (replicate 32 6)) demo_mixed) = [[8, 9], [8, 9]]"
  "concat (map (answered ref_lib (replicate 32 6)) demo_mixed) = [wire (rot_error ''GCM verification failed'')]"
proof -
  have "map_of demo_data ''type'' = Some (PStr ''data'')" "map_of demo_bad_data ''type'' = Some (PStr ''data'')"
    "map_of session_ack ''type'' = Some (PStr ''session_ack'')"
    by (simp_all add: demo_data_def demo_bad_data_def session_ack_def)
  then show "concat (map (logged ref_lib (replicate 32 6)) demo_mixed) = [[8, 9], [8, 9]]"
    "concat (map (answered ref_lib (replicate 32 6)) demo_mixed) = [wire (rot_error ''GCM verification failed'')]"
    by (simp_all add: demo_mixed_def logged_def answered_def demo_data_ok demo_bad_decrypt)
qed

lemma rot_data_phase_robust_witness:
  "\<exists>t. rot_data_loop ref_lib ((demo_service (map wire demo_mixed))\<lparr>key_ab := Some (replicate 32 6)\<rparr>) = (Inr (), t)
     \<and> p3_log t = [[8, 9], [8, 9]] \<and> tx t = [wire (rot_error ''GCM verification failed'')]"
proof -
  let ?s = "(demo_service (map wire demo_mixed))\<lparr>key_ab := Some (replicate 32 6)\<rparr>"
  have ok: "\<forall>m \<in> set demo_mixed. flat_msg m"
    by (simp add: demo_mixed_def demo_data_ok session_ack_def flat_ack)
  have err: "\<forall>m \<in> set demo_mixed. json_msg m
      \<and> (\<forall>e. decrypt_data_message ref_lib (PDict m) (replicate 32 6) = Inl e \<longrightarrow> is_exception e)"
    using flat_json_msg ok
    by (auto simp: demo_mixed_def demo_data_ok demo_bad_decrypt exc_class_defs)
      (auto simp: decrypt_data_message_def session_ack_def exc_class_defs key_error_def)
  have live: "live ?s" using ok [THEN bspec, THEN wire_nonempty] by (force simp: live_def demo_service_def)
  have io: "open_tx ?s" "rx_end ?s = EndOfStream" "key_ab ?s = Some (replicate 32 6)" "avail ?s = concat (map wire demo_mixed)"
    "p3_log ?s = []" "tx ?s = []"
    by (simp_all add: demo_service_def open_tx_def blank_io_def)
  from rot_data_phase_robust [OF io(3) live io(1,2,4) err] show ?thesis
    unfolding demo_mixed_effect io(5,6) by auto
qed

end
