(* ===== verification/Puf_Props.thy ===== *)
theory Puf_Props
  imports Puf_Server Rot_Props
begin

text \<open>
  The root-of-trust server process: in every state it can reach, every thread is on the way to
  what its session does alone, and is authenticated only by a signature over its own transcript.
\<close>

section \<open>One turn\<close>

lemma keeps_rest_json: "keeps (\<lambda>s. length (avail s) \<le> n) recv_json"
  by (rule keepsI) (use jmsg.recv_rx le_trans in blast)

lemma keeps_rest_handshake: "keeps (\<lambda>s. length (avail s) \<le> n) (rot_handshake L pr)"
  unfolding rot_handshake_def rot_challenge_def rot_response_def refuse_def Let_def split_def
  by (intro keeps_bnd keeps_seq keeps_rest_json keeps_if keeps_intro keeps_modify) simp_all

lemma handshake_rx: "rot_handshake L pr s = (r, t) \<Longrightarrow> length (avail t) \<le> length (avail s)"
  by (rule keepsD [OF keeps_rest_handshake order_refl])

lemma rot_turn_counts:
  assumes "rot_turn L pr st s = (st', t)" and "turns_to_go st s = Suc n"
  shows "turns_to_go st' t \<le> n"
proof (cases st)
  case Handshaking
  then show ?thesis using assms handshake_rx [of L pr s]
    by (auto simp: rot_ends_def split: prod.splits sum.splits if_splits)
next
  case Receiving
  have "rx u = rx v" if "rot_data_msg L m v = (x, u)" for m v x u
    by (rule keepsD [OF keeps_rx_data_msg refl that])
  then show ?thesis using assms Receiving recv_json_takes [of s]
    by (fastforce simp: rot_ends_def rot_loop_turn_def try_else_def seq_def bnd_def
        split: prod.splits sum.splits if_splits)
qed (use assms in auto)

lemma turns_finish:
  "turns_to_go st s \<le> n \<Longrightarrow> \<exists>r t. ((\<lambda>(st, s). rot_turn L pr st s) ^^ n) (st, s) = (Finished r, t)
     \<and> rest_of_thread L pr st s = (r, t)"
proof (induction n arbitrary: st s)
  case 0
  then show ?case by (cases st) auto
next
  case (Suc n)
  obtain st' t where t: "rot_turn L pr st s = (st', t)" by fastforce
  have "turns_to_go st' t \<le> n"
  proof (cases "turns_to_go st s")
    case 0
    then show ?thesis using t by (cases st) auto
  next
    case (Suc m)
    then show ?thesis using rot_turn_counts [OF t Suc] Suc.prems by simp
  qed
  from Suc.IH [OF this] rest_of_turn [of L pr st s] t show ?case
    by (auto simp: funpow_Suc_right simp del: funpow.simps)
qed

section \<open>The invariant\<close>

definition thread_ok :: "cryptolib \<Rightarrow> (nat \<Rightarrow> bool) \<Rightarrow> bytes \<Rightarrow> pyval \<Rightarrow> puf_thread \<Rightarrow> bool" where
  "thread_ok L pr idb reg th \<longleftrightarrow>
     rest_of_thread L pr (thr_stage th) (thr_session th) = handle_puf_client L pr (thr_conn th) idb reg
     \<and> turns_to_go (thr_stage th) (thr_session th) \<le> length (avail (thr_conn th)) + 2
     \<and> (thr_stage th = Handshaking \<longrightarrow> \<not> authenticated (thr_session th))"

lemma thread_ok_new:
  "thread_ok L pr idb reg \<lparr>thr_conn = c, thr_stage = Handshaking, thr_session = new_rot_session c idb reg\<rparr>"
  by (simp add: thread_ok_def handle_puf_client_def)

lemma thread_ok_turn:
  assumes "thread_ok L pr idb reg th" and "rot_turn L pr (thr_stage th) (thr_session th) = (st, s)"
  shows "thread_ok L pr idb reg (th\<lparr>thr_stage := st, thr_session := s\<rparr>)"
proof -
  have "turns_to_go st s \<le> turns_to_go (thr_stage th) (thr_session th)"
    using rot_turn_counts [OF assms(2)] assms(2)
    by (cases "turns_to_go (thr_stage th) (thr_session th)"; cases "thr_stage th") fastforce+
  moreover have "st \<noteq> Handshaking"
    using assms(2) by (cases "thr_stage th") (auto simp: rot_ends_def split: prod.splits sum.splits if_splits)
  ultimately show ?thesis
    using assms rest_of_turn [of L pr "thr_stage th" "thr_session th"] by (simp add: thread_ok_def)
qed

lemma puf_serving_ok:
  assumes "puf_serving L pr srv srv'" and "puf_threads srv = []"
  shows "puf_id_b srv' = puf_id_b srv \<and> puf_reg srv' = puf_reg srv
    \<and> (\<forall>th \<in> set (puf_threads srv'). thread_ok L pr (puf_id_b srv) (puf_reg srv) th)"
  using assms
proof (induction rule: puf_serving.induct)
  case (puf_next srv srv' srv'')
  from puf_next.hyps(2) show ?case
  proof (cases rule: puf_step.cases)
    case (puf_turns i)
    obtain st s where t: "rot_turn L pr (thr_stage (puf_threads srv' ! i)) (thr_session (puf_threads srv' ! i)) = (st, s)"
      by fastforce
    have "thread_ok L pr (puf_id_b srv) (puf_reg srv)
        ((puf_threads srv' ! i)\<lparr>thr_stage := st, thr_session := s\<rparr>)"
      using puf_next puf_turns by (intro thread_ok_turn [OF _ t]) simp
    then show ?thesis using puf_next puf_turns t
      by (auto simp: puf_turn_def Let_def dest!: set_update_subset_insert [THEN subsetD])
  qed (use puf_next thread_ok_new in \<open>auto simp: puf_accept_def puf_interrupt_def\<close>)
qed simp

lemma run_proved:
  assumes "rot_run L pr (new_rot_session conn idb reg) = (r, t)" and "authenticated t"
  shows "device_proved L reg idb (draw conn 0 16) (draw conn 16 32) (key_ab t)"
proof -
  obtain q u where h: "rot_handshake L pr (new_rot_session conn idb reg) = (q, u)" "Rot_Laws.data_step L u t"
    using rot_run_split [OF assms(1)] by auto
  show ?thesis
    using rot_handshake_run [OF h(1)] h(2) assms(2) by (auto simp: Rot_Laws.data_step_def split: if_splits)
qed

text \<open>An authenticated thread is authenticated by a signature over its own transcript.\<close>

lemma authenticated_proved:
  assumes "thread_ok L pr idb reg th" and "authenticated (thr_session th)"
  shows "device_proved L reg idb (draw (thr_conn th) 0 16) (draw (thr_conn th) 16 32) (key_ab (thr_session th))"
proof -
  let ?s = "thr_session th"
  obtain r t where alone: "rest_of_thread L pr (thr_stage th) ?s = (r, t)" by fastforce
  have h: "handle_puf_client L pr (thr_conn th) idb reg = (r, t)"
    and st: "thr_stage th \<noteq> Handshaking" using assms alone by (auto simp: thread_ok_def)
  have same: "authenticated t = authenticated ?s \<and> key_ab t = key_ab ?s"
  proof (cases "thr_stage th")
    case Receiving
    obtain x u where "rot_data_loop L ?s = (x, u)" by fastforce
    with rot_data_loop_run [OF this] alone Receiving show ?thesis
      by (cases x) (auto simp: Rot_Laws.data_step_def)
  qed (use alone st in auto)
  obtain q u where run: "rot_run L pr (new_rot_session (thr_conn th) idb reg) = (q, u)" by fastforce
  then have "t = u\<lparr>sock_closed := True\<rparr>"
    using h by (cases q) (auto simp: handle_puf_client_def try_finally_def seq_def bnd_def)
  then show ?thesis
    using run_proved [OF run] same assms(2) by simp
qed

section \<open>Sessions of the process\<close>

text \<open>
  C8: the threads of the root-of-trust server do not disturb each other. In every state the server
  reaches from its start, under every interleaving of connections and turns: each thread, after at
  most as many further turns as its connection has bytes, plus two, has ended with exactly the
  outcome and state that handling its connection alone gives, its socket closed; and if it is
  authenticated, then by a signature over the transcript of its own challenge and ephemeral key.
\<close>

theorem puf_threads_run_alone:
  assumes "puf_main fs ip rp = Inr srv" and "puf_serving L pr srv srv'" and "th \<in> set (puf_threads srv')"
  shows "(\<exists>r t. ((\<lambda>(st, s). rot_turn L pr st s) ^^ (length (avail (thr_conn th)) + 2))
        (thr_stage th, thr_session th) = (Finished r, t)
      \<and> handle_puf_client L pr (thr_conn th) (puf_id_b srv) (puf_reg srv) = (r, t) \<and> sock_closed t)
    \<and> (authenticated (thr_session th) \<longrightarrow>
        device_proved L (puf_reg srv) (puf_id_b srv) (draw (thr_conn th) 0 16) (draw (thr_conn th) 16 32)
          (key_ab (thr_session th)))"
proof -
  have "puf_threads srv = []" using assms(1) by (auto simp: puf_main_def rbind_Inr_iff)
  with puf_serving_ok [OF assms(2)] assms(3) have ok: "thread_ok L pr (puf_id_b srv) (puf_reg srv) th" by blast
  obtain r t where t: "((\<lambda>(st, s). rot_turn L pr st s) ^^ (length (avail (thr_conn th)) + 2))
        (thr_stage th, thr_session th) = (Finished r, t)"
      "handle_puf_client L pr (thr_conn th) (puf_id_b srv) (puf_reg srv) = (r, t)"
    using turns_finish ok unfolding thread_ok_def by metis
  have "sock_closed t"
    using t(2) by (auto simp: handle_puf_client_def try_finally_def split: prod.splits)
  with t authenticated_proved [OF ok] show ?thesis by blast
qed

text \<open>A process started from files, and an enrolled device whose handshake has just succeeded.\<close>

definition file_text :: "pyval \<Rightarrow> string" where
  "file_text v = (case dumps v of Inr t \<Rightarrow> t | Inl e \<Rightarrow> [])"

definition demo_files :: files where
  "demo_files = [''id.json'' \<mapsto> file_text (PDict [(''id_b'', PStr (hexlify (replicate 16 4)))]),
     ''reg.json'' \<mapsto> file_text demo_puf_registry]"

definition demo_puf :: puf_server where
  "demo_puf = \<lparr>puf_id_b = replicate 16 4, puf_reg = demo_puf_registry, puf_listening = True, puf_threads = []\<rparr>"

lemma file_text_read: "json_plain v \<Longrightarrow> loads (file_text v) = Inr v"
  using dumps_plain [of v] loads_dumps by (auto simp: file_text_def)

lemma demo_puf_main: "puf_main demo_files ''id.json'' ''reg.json'' = Inr demo_puf"
proof -
  have "json_plain demo_puf_registry"
    by (simp add: demo_puf_registry_def)
  moreover have "json_plain (PDict [(''id_b'', PStr (hexlify (replicate 16 4)))])"
    by simp
  ultimately show ?thesis
    by (simp add: puf_main_def puf_server_start_def load_server_identity_def load_node_registry_def read_json_def
        demo_files_def file_text_read demo_puf_def hex_to_bin_hexlify demo_puf_registry_def ROT_ID_LEN_def)
qed

lemma puf_threads_run_alone_witness:
  "\<exists>srv' th. puf_serving ref_lib (\<lambda>_. False) demo_puf srv' \<and> th \<in> set (puf_threads srv')
    \<and> thr_stage th = Receiving \<and> authenticated (thr_session th)
    \<and> device_proved ref_lib (puf_reg demo_puf) (puf_id_b demo_puf) (draw (thr_conn th) 0 16)
         (draw (thr_conn th) 16 32) (key_ab (thr_session th))"
proof -
  let ?L = ref_lib and ?pr = "\<lambda>_. False"
  let ?c = "blank_io\<lparr>rx := [wire (hello_msg (replicate 16 1) (replicate 16 0)), demo_resp]\<rparr>"
  let ?srv = "puf_accept ?c demo_puf"
  have "[] \<notin> set (rx demo_s)" using demo_nonempty by auto
  then obtain s' where s': "rot_handshake ?L ?pr demo_s = (Inr True, s')" "authenticated s'"
    using server_side [OF ec_ok_ref_lib short_signatures_ref_lib demo_enrolled [of "rx demo_s" "rx demo_d"],
        of "[]" ?pr] by (auto simp: demo_frames)
  have acc: "puf_threads ?srv = [\<lparr>thr_conn = ?c, thr_stage = Handshaking, thr_session = demo_s\<rparr>]"
    by (simp add: puf_accept_def demo_puf_def demo_service_def)
  let ?th = "\<lparr>thr_conn = ?c, thr_stage = Receiving, thr_session = s'\<rparr>"
  have reach: "puf_serving ?L ?pr demo_puf (puf_turn ?L ?pr 0 ?srv)"
    by (intro puf_next [OF puf_next [OF puf_start puf_accepts] puf_turns]) (simp_all add: acc, simp add: demo_puf_def)
  have th: "?th \<in> set (puf_threads (puf_turn ?L ?pr 0 ?srv))"
    using s'(1) by (simp add: puf_turn_def Let_def acc)
  show ?thesis
    using puf_threads_run_alone [OF demo_puf_main reach th] reach th s'(2) by fastforce
qed

end
