(* ===== verification/Pc_Helpers.thy ===== *)
theory Pc_Helpers
  imports Crypto_Utils Protocol Tlv
begin

text \<open>
  The first part of \<open>smg_primary_server/pc_client.py\<close>: the client's own copies of the crypto
  and message helpers, and the sensor registers. They are translated from the client's text;
  the lemmas show them equal to the server's (\<open>Crypto_Utils\<close>, \<open>Protocol\<close>, \<open>Tlv\<close>), the
  byte-array loop of the HMAC pad included, and the client's \<open>recv_msg\<close>, with its own limit
  of 16384 bytes, interprets \<open>framing\<close>.
\<close>

unbundle bit_operations_syntax

section \<open>Crypto helpers\<close>

definition PC_DIGEST_SIZE :: nat where "PC_DIGEST_SIZE = 32"
definition PC_ID_SIZE :: nat where "PC_ID_SIZE = 16"
definition PC_AES_KEY_SIZE :: nat where "PC_AES_KEY_SIZE = 32"
definition PC_GCM_NONCE_SIZE :: nat where "PC_GCM_NONCE_SIZE = 12"
definition PC_GCM_TAG_SIZE :: nat where "PC_GCM_TAG_SIZE = 16"
definition PC_BLOCK_SIZE :: nat where "PC_BLOCK_SIZE = 64"
definition PC_IPAD :: byte where "PC_IPAD = 0x36"
definition PC_OPAD :: byte where "PC_OPAD = 0x5C"

lemmas pc_size_defs = PC_DIGEST_SIZE_def PC_ID_SIZE_def PC_AES_KEY_SIZE_def PC_GCM_NONCE_SIZE_def
  PC_GCM_TAG_SIZE_def PC_BLOCK_SIZE_def PC_IPAD_def PC_OPAD_def

definition pc_sha256 :: "bytes \<Rightarrow> bytes" where
  "pc_sha256 data = sha256 data"

text \<open>\<open>padded[i] = b\<close> on a byte array raises \<open>IndexError\<close> past the end.\<close>

definition store_byte :: "nat \<Rightarrow> byte \<Rightarrow> bytes \<Rightarrow> exc + bytes" where
  "store_byte i b padded =
     (if i < length padded then Inr (padded[i := b]) else Inl (LibRaised IndexKind))"

fun mask_loop :: "byte \<Rightarrow> nat \<Rightarrow> bytes \<Rightarrow> bytes \<Rightarrow> exc + bytes" where
  \<comment> \<open>\<open>for i, b in enumerate(key): padded[i] = b ^ pad_byte\<close>\<close>
  "mask_loop pad i [] padded = Inr padded"
| "mask_loop pad i (b # key) padded =
     rbind (store_byte i (b XOR pad) padded) (mask_loop pad (Suc i) key)"

definition fill_loop :: "byte \<Rightarrow> nat \<Rightarrow> nat \<Rightarrow> bytes \<Rightarrow> exc + bytes" where
  \<comment> \<open>\<open>for i in range(n, block_size): padded[i] = pad_byte\<close>\<close>
  "fill_loop pad n block_size padded = rfold (\<lambda>p i. store_byte i pad p) padded [n..<block_size]"

definition pc_xor_pad :: "bytes \<Rightarrow> byte \<Rightarrow> nat \<Rightarrow> exc + bytes" where
  "pc_xor_pad key pad_byte block_size =
     (let key = (if block_size < length key then sha256 key else key) in
      rbind (mask_loop pad_byte 0 key (replicate block_size 0))
        (fill_loop pad_byte (length key) block_size))"

definition pc_hmac_sha256 :: "bytes \<Rightarrow> bytes \<Rightarrow> exc + bytes" where
  "pc_hmac_sha256 key msg =
     rbind (pc_xor_pad key PC_IPAD PC_BLOCK_SIZE) (\<lambda>ipad.
     rbind (pc_xor_pad key PC_OPAD PC_BLOCK_SIZE) (\<lambda>opad.
     let inner = sha256 (ipad @ msg) in Inr (sha256 (opad @ inner))))"

definition pc_hkdf_extract :: "bytes \<Rightarrow> bytes \<Rightarrow> exc + bytes" where
  "pc_hkdf_extract salt ikm =
     pc_hmac_sha256 (if salt = [] then replicate PC_DIGEST_SIZE 0 else salt) ikm"

text \<open>
  The loop of \<open>hkdf_expand\<close>; every turn adds a digest, so \<open>n\<close> turns are enough for a length
  of \<open>n\<close>. \<open>bytes([counter])\<close> raises \<open>ValueError\<close> from 256 on.
\<close>

fun pc_expand_loop :: "nat \<Rightarrow> bytes \<Rightarrow> bytes \<Rightarrow> nat \<Rightarrow> bytes \<Rightarrow> bytes \<Rightarrow> nat \<Rightarrow> exc + bytes" where
  "pc_expand_loop fuel prk info len okm t_prev counter =
     (if length okm < len then
        (case fuel of 0 \<Rightarrow> Inr (take len okm)
         | Suc fuel' \<Rightarrow>
            if 256 \<le> counter then Inl (LibRaised ValueKind)
            else rbind (pc_hmac_sha256 prk (t_prev @ info @ [of_nat counter])) (\<lambda>t.
                 pc_expand_loop fuel' prk info len (okm @ t) t (counter + 1)))
      else Inr (take len okm))"

declare pc_expand_loop.simps [simp del]

definition pc_hkdf_expand :: "bytes \<Rightarrow> bytes \<Rightarrow> nat \<Rightarrow> exc + bytes" where
  "pc_hkdf_expand prk info len = pc_expand_loop len prk info len [] [] 1"

definition pc_hkdf :: "bytes \<Rightarrow> bytes \<Rightarrow> bytes \<Rightarrow> nat \<Rightarrow> exc + bytes" where
  "pc_hkdf salt ikm info len = rbind (pc_hkdf_extract salt ikm) (\<lambda>prk. pc_hkdf_expand prk info len)"

definition pc_fit_key :: "bytes \<Rightarrow> nat \<Rightarrow> bytes" where
  "pc_fit_key key len =
     (if len \<le> length key then take len (pc_sha256 key) else key @ replicate (len - length key) 0)"

definition pc_encrypt_gcm :: "cryptolib \<Rightarrow> bytes \<Rightarrow> bytes \<Rightarrow> ('z io_scheme, bytes) py" where
  "pc_encrypt_gcm L plaintext key =
     (let k = pc_fit_key key PC_AES_KEY_SIZE in
      bnd (urandom PC_GCM_NONCE_SIZE) (\<lambda>nonce.
      bnd (lift (aes_encrypt L k nonce plaintext)) (\<lambda>ct_and_tag.
      let ct = slice_neg_stop 0 PC_GCM_TAG_SIZE ct_and_tag;
          tag = slice_neg_start PC_GCM_TAG_SIZE ct_and_tag
      in ret (nonce @ ct @ tag))))"

definition pc_decrypt_gcm :: "cryptolib \<Rightarrow> bytes \<Rightarrow> bytes \<Rightarrow> exc + bytes" where
  "pc_decrypt_gcm L ciphertext key =
     (let k = pc_fit_key key PC_AES_KEY_SIZE;
          nonce = take PC_GCM_NONCE_SIZE ciphertext;
          ct = slice_neg_stop PC_GCM_NONCE_SIZE PC_GCM_TAG_SIZE ciphertext;
          tag = slice_neg_start PC_GCM_TAG_SIZE ciphertext
      in aes_decrypt L k nonce (ct @ tag))"

definition pc_concat :: "bytes list \<Rightarrow> bytes" where
  "pc_concat args = concat args"

section \<open>Equality with the server's helpers\<close>

lemma mask_loop_take:
  assumes "i + length key \<le> length padded"
  shows "mask_loop pad i key padded
    = Inr (take i padded @ map (\<lambda>b. b XOR pad) key @ drop (i + length key) padded)"
  using assms
proof (induction key arbitrary: i padded)
  case (Cons b key)
  then have i: "i < length padded" by simp
  have "take (Suc i) (padded[i := b XOR pad]) = take i padded @ [b XOR pad]"
    using i by (simp add: take_Suc_conv_app_nth)
  moreover have "drop (Suc i + length key) (padded[i := b XOR pad]) = drop (Suc i + length key) padded"
    by simp
  ultimately show ?case
    using Cons.IH [of "Suc i" "padded[i := b XOR pad]"] Cons.prems i by (simp add: store_byte_def)
qed simp

lemma fill_loop_drop:
  assumes "n \<le> m" and "m \<le> length padded"
  shows "fill_loop pad n m padded = Inr (take n padded @ replicate (m - n) pad @ drop m padded)"
  using assms
proof (induction "m - n" arbitrary: n padded)
  case 0
  then show ?case by (simp add: fill_loop_def)
next
  case (Suc k)
  then have n: "n < m" "n < length padded" by simp_all
  have "fill_loop pad n m padded = fill_loop pad (Suc n) m (padded[n := pad])"
    using n by (simp add: fill_loop_def upt_conv_Cons store_byte_def)
  also have "\<dots> = Inr (take (Suc n) (padded[n := pad]) @ replicate (m - Suc n) pad @ drop m (padded[n := pad]))"
    using Suc n by (intro Suc.hyps(1)) auto
  also have "take (Suc n) (padded[n := pad]) = take n padded @ [pad]"
    using n by (simp add: take_Suc_conv_app_nth)
  also have "drop m (padded[n := pad]) = drop m padded" using n by simp
  also have "m - n = Suc (m - Suc n)" using n by simp
  then have "(take n padded @ [pad]) @ replicate (m - Suc n) pad @ drop m padded
      = take n padded @ replicate (m - n) pad @ drop m padded" by simp
  finally show ?case .
qed

text \<open>The byte-array loops never leave the array and compute the server's pad.\<close>

lemma pc_xor_pad_eq: "32 \<le> block \<Longrightarrow> pc_xor_pad key pad block = Inr (xor_pad key pad block)"
proof -
  assume b: "32 \<le> block"
  define k where "k = (if block < length key then sha256 key else key)"
  have k: "length k \<le> block" using b by (simp add: k_def)
  have "pc_xor_pad key pad block = fill_loop pad (length k) block
      (map (\<lambda>b. b XOR pad) k @ drop (length k) (replicate block 0))"
    using k by (simp add: pc_xor_pad_def mask_loop_take flip: k_def)
  also have "\<dots> = Inr (map (\<lambda>b. b XOR pad) k @ replicate (block - length k) pad)"
    using k by (simp add: fill_loop_drop)
  finally show ?thesis by (simp add: xor_pad_def Let_def flip: k_def)
qed

lemma pc_hmac_eq: "pc_hmac_sha256 key msg = Inr (hmac_sha256 key msg)"
  by (simp add: pc_hmac_sha256_def hmac_sha256_def pc_xor_pad_eq pc_size_defs BLOCK_SIZE_def
      IPAD_def OPAD_def Let_def)

lemma pc_expand_loop_eq:
  "len \<le> length okm + fuel \<Longrightarrow>
   pc_expand_loop fuel prk info len okm t_prev counter = hkdf_expand_loop prk info len okm t_prev counter"
proof (induction fuel arbitrary: okm t_prev counter)
  case 0
  then show ?case by (simp add: pc_expand_loop.simps hkdf_expand_loop.simps)
next
  case (Suc fuel)
  show ?case
  proof (cases "length okm < len \<and> counter < 256")
    case True
    define t where "t = hmac_sha256 prk (t_prev @ info @ [of_nat counter])"
    have "pc_expand_loop fuel prk info len (okm @ t) t (counter + 1)
        = hkdf_expand_loop prk info len (okm @ t) t (counter + 1)"
      using Suc.prems by (intro Suc.IH) (simp add: t_def)
    then show ?thesis
      using True by (simp add: pc_expand_loop.simps [of "Suc fuel"] hkdf_expand_loop.simps [of prk info len okm]
          pc_hmac_eq Let_def flip: t_def)
  next
    case False
    then show ?thesis
      by (auto simp: pc_expand_loop.simps [of "Suc fuel"] hkdf_expand_loop.simps [of prk info len okm])
  qed
qed

lemma pc_hkdf_eq: "pc_hkdf salt ikm info len = hkdf salt ikm info len"
  by (simp add: pc_hkdf_def hkdf_def pc_hkdf_extract_def hkdf_extract_def pc_hmac_eq pc_hkdf_expand_def
      hkdf_expand_def pc_expand_loop_eq PC_DIGEST_SIZE_def DIGEST_SIZE_def)

lemma pc_fit_key_eq: "pc_fit_key = fit_key"
  by (simp add: fun_eq_iff pc_fit_key_def fit_key_def pc_sha256_def h_sha256_def)

lemma pc_encrypt_eq: "pc_encrypt_gcm L p k = encrypt_gcm L p k"
  by (simp add: pc_encrypt_gcm_def encrypt_gcm_def pc_fit_key_eq pc_size_defs size_defs)

lemma pc_decrypt_eq: "pc_decrypt_gcm L c k = decrypt_gcm L c k"
  by (simp add: pc_decrypt_gcm_def decrypt_gcm_def pc_fit_key_eq pc_size_defs size_defs)

lemma pc_sha_eq: "pc_sha256 = h_sha256"
  by (simp add: fun_eq_iff pc_sha256_def h_sha256_def)

lemma pc_concat_simps [simp]: "pc_concat [] = []" "pc_concat (x # xs) = x @ pc_concat xs"
  by (simp_all add: pc_concat_def)

lemmas pc_helper_eqs = pc_hkdf_eq pc_encrypt_eq pc_decrypt_eq pc_sha_eq

section \<open>Messages\<close>

definition PC_BYTES_FIELDS :: "string list" where
  "PC_BYTES_FIELDS =
     [''A_GEN_bl'', ''B_GEN_bl'', ''ID_A'', ''ID_B'', ''ShS_A'', ''ShS_B'',
      ''INIT_cif'', ''SES_cif'', ''SES_id'', ''MSG_cif'', ''RES_cif'',
      ''A_END_cif'', ''B_END_cif'', ''VERIF_cif'', ''RESP_cif'',
      ''CONF_cif'']"

definition pc_pack_payload :: "payload \<Rightarrow> exc + bytes" where
  "pc_pack_payload p =
     (let serialized = map (\<lambda>(k, v). (k, case v of PBytes b \<Rightarrow> PStr (hexlify b) | _ \<Rightarrow> v)) p in
      rbind (dumps (PDict serialized)) (\<lambda>text.
      let body = str_bytes text in
      rbind (to_bytes4 (int (length body))) (\<lambda>hdr. Inr (hdr @ body))))"

definition pc_unpack_value :: "string \<Rightarrow> pyval \<Rightarrow> pyval" where
  "pc_unpack_value k v =
     (case v of
        PStr s \<Rightarrow> if k \<in> set PC_BYTES_FIELDS
                  then (case unhexlify s of Inr b \<Rightarrow> PBytes b | Inl e \<Rightarrow> v) else v
      | _ \<Rightarrow> v)"

definition pc_unpack_payload :: "bytes \<Rightarrow> exc + pyval" where
  "pc_unpack_payload raw =
     rbind (utf8_decode raw) (\<lambda>text.
     rbind (loads text) (\<lambda>d.
     case d of PDict m \<Rightarrow> Inr (PDict (map (\<lambda>(k, v). (k, pc_unpack_value k v)) m))
     | _ \<Rightarrow> Inl attribute_error))"

definition pc_send_msg :: "payload \<Rightarrow> ('z io_scheme, unit) py" where
  "pc_send_msg p = bnd (lift (pc_pack_payload p)) sock_sendall"

definition pc_bad_len :: "int \<Rightarrow> exc" where
  "pc_bad_len n = Raised ValueKind (''recv_msg: frame size '' @ int_str n @ '' out of range'')"

definition pc_recv_msg :: "('z io_scheme, pyval) py" where
  "pc_recv_msg =
     bnd (recv_loop ''Connection closed'' 4 []) (\<lambda>hdr.
     let msg_len = be_int hdr in
     if msg_len = 0 \<or> 16384 < msg_len then raise (pc_bad_len msg_len)
     else bnd (recv_loop ''Connection closed'' (nat msg_len) []) (\<lambda>body.
       lift (pc_unpack_payload body)))"

lemma pc_pack_eq: "pc_pack_payload p = pack_payload p"
proof -
  have "(case v of PBytes b \<Rightarrow> PStr (hexlify b) | _ \<Rightarrow> v) = pack_value v" for v by (cases v) auto
  then show ?thesis by (simp add: pc_pack_payload_def pack_payload_def)
qed

lemma pc_unpack_eq: "pc_unpack_payload raw = unpack_payload raw"
proof -
  have "PC_BYTES_FIELDS = BYTES_FIELDS" by (simp only: PC_BYTES_FIELDS_def BYTES_FIELDS_def)
  then have "pc_unpack_value = unpack_value"
    by (intro ext) (simp only: pc_unpack_value_def unpack_value_def)
  then show ?thesis by (simp only: pc_unpack_payload_def unpack_payload_def)
qed

lemma pc_send_eq: "pc_send_msg p = send_msg p"
  by (simp add: pc_send_msg_def send_msg_def pc_pack_eq)

interpretation pcmsg: framing pc_pack_payload pc_recv_msg pc_unpack_payload 16384 pc_bad_len
    wf_payload view_payload
proof
  fix m f assume "wf_payload m" "pc_pack_payload m = Inr f"
  then show "\<exists>body. f = frame body \<and> 0 < length body \<and> pc_unpack_payload body = Inr (view_payload m)"
    using pack_payload_frame by (simp add: pc_pack_eq pc_unpack_eq)
next
  show "\<exists>h b. pc_recv_msg = recv_frame h b 16384 pc_bad_len pc_unpack_payload"
    unfolding pc_recv_msg_def recv_frame_def Let_def by blast
qed simp

lemmas keeps_pc_recv_msg [keeps_intro] = pcmsg.keeps_recv

lemma keeps_pc_send_msg [keeps_intro]:
  "(\<And>s x y. P s \<Longrightarrow> P (s\<lparr>tx := x, tx_left := y\<rparr>)) \<Longrightarrow> keeps P (pc_send_msg p)"
  unfolding pc_send_msg_def by (intro keeps_intro)

section \<open>Registers\<close>

definition smg_normalize :: "bytes \<Rightarrow> exc + bytes" where
  "smg_normalize raw_data =
     rbind (pack_I (int (length raw_data))) (\<lambda>header.
     let payload = header @ raw_data;
         pad = (64 - length payload mod 64) mod 64
     in Inr (payload @ replicate pad 0))"

definition pc_tlv_join :: "bytes list \<Rightarrow> exc + bytes" where
  \<comment> \<open>\<open>b"".join(struct.pack(">H", len(p)) + p for p in parts)\<close>\<close>
  "pc_tlv_join parts =
     rbind (rmap (\<lambda>p. rbind (pack_H (int (length p))) (\<lambda>h. Inr (h @ p))) parts) (\<lambda>ps. Inr (concat ps))"

definition pc_make_reg_reg :: "bytes \<Rightarrow> bytes \<Rightarrow> int \<Rightarrow> bytes \<Rightarrow> bytes \<Rightarrow> bytes \<Rightarrow> exc + bytes" where
  "pc_make_reg_reg SMG_reg TS_b M_num ID_A ID_B SES_id =
     rbind (pack_I M_num) (\<lambda>m. pc_tlv_join [SMG_reg, TS_b, m, ID_A, ID_B, SES_id])"

definition make_msg_reg :: "bytes \<Rightarrow> bytes \<Rightarrow> int \<Rightarrow> bytes \<Rightarrow> bytes \<Rightarrow> bytes \<Rightarrow> exc + bytes" where
  "make_msg_reg SMG_reg TS_b M_num ID_A PREG_bl A_REG_bl =
     rbind (pack_I M_num) (\<lambda>m. pc_tlv_join [SMG_reg, TS_b, m, ID_A, PREG_bl, A_REG_bl])"

definition pc_make_end_reg :: "bytes \<Rightarrow> bytes \<Rightarrow> bytes \<Rightarrow> bytes \<Rightarrow> exc + bytes" where
  "pc_make_end_reg TS_b SES_id ID_A ID_B = pc_tlv_join [TS_b, SES_id, ID_A, ID_B]"

text \<open>\<open>struct.pack(">Q", int(time.time()))\<close>; \<open>int\<close> drops the fraction towards zero.\<close>

definition int_of_time :: "rat \<Rightarrow> int" where
  "int_of_time x = (if x < 0 then - \<lfloor>- x\<rfloor> else \<lfloor>x\<rfloor>)"

definition ts_bytes :: "('z io_scheme, bytes) py" where
  "ts_bytes = bnd time_time (\<lambda>now. lift (pack_Q (int_of_time now)))"

definition ts_int :: "('z io_scheme, int) py" where
  "ts_int = bnd time_time (\<lambda>now. ret (int_of_time now))"

lemma pc_tlv_join_eq: "pc_tlv_join = tlv_join"
  by (simp add: fun_eq_iff pc_tlv_join_def tlv_join_def tlv_def [abs_def])

lemma pc_make_reg_reg_eq: "pc_make_reg_reg = make_reg_reg"
  by (simp add: fun_eq_iff pc_make_reg_reg_def make_reg_reg_def pc_tlv_join_eq)

text \<open>A normalised reading is a whole number of 64-byte blocks and starts with its length and text.\<close>

lemma smg_normalize_Inr:
  assumes "length raw < 2 ^ 32"
  shows "\<exists>pad. smg_normalize raw = Inr (be_bytes 4 (int (length raw)) @ raw @ replicate pad 0) \<and> pad < 64
    \<and> (4 + length raw + pad) mod 64 = 0"
proof -
  define n where "n = 4 + length raw"
  define pad where "pad = (64 - n mod 64) mod 64"
  define q r where "q = n div 64" and "r = n mod 64"
  have n: "n = 64 * q + r" and r: "r < 64" by (simp_all add: q_def r_def)
  have "n + pad = 64 * (q + (if r = 0 then 0 else 1))"
    using r by (simp add: pad_def n)
  then have "(n + pad) mod 64 = 0" by simp
  then show ?thesis
    using assms by (intro exI [of _ pad]) (simp add: smg_normalize_def struct_pack_ok pad_def n_def Let_def)
qed

end
