(* ===== verification/Pc_Client.thy ===== *)
theory Pc_Client
  imports Pc_Helpers Pytext
begin

text \<open>
  \<open>SecureNodeClient\<close> and \<open>run_client\<close> of \<open>smg_primary_server/pc_client.py\<close>: the initiator of
  phases P2 to P5. The state extends the surroundings \<open>io\<close> with the object's attributes and the
  metrics of the run; a peer identity is whatever value the server sent. Parameters: \<open>L\<close>, the
  cryptography package; \<open>lib\<close>, the text of library exceptions; \<open>pr\<close>, the Unicode table;
  \<open>gauss\<close>, the values the seeded generator returns call by call; whether the TCP connection was
  made. Printing and \<open>time.sleep\<close> are left out; the performance counter is the clock \<open>ticks\<close> in
  nanoseconds, read as a float of seconds.
\<close>

section \<open>State\<close>

record pc_metrics =
  p2_duration_us :: int
  p3_duration_us :: int
  p4_sum_us :: int
  p4_done :: int
  p5_duration_us :: int
  handshake_total_us :: int
  p4_latencies :: "int list"
  pc_errors :: "string list"

definition pc_no_metrics :: pc_metrics where
  "pc_no_metrics = \<lparr>p2_duration_us = 0, p3_duration_us = 0, p4_sum_us = 0, p4_done = 0,
     p5_duration_us = 0, handshake_total_us = 0, p4_latencies = [], pc_errors = []\<rparr>"

record node_client = io +
  c_ID :: bytes
  c_key :: bytes
  c_peer_id :: pyval
  c_active :: bool
  c_M_num :: int
  c_K_AB :: "bytes option"
  c_K_AB_enc :: "bytes option"
  c_SES_id :: "bytes option"
  c_ShS_AB :: "bytes option"
  c_PRV_bl :: "bytes option"
  c_r_A :: "bytes option"
  c_r_A2 :: "bytes option"
  c_last_A_REG_bl :: "bytes option"
  c_metrics :: pc_metrics

type_synonym 'a client = "(node_client, 'a) py"

definition new_client :: "io \<Rightarrow> bytes \<Rightarrow> bytes \<Rightarrow> node_client" where
  "new_client conn device_id key = io.extend conn
     \<lparr>c_ID = device_id, c_key = key, c_peer_id = PNone, c_active = False, c_M_num = 0,
      c_K_AB = None, c_K_AB_enc = None, c_SES_id = None, c_ShS_AB = None, c_PRV_bl = None,
      c_r_A = None, c_r_A2 = None, c_last_A_REG_bl = None, c_metrics = pc_no_metrics\<rparr>"

text \<open>An attribute that holds \<open>None\<close> raises \<open>TypeError\<close> where bytes are needed, one that was
  never assigned \<open>AttributeError\<close>.\<close>

definition bytes_of :: "bytes option \<Rightarrow> exc + bytes" where
  "bytes_of x = (case x of None \<Rightarrow> Inl type_error | Some b \<Rightarrow> Inr b)"

definition attr_of :: "bytes option \<Rightarrow> exc + bytes" where
  "attr_of x = (case x of None \<Rightarrow> Inl attribute_error | Some b \<Rightarrow> Inr b)"

section \<open>The initiator\<close>

definition p1_provision :: "bytes \<Rightarrow> bytes \<Rightarrow> unit client" where
  "p1_provision device_id key = modify (\<lambda>s. s\<lparr>c_ID := device_id, c_key := key\<rparr>)"

definition p2_initiator_compute :: "bytes \<Rightarrow> (bytes \<times> bytes) client" where
  "p2_initiator_compute salt =
     bnd (urandom 16) (\<lambda>r_A.
     seq (modify (\<lambda>s. s\<lparr>c_r_A := Some r_A\<rparr>))
     (bnd (gets c_ID) (\<lambda>ID.
      bnd (lift (pc_hkdf salt (pc_concat [r_A, ID]) [] 32)) (\<lambda>shs_a.
      ret (shs_a, pc_sha256 (pc_concat [r_A, str_bytes ''GEN'', ID]))))))"

definition p2_finalize :: "bytes \<Rightarrow> pyval \<Rightarrow> bytes \<Rightarrow> pyval \<Rightarrow> unit client" where
  "p2_finalize shs_a shs_b gen_a gen_b =
     bnd (lift (as_bytes shs_b)) (\<lambda>b.
     let ShS_AB = pc_sha256 (pc_concat [shs_a, b]) in
     seq (modify (\<lambda>s. s\<lparr>c_ShS_AB := Some ShS_AB\<rparr>))
     (bnd (lift (as_bytes gen_b)) (\<lambda>g.
      let GEN_bl = pc_sha256 (pc_concat [gen_a, g]) in
      seq (modify (\<lambda>s. s\<lparr>c_PRV_bl := Some GEN_bl\<rparr>))
      (bnd (getr (\<lambda>s. attr_of (c_r_A s))) (\<lambda>r_A.
       bnd (getr (\<lambda>s. as_bytes (c_peer_id s))) (\<lambda>peer.
       bnd (lift (pc_hkdf ShS_AB (pc_concat [r_A, peer]) [] 32)) (\<lambda>K_AB.
       modify (\<lambda>s. s\<lparr>c_K_AB := Some K_AB\<rparr>))))))))"

definition p3_initiator_prepare :: "cryptolib \<Rightarrow> pyval \<Rightarrow> payload client" where
  "p3_initiator_prepare L peer_id =
     bnd (urandom 16) (\<lambda>r_A2.
     seq (modify (\<lambda>s. s\<lparr>c_r_A2 := Some r_A2\<rparr>))
     (bnd ts_bytes (\<lambda>ts.
      bnd (gets c_ID) (\<lambda>ID.
      bnd (lift (as_bytes peer_id)) (\<lambda>peer.
      bnd (getr (\<lambda>s. bytes_of (c_ShS_AB s))) (\<lambda>shs.
      let INIT_reg = pc_concat [r_A2, ts, ID, peer, shs];
          A_INIT_bl = pc_sha256 INIT_reg in
      bnd (getr (\<lambda>s. bytes_of (c_PRV_bl s))) (\<lambda>prv.
      let PREINIT_bl = pc_sha256 (pc_concat [prv, A_INIT_bl]) in
      bnd (pc_encrypt_gcm L (pc_concat [PREINIT_bl, r_A2, ts]) shs) (\<lambda>init_cif.
      ret [(''type'', PStr ''ses_init''), (''INIT_cif'', PBytes init_cif), (''ID_A'', PBytes ID)]))))))))"

definition p3_initiator_finalize :: "cryptolib \<Rightarrow> pyval \<Rightarrow> payload client" where
  "p3_initiator_finalize L ses_resp =
     bnd (lift (rbind (get_item ''SES_cif'' ses_resp) as_bytes)) (\<lambda>ses_cif.
     bnd (getr (\<lambda>s. bytes_of (c_ShS_AB s))) (\<lambda>shs.
     bnd (lift (pc_decrypt_gcm L ses_cif shs)) (\<lambda>pt.
     let SES_id = take 16 pt; RDN2 = slice 16 32 pt; RDN1_echo = slice 32 48 pt;
         PREINIT_bl = slice 48 80 pt in
     seq (modify (\<lambda>s. s\<lparr>c_SES_id := Some SES_id\<rparr>))
     (bnd (getr (\<lambda>s. attr_of (c_r_A2 s))) (\<lambda>r_A2.
      if RDN1_echo \<noteq> r_A2 then raise (Raised RuntimeKind ''P3: RDN1 mismatch'') else
      let K = pc_sha256 (pc_concat [RDN2, shs]) in
      seq (modify (\<lambda>s. s\<lparr>c_K_AB_enc := Some K\<rparr>))
      (let conf_tag = pc_sha256 (pc_concat [K, SES_id, r_A2, RDN2]) in
       bnd (pc_encrypt_gcm L conf_tag K) (\<lambda>conf_cif.
       bnd (getr (\<lambda>s. bytes_of (c_PRV_bl s))) (\<lambda>prv.
       seq (modify (\<lambda>s. s\<lparr>c_PRV_bl := Some (pc_sha256 (pc_concat [prv, SES_id, PREINIT_bl]))\<rparr>))
       (bnd (gets c_ID) (\<lambda>ID.
        ret [(''type'', PStr ''ses_conf''), (''CONF_cif'', PBytes conf_cif), (''ID_A'', PBytes ID)]))))))))))"

definition p4_send :: "cryptolib \<Rightarrow> bytes \<Rightarrow> payload client" where
  "p4_send L sensor_json =
     seq (modify (\<lambda>s. s\<lparr>c_M_num := c_M_num s + 1\<rparr>))
     (bnd ts_bytes (\<lambda>ts.
      bnd (lift (smg_normalize sensor_json)) (\<lambda>SMG_reg.
      bnd (gets c_M_num) (\<lambda>M_num.
      bnd (gets c_ID) (\<lambda>ID.
      bnd (getr (\<lambda>s. as_bytes (c_peer_id s))) (\<lambda>peer.
      bnd (getr (\<lambda>s. bytes_of (c_SES_id s))) (\<lambda>ses_id.
      bnd (lift (pc_make_reg_reg SMG_reg ts M_num ID peer ses_id)) (\<lambda>REG_reg.
      let PRE_REG_bl = pc_sha256 REG_reg in
      bnd (getr (\<lambda>s. bytes_of (c_PRV_bl s))) (\<lambda>prv.
      let PREG_bl = pc_sha256 (pc_concat [prv, PRE_REG_bl]) in
      bnd (gets c_key) (\<lambda>key.
      let A_REG_bl = pc_sha256 (pc_concat [PREG_bl, key]) in
      seq (modify (\<lambda>s. s\<lparr>c_last_A_REG_bl := Some A_REG_bl\<rparr>))
      (bnd (lift (make_msg_reg SMG_reg ts M_num ID PREG_bl A_REG_bl)) (\<lambda>MSG_reg.
       bnd (getr (\<lambda>s. bytes_of (c_K_AB_enc s))) (\<lambda>K.
       bnd (pc_encrypt_gcm L MSG_reg K) (\<lambda>msg_cif.
       ret [(''type'', PStr ''dx_msg''), (''MSG_cif'', PBytes msg_cif), (''ID_A'', PBytes ID),
            (''M_num'', PInt M_num)]))))))))))))))"

definition p4_finalize :: "cryptolib \<Rightarrow> pyval \<Rightarrow> unit client" where
  "p4_finalize L res_dict =
     bnd (lift (rbind (get_item ''RES_cif'' res_dict) as_bytes)) (\<lambda>res_cif.
     bnd (getr (\<lambda>s. bytes_of (c_K_AB_enc s))) (\<lambda>K.
     bnd (lift (pc_decrypt_gcm L res_cif K)) (\<lambda>B_REG_bl.
     bnd (getr (\<lambda>s. attr_of (c_last_A_REG_bl s))) (\<lambda>A_REG_bl.
     modify (\<lambda>s. s\<lparr>c_PRV_bl := Some (pc_sha256 (pc_concat [A_REG_bl, B_REG_bl]))\<rparr>)))))"

definition p5_logout_initiate :: "cryptolib \<Rightarrow> payload client" where
  "p5_logout_initiate L =
     bnd ts_bytes (\<lambda>ts.
     bnd (getr (\<lambda>s. bytes_of (c_SES_id s))) (\<lambda>ses_id.
     bnd (gets c_ID) (\<lambda>ID.
     bnd (getr (\<lambda>s. as_bytes (c_peer_id s))) (\<lambda>peer.
     bnd (lift (pc_make_end_reg ts ses_id ID peer)) (\<lambda>end_reg.
     bnd (getr (\<lambda>s. bytes_of (c_K_AB_enc s))) (\<lambda>K.
     bnd (pc_encrypt_gcm L end_reg K) (\<lambda>a_end_cif.
     seq (modify (\<lambda>s. s\<lparr>c_active := False\<rparr>))
     (ret [(''type'', PStr ''logout_req''), (''A_END_cif'', PBytes a_end_cif), (''ID_A'', PBytes ID)]))))))))"

definition p5_logout_finalize :: "cryptolib \<Rightarrow> pyval \<Rightarrow> unit client" where
  "p5_logout_finalize L res_dict =
     bnd (lift (rbind (get_item ''B_END_cif'' res_dict) as_bytes)) (\<lambda>b_end_cif.
     bnd (getr (\<lambda>s. bytes_of (c_K_AB_enc s))) (\<lambda>K.
     bnd (lift (pc_decrypt_gcm L b_end_cif K)) (\<lambda>pt.
     if length pt < 4 then raise (Raised RuntimeKind ''P5: Invalid logout response'') else ret ())))"

section \<open>The runner\<close>

definition pc_seconds :: "pyfloat client" where
  \<comment> \<open>\<open>time.perf_counter()\<close>\<close>
  "pc_seconds = bnd perf_counter_ns (\<lambda>t. ret (fl (of_int t / 1000000000)))"

definition int_of_float :: "pyfloat \<Rightarrow> exc + int" where
  "int_of_float x = (case x of Fin r \<Rightarrow> Inr (int_of_time r)
     | NaN \<Rightarrow> Inl (LibRaised ValueKind) | Inf s \<Rightarrow> Inl (LibRaised OverflowKind))"

definition duration_us :: "pyfloat \<Rightarrow> pyfloat \<Rightarrow> exc + int" where
  \<comment> \<open>\<open>int((end - start) * 1_000_000)\<close>\<close>
  "duration_us start_t end_t = int_of_float (fmul (fsub end_t start_t) (Fin 1000000))"

definition set_metrics :: "(pc_metrics \<Rightarrow> pc_metrics) \<Rightarrow> unit client" where
  "set_metrics f = modify (\<lambda>s. s\<lparr>c_metrics := f (c_metrics s)\<rparr>)"

definition pc_fail :: "(exc_kind \<Rightarrow> string) \<Rightarrow> string \<Rightarrow> exc \<Rightarrow> unit client" where
  \<comment> \<open>\<open>metrics['errors'].append(tag.format(str(e)))\<close> in an \<open>except Exception\<close> clause\<close>
  "pc_fail lib tag e =
     (if is_exception e
      then set_metrics (\<lambda>m. m\<lparr>pc_errors := pc_errors m @ [tag @ exc_str lib e]\<rparr>)
      else raise e)"

definition not_error :: "(nat \<Rightarrow> bool) \<Rightarrow> string \<Rightarrow> pyval \<Rightarrow> unit client" where
  \<comment> \<open>\<open>if resp.get("type") == "error": raise RuntimeError(tag.format(resp.get("error")))\<close>\<close>
  "not_error pr tag resp =
     bnd (lift (get_or ''type'' PNone resp)) (\<lambda>ty.
     if ty = PStr ''error'' then
       bnd (lift (get_or ''error'' PNone resp)) (\<lambda>v. raise (Raised RuntimeKind (tag @ py_str pr v)))
     else ret ())"

definition rot_hello_msg :: "bytes \<Rightarrow> bytes \<Rightarrow> bytes \<Rightarrow> payload" where
  "rot_hello_msg shs_a gen_a ID =
     [(''type'', PStr ''rot_hello''), (''ShS_A'', PStr (hexlify shs_a)),
      (''A_GEN_bl'', PStr (hexlify gen_a)), (''ID_A'', PStr (hexlify ID))]"

definition client_p2 :: "(nat \<Rightarrow> bool) \<Rightarrow> bytes \<Rightarrow> unit client" where
  "client_p2 pr node_salt =
     bnd (p2_initiator_compute node_salt) (\<lambda>(shs_a, gen_a).
     bnd (gets c_ID) (\<lambda>ID.
     seq (pc_send_msg (rot_hello_msg shs_a gen_a ID))
     (bnd pc_recv_msg (\<lambda>rot_resp.
      seq (not_error pr ''P2 error: '' rot_resp)
      (bnd (lift (get_item ''ShS_B'' rot_resp)) (\<lambda>shs_b.
       bnd (lift (get_item ''B_GEN_bl'' rot_resp)) (\<lambda>b_gen_bl.
       bnd (lift (get_item ''ID_B'' rot_resp)) (\<lambda>idb.
       seq (modify (\<lambda>s. s\<lparr>c_peer_id := idb\<rparr>))
       (p2_finalize shs_a shs_b gen_a b_gen_bl)))))))))"

definition client_p3 :: "cryptolib \<Rightarrow> (nat \<Rightarrow> bool) \<Rightarrow> unit client" where
  "client_p3 L pr =
     bnd (gets c_peer_id) (\<lambda>peer.
     bnd (p3_initiator_prepare L peer) (\<lambda>ses_msg.
     seq (pc_send_msg ses_msg)
     (bnd pc_recv_msg (\<lambda>ses_resp.
      seq (not_error pr ''P3 error: '' ses_resp)
      (bnd (p3_initiator_finalize L ses_resp) (\<lambda>conf_msg.
       seq (pc_send_msg conf_msg)
       (bnd pc_recv_msg (\<lambda>conf_ack.
        not_error pr ''P3 conf error: '' conf_ack))))))))"

text \<open>A phase of the handshake: timed; on an exception the error is noted and the socket closed.\<close>

definition timed_phase :: "(exc_kind \<Rightarrow> string) \<Rightarrow> string \<Rightarrow> unit client \<Rightarrow> (int \<Rightarrow> pc_metrics \<Rightarrow> pc_metrics) \<Rightarrow> bool client" where
  "timed_phase lib tag body record_us =
     bnd pc_seconds (\<lambda>start_t.
     try_else
       (seq body (bnd pc_seconds (\<lambda>end_t. bnd (lift (duration_us start_t end_t)) (\<lambda>d. set_metrics (record_us d)))))
       (\<lambda>e. seq (pc_fail lib tag e) (seq sock_close (ret False)))
       (\<lambda>_. ret True))"

text \<open>\<open>_gen_reading(idx, rng)\<close>: five draws per reading.\<close>

definition ratio :: "nat \<Rightarrow> rat \<Rightarrow> pyfloat" where
  \<comment> \<open>\<open>idx / d\<close> for a positive float \<open>d\<close>\<close>
  "ratio idx d = fl (of_nat idx / d)"

definition sensor_fields :: "(nat \<Rightarrow> pyfloat) \<Rightarrow> nat \<Rightarrow> int \<Rightarrow> payload" where
  "sensor_fields gauss idx ms =
     (let g = (\<lambda>k. gauss (5 * idx + k));
          v_bus = fadd (fadd (fl (17141 / 1000)) (g 0)) (ratio idx 4000);
          i_node = fadd (fadd (fl (5670 / 1000)) (g 1)) (ratio idx 8000);
          v_gen = fadd (fadd (fl (16500 / 1000)) (g 2)) (ratio idx 3000);
          i_bus = fadd (fadd (fl (5500 / 1000)) (g 3)) (ratio idx 6000);
          i_gen = fadd (fadd (fl (5200 / 1000)) (g 4)) (ratio idx 5000) in
      [(''V_bus'', PFloat (fround 3 v_bus)), (''I_bus'', PFloat (fround 3 i_bus)),
       (''P_bus'', PFloat (fround 2 (fmul v_bus i_bus))), (''V_gen'', PFloat (fround 3 v_gen)),
       (''I_gen'', PFloat (fround 3 i_gen)), (''P_gen'', PFloat (fround 2 (fmul v_gen i_gen))),
       (''I_node'', PFloat (fround 3 i_node)), (''P_node'', PFloat (fround 2 (fmul v_bus i_node))),
       (''timestamp_ms'', PInt ms), (''saturated'', PBool False)])"

definition gen_reading :: "(nat \<Rightarrow> pyfloat) \<Rightarrow> nat \<Rightarrow> payload client" where
  "gen_reading gauss idx =
     bnd time_time (\<lambda>now.
     bnd (lift (int_of_float (fmul (fl now) (Fin 1000)))) (\<lambda>ms. ret (sensor_fields gauss idx ms)))"

text \<open>Setpoint messages that wait before the answer are skipped; each takes a frame off the stream.\<close>

function skip_setpoints :: "pyval \<Rightarrow> pyval client" where
  "skip_setpoints resp s =
     (case get_or ''type'' PNone resp of
        Inl e \<Rightarrow> (Inl e, s)
      | Inr ty \<Rightarrow>
          if ty = PStr ''setpoint'' then
            (case pc_recv_msg s of (Inl e, t) \<Rightarrow> (Inl e, t) | (Inr m, t) \<Rightarrow> skip_setpoints m t)
          else (Inr resp, s))"
  by pat_completeness auto
termination
proof (relation "measure (\<lambda>(resp, s). length (avail s))")
  fix resp ty m and s t :: node_client and r
  assume "(r, t) = pc_recv_msg s" and "r = Inr m"
  then have "pc_recv_msg s = (Inr m, t)" by simp
  from pcmsg.recv_takes [OF this] show "((m, t), resp, s) \<in> measure (\<lambda>(resp, s). length (avail s))" by simp
qed auto

declare skip_setpoints.simps [simp del]

lemma keeps_prod [keeps_intro]: "(\<And>a b. x = (a, b) \<Longrightarrow> keeps P (f a b)) \<Longrightarrow> keeps P (case x of (a, b) \<Rightarrow> f a b)"
  by (cases x) simp

lemma keeps_skip [keeps_intro]:
  assumes "\<And>s c. P s \<Longrightarrow> P (s\<lparr>rx := c\<rparr>)"
  shows "keeps P (skip_setpoints m)"
proof -
  have "P (snd (skip_setpoints m s))" if "P s" for s
    using that
  proof (induction m s rule: skip_setpoints.induct)
    case (1 resp s)
    have "P t" if "pc_recv_msg s = (r, t)" for r t
      by (rule keepsD [where P = P and m = pc_recv_msg, OF keeps_pc_recv_msg "1.prems" that]) (rule assms)
    then show ?case using 1 by (simp add: skip_setpoints.simps [of resp s] split: sum.splits prod.splits)
  qed
  then show ?thesis by (simp add: keeps_def)
qed

definition p4_exchange :: "cryptolib \<Rightarrow> (nat \<Rightarrow> bool) \<Rightarrow> bytes \<Rightarrow> unit client" where
  "p4_exchange L pr sensor_json =
     bnd (p4_send L sensor_json) (\<lambda>dx_msg.
     seq (pc_send_msg dx_msg)
     (bnd pc_recv_msg (\<lambda>m.
      bnd (skip_setpoints m) (\<lambda>dx_resp.
      seq (not_error pr ''P4 error: '' dx_resp)
      (p4_finalize L dx_resp)))))"

definition p4_turn :: "cryptolib \<Rightarrow> (exc_kind \<Rightarrow> string) \<Rightarrow> (nat \<Rightarrow> bool) \<Rightarrow> (nat \<Rightarrow> pyfloat) \<Rightarrow> nat \<Rightarrow> bool client" where
  "p4_turn L lib pr gauss i =
     bnd (gen_reading gauss i) (\<lambda>sensor_data.
     bnd (lift (dumps (PDict sensor_data))) (\<lambda>text.
     bnd pc_seconds (\<lambda>t0.
     try_else
       (seq (p4_exchange L pr (str_bytes text))
        (bnd pc_seconds (\<lambda>t1.
         bnd (lift (duration_us t0 t1)) (\<lambda>d.
         set_metrics (\<lambda>m. m\<lparr>p4_sum_us := p4_sum_us m + d, p4_done := p4_done m + 1,
           p4_latencies := p4_latencies m @ [d]\<rparr>)))))
       (\<lambda>e. seq (pc_fail lib (''P4 #'' @ int_str (int i + 1) @ '': '') e) (ret False))
       (\<lambda>_. ret True))))"

fun p4_loop :: "cryptolib \<Rightarrow> (exc_kind \<Rightarrow> string) \<Rightarrow> (nat \<Rightarrow> bool) \<Rightarrow> (nat \<Rightarrow> pyfloat) \<Rightarrow> nat list \<Rightarrow> unit client" where
  "p4_loop L lib pr gauss [] = ret ()"
| "p4_loop L lib pr gauss (i # is) =
     bnd (p4_turn L lib pr gauss i) (\<lambda>ok. if ok then p4_loop L lib pr gauss is else ret ())"

definition client_p5 :: "cryptolib \<Rightarrow> unit client" where
  "client_p5 L =
     bnd (p5_logout_initiate L) (\<lambda>logout_msg.
     seq (pc_send_msg logout_msg)
     (bnd pc_recv_msg (\<lambda>logout_resp.
      bnd (lift (get_or ''type'' PNone logout_resp)) (\<lambda>ty.
      if ty = PStr ''logout_res'' then p5_logout_finalize L logout_resp else ret ()))))"

definition client_logout :: "cryptolib \<Rightarrow> (exc_kind \<Rightarrow> string) \<Rightarrow> unit client" where
  "client_logout L lib =
     bnd pc_seconds (\<lambda>start_t.
     try_except
       (seq (client_p5 L)
        (bnd pc_seconds (\<lambda>end_t. bnd (lift (duration_us start_t end_t)) (\<lambda>d.
         set_metrics (\<lambda>m. m\<lparr>p5_duration_us := d\<rparr>)))))
       (pc_fail lib ''P5: ''))"

text \<open>After a connection: the phases in order; a failed handshake ends the run early.\<close>

definition client_session ::
  "cryptolib \<Rightarrow> (exc_kind \<Rightarrow> string) \<Rightarrow> (nat \<Rightarrow> bool) \<Rightarrow> (nat \<Rightarrow> pyfloat) \<Rightarrow> bytes \<Rightarrow> nat \<Rightarrow> pc_metrics client" where
  "client_session L lib pr gauss node_salt num_sends =
     bnd (timed_phase lib ''P2: '' (client_p2 pr node_salt) (\<lambda>d m. m\<lparr>p2_duration_us := d\<rparr>)) (\<lambda>ok.
     if \<not> ok then gets c_metrics else
     bnd (timed_phase lib ''P3: '' (client_p3 L pr) (\<lambda>d m. m\<lparr>p3_duration_us := d\<rparr>)) (\<lambda>ok.
     if \<not> ok then gets c_metrics else
     seq (modify (\<lambda>s. s\<lparr>c_active := True\<rparr>))
     (seq (set_metrics (\<lambda>m. m\<lparr>handshake_total_us := p2_duration_us m + p3_duration_us m\<rparr>))
     (seq (p4_loop L lib pr gauss [0..<num_sends])
     (seq (client_logout L lib)
     (seq sock_close (gets c_metrics)))))))"

definition run_client ::
  "cryptolib \<Rightarrow> (exc_kind \<Rightarrow> string) \<Rightarrow> (nat \<Rightarrow> bool) \<Rightarrow> (nat \<Rightarrow> pyfloat) \<Rightarrow> bool \<Rightarrow> io
   \<Rightarrow> bytes \<Rightarrow> bytes \<Rightarrow> bytes \<Rightarrow> nat \<Rightarrow> (exc + pc_metrics option) \<times> node_client" where
  "run_client L lib pr gauss tcp_ok conn node_id node_key node_salt num_sends =
     (let s = new_client conn node_id node_key in
      if \<not> tcp_ok then (Inr None, s)
      else seq (p1_provision node_id node_key)
        (bnd (client_session L lib pr gauss node_salt num_sends) (\<lambda>m. ret (Some m))) s)"

text \<open>The script's search for the node by its label; \<open>sys.exit(1)\<close> when there is none.\<close>

fun find_entry :: "string \<Rightarrow> (string \<times> pyval) list \<Rightarrow> exc + (string \<times> pyval) option" where
  "find_entry label [] = Inr None"
| "find_entry label ((k, entry) # items) =
     rbind (get_or ''label'' PNone entry) (\<lambda>l.
     if l = PStr label then Inr (Some (k, entry)) else find_entry label items)"

definition unhex_item :: "string \<Rightarrow> pyval \<Rightarrow> exc + bytes" where
  "unhex_item k entry = rbind (rbind (get_item k entry) as_str) unhexlify"

definition client_identity :: "string \<Rightarrow> pyval \<Rightarrow> exc + bytes \<times> bytes \<times> bytes" where
  "client_identity label reg =
     (case reg of
        PDict items \<Rightarrow>
          rbind (find_entry label items) (\<lambda>r. case r of
            None \<Rightarrow> Inl (Raised SystemExitKind ''1'')
          | Some (k, entry) \<Rightarrow>
              rbind (unhexlify k) (\<lambda>node_id.
              rbind (unhex_item ''node_key'' entry) (\<lambda>node_key.
              rbind (unhex_item ''node_salt'' entry) (\<lambda>node_salt.
              Inr (node_id, node_key, node_salt)))))
      | _ \<Rightarrow> Inl attribute_error)"

end
