(* ===== verification/Pc_Agreement.thy ===== *)
theory Pc_Agreement
  imports Pc_Client Handshake_Laws
begin

text \<open>
  The client of \<open>pc_client.py\<close> against the responder of \<open>auth_service.py\<close>: in each phase the
  frames that one end sends are accepted by the other, and both ends finish with the same secrets
  and the same chain head. \<open>pw\<close> is the frame of a message that is always packed within both
  receivers' limits.
\<close>

section \<open>Messages that always travel\<close>

definition flat_payload :: "payload \<Rightarrow> bool" where
  "flat_payload p \<longleftrightarrow> dict_ok p \<and> flat_dict (map (\<lambda>(k, v). (k, pack_value v)) p)
     \<and> dict_size (map (\<lambda>(k, v). (k, pack_value v)) p) \<le> 16382"

definition pw :: "payload \<Rightarrow> bytes" where
  "pw p = (case pack_payload p of Inr f \<Rightarrow> f | Inl e \<Rightarrow> [])"

lemma flat_payload_wf: "flat_payload p \<Longrightarrow> wf_payload p"
  by (simp add: flat_payload_def wf_payload_def flat_dict_plain)

lemma flat_payload_pack:
  assumes "flat_payload p"
  shows "pack_payload p = Inr (pw p) \<and> length (pw p) \<le> 16388"
proof -
  let ?d = "map (\<lambda>(k, v). (k, pack_value v)) p"
  obtain t where "dumps (PDict ?d) = Inr t" "length t \<le> 16384"
    using dumps_flat_dict [of ?d] assms by (auto simp: flat_payload_def)
  then show ?thesis by (simp add: pw_def pack_payload_def to_bytes4_def Let_def del: dumps.simps)
qed

text \<open>More generally, what any payload needs to travel.\<close>

definition light_payload :: "payload \<Rightarrow> bool" where
  "light_payload p \<longleftrightarrow> wf_payload p \<and> pack_payload p = Inr (pw p) \<and> length (pw p) \<le> 16388"

lemma flat_light: "flat_payload p \<Longrightarrow> light_payload p"
  by (simp add: light_payload_def flat_payload_wf flat_payload_pack)

lemma send_light: "light_payload p \<Longrightarrow> open_tx s \<Longrightarrow> send_msg p s = (Inr (), s\<lparr>tx := tx s @ [pw p]\<rparr>)"
  by (rule send_msg_ok) (simp_all add: light_payload_def)

lemma recv_light:
  assumes "light_payload p" and "live s" and "avail s = pw p @ r"
  obtains c where "recv_msg s = (Inr (view_payload p), s\<lparr>rx := c\<rparr>)" "pc_recv_msg s = (Inr (view_payload p), s\<lparr>rx := c\<rparr>)"
    "concat c = r" "[] \<notin> set c"
proof
  note f = assms(1) [unfolded light_payload_def]
  show "recv_msg s = (Inr (view_payload p), s\<lparr>rx := chop (length (pw p)) (rx s)\<rparr>)"
    using msg.recv_pack [of p "pw p" s r] assms(2,3) f by simp
  show "pc_recv_msg s = (Inr (view_payload p), s\<lparr>rx := chop (length (pw p)) (rx s)\<rparr>)"
    using pcmsg.recv_pack [of p "pw p" s r] assms(2,3) f by (simp add: pc_pack_eq)
  show "concat (chop (length (pw p)) (rx s)) = r" using assms(3) by (simp add: concat_chop)
  show "[] \<notin> set (chop (length (pw p)) (rx s))" using assms(2) by (simp add: live_def chop_nonempty)
qed

lemmas send_flat = send_light [OF flat_light]

lemma pc_send_flat: "flat_payload p \<Longrightarrow> open_tx s \<Longrightarrow> pc_send_msg p s = (Inr (), s\<lparr>tx := tx s @ [pw p]\<rparr>)"
  by (simp add: pc_send_eq send_flat)

lemma recv_flat:
  assumes "flat_payload p" and "live s" and "avail s = pw p @ r"
  obtains c where "recv_msg s = (Inr (view_payload p), s\<lparr>rx := c\<rparr>)" "concat c = r" "[] \<notin> set c"
  by (rule recv_light [OF flat_light [OF assms(1)] assms(2,3)])

lemma pc_recv_flat:
  assumes "flat_payload p" and "live s" and "avail s = pw p @ r"
  obtains c where "pc_recv_msg s = (Inr (view_payload p), s\<lparr>rx := c\<rparr>)" "concat c = r" "[] \<notin> set c"
  by (rule recv_light [OF flat_light [OF assms(1)] assms(2,3)])

lemma safe_field_names [simp]:
  "safe_str ''type''" "safe_str ''rot_hello''" "safe_str ''rot_ack''" "safe_str ''ses_init''"
  "safe_str ''ses_reply''" "safe_str ''ses_conf''" "safe_str ''ses_conf_ack''" "safe_str ''dx_msg''"
  "safe_str ''dx_res''" "safe_str ''ShS_A''" "safe_str ''ShS_B''" "safe_str ''A_GEN_bl''"
  "safe_str ''B_GEN_bl''" "safe_str ''ID_A''" "safe_str ''ID_B''" "safe_str ''INIT_cif''"
  "safe_str ''SES_cif''" "safe_str ''SES_id''" "safe_str ''CONF_cif''" "safe_str ''MSG_cif''"
  "safe_str ''RES_cif''" "safe_str ''M_num''" "safe_str ''logout_req''" "safe_str ''A_END_cif''"
  by code_simp+

lemmas flat_simps = flat_payload_def view_payload_def unpack_value_def BYTES_FIELDS_def

lemma hkdf_32: "\<exists>b. hkdf salt ikm [] 32 = Inr b \<and> length b = 32"
  using hkdf_expand_loop_rfc [of 0 "hkdf_extract salt ikm" "[]" 32]
    length_rfc_okm [of "hkdf_extract salt ikm" "[]" 1]
  by (simp add: hkdf_def hkdf_expand_def rfc_okm_def)

definition hkdf32 :: "bytes \<Rightarrow> bytes \<Rightarrow> bytes" where
  "hkdf32 salt ikm = projr (hkdf salt ikm [] 32)"

lemma hkdf32: "hkdf salt ikm [] 32 = Inr (hkdf32 salt ikm)" "length (hkdf32 salt ikm) = 32"
  using hkdf_32 [of salt ikm] by (auto simp: hkdf32_def)

section \<open>P2\<close>

definition honest_hello :: "bytes \<Rightarrow> node_client \<Rightarrow> payload" where
  "honest_hello salt c = rot_hello_msg (hkdf32 salt (draw c 0 16 @ c_ID c))
     (h_sha256 (draw c 0 16 @ str_bytes ''GEN'' @ c_ID c)) (c_ID c)"

definition honest_ack :: "bytes \<Rightarrow> node_session \<Rightarrow> payload" where
  "honest_ack salt s = [(''type'', PStr ''rot_ack''), (''ShS_B'', PBytes (hkdf32 salt (server_key s))),
     (''B_GEN_bl'', PBytes (h_sha256 (salt @ server_id s))), (''ID_B'', PBytes (server_id s))]"

definition p2_shared :: "bytes \<Rightarrow> node_client \<Rightarrow> node_session \<Rightarrow> bytes" where
  "p2_shared salt c s = h_sha256 (hkdf32 salt (draw c 0 16 @ c_ID c) @ hkdf32 salt (server_key s))"

definition p2_genesis :: "bytes \<Rightarrow> node_client \<Rightarrow> node_session \<Rightarrow> bytes" where
  "p2_genesis salt c s = h_sha256 (h_sha256 (draw c 0 16 @ str_bytes ''GEN'' @ c_ID c) @ h_sha256 (salt @ server_id s))"

lemma honest_hello_flat: "length (c_ID c) \<le> 1000 \<Longrightarrow> flat_payload (honest_hello salt c)"
  by (simp add: flat_payload_def honest_hello_def rot_hello_msg_def hkdf32(2) del: safe_str_simps)

lemma honest_hello_view:
  "view_payload (honest_hello salt c) = PDict [(''type'', PStr ''rot_hello''),
     (''ShS_A'', PBytes (hkdf32 salt (draw c 0 16 @ c_ID c))),
     (''A_GEN_bl'', PBytes (h_sha256 (draw c 0 16 @ str_bytes ''GEN'' @ c_ID c))), (''ID_A'', PBytes (c_ID c))]"
  by (simp add: honest_hello_def rot_hello_msg_def view_payload_def unpack_value_def BYTES_FIELDS_def)

lemma honest_ack_flat: "length (server_id s) \<le> 1000 \<Longrightarrow> flat_payload (honest_ack salt s)"
  by (simp add: flat_payload_def honest_ack_def hkdf32(2) del: safe_str_simps)

lemma honest_ack_view: "view_payload (honest_ack salt s) = PDict (honest_ack salt s)"
  by (rule view_clean) (simp add: clean_payload_def honest_ack_def BYTES_FIELDS_def)

lemma p2_client_side:
  assumes "length (c_ID c) \<le> 1000" and "length (server_id s) \<le> 1000"
    and "live c" and "open_tx c" and "avail c = pw (honest_ack salt s) @ r"
  shows "\<exists>c'. client_p2 pr salt c = (Inr (), c') \<and> tx c' = tx c @ [pw (honest_hello salt c)]
    \<and> c_ShS_AB c' = Some (p2_shared salt c s) \<and> c_PRV_bl c' = Some (p2_genesis salt c s)
    \<and> c_peer_id c' = PBytes (server_id s) \<and> c_ID c' = c_ID c \<and> avail c' = r \<and> live c' \<and> open_tx c'"
proof -
  define r_A where "r_A = draw c 0 16"
  define c1 where "c1 = c\<lparr>entropy_pos := entropy_pos c + 16, c_r_A := Some r_A\<rparr>"
  define shs gen where "shs = hkdf32 salt (r_A @ c_ID c)" and "gen = h_sha256 (r_A @ str_bytes ''GEN'' @ c_ID c)"
  have comp: "p2_initiator_compute salt c = (Inr (shs, gen), c1)"
    by (simp add: p2_initiator_compute_def bnd_urandom pc_hkdf_eq hkdf32(1) pc_sha_eq c1_def r_A_def shs_def gen_def)
  define c2 where "c2 = c1\<lparr>tx := tx c @ [pw (honest_hello salt c)]\<rparr>"
  have send: "pc_send_msg (rot_hello_msg shs gen (c_ID c)) c1 = (Inr (), c2)"
    using pc_send_flat [OF honest_hello_flat [OF assms(1), of salt], of c1] assms(4)
    by (simp add: honest_hello_def shs_def gen_def r_A_def c1_def c2_def open_tx_def)
  have "live c2" "avail c2 = pw (honest_ack salt s) @ r"
    using assms(3,5) by (simp_all add: c2_def c1_def live_def)
  then obtain x where x: "pc_recv_msg c2 = (Inr (PDict (honest_ack salt s)), c2\<lparr>rx := x\<rparr>)" "concat x = r" "[] \<notin> set x"
    using pc_recv_flat [OF honest_ack_flat [OF assms(2)]] unfolding honest_ack_view by blast
  define c3 where "c3 = c2\<lparr>rx := x, c_peer_id := PBytes (server_id s), c_ShS_AB := Some (p2_shared salt c s),
    c_PRV_bl := Some (p2_genesis salt c s),
    c_K_AB := Some (hkdf32 (p2_shared salt c s) (r_A @ server_id s))\<rparr>"
  have "client_p2 pr salt c = (Inr (), c3)"
    using comp send x(1)
    by (simp add: client_p2_def bnd_Inr [where m = "p2_initiator_compute salt"] bnd_Inr [where m = pc_recv_msg]
        seq_Inr [where m = "pc_send_msg p" for p] not_error_def honest_ack_def p2_finalize_def pc_sha_eq
        pc_hkdf_eq hkdf32(1) Let_def bnd_getr attr_of_def c1_def c2_def c3_def p2_shared_def p2_genesis_def
        shs_def gen_def r_A_def)
  then show ?thesis
    using x(2,3) assms(3,4) by (simp add: c3_def c2_def c1_def live_def open_tx_def)
qed

definition registered :: "bytes \<Rightarrow> node_client \<Rightarrow> node_session \<Rightarrow> bool" where
  \<comment> \<open>the client's identity is in the registry with the salt it was provisioned with\<close>
  "registered salt c s \<longleftrightarrow> length (c_ID c) \<le> 1000 \<and> length (server_id s) \<le> 1000
     \<and> (\<exists>en h. map_of (registry s) (hexlify (c_ID c)) = Some en \<and> entry_salt en = Some h \<and> unhexlify h = Inr salt)"

definition client_label :: "node_client \<Rightarrow> node_session \<Rightarrow> string" where
  \<comment> \<open>the label the responder gives to a registered client\<close>
  "client_label c s = (case map_of (registry s) (hexlify (c_ID c)) of
     Some en \<Rightarrow> (case entry_label en of None \<Rightarrow> take 8 (hexlify (c_ID c)) | Some l \<Rightarrow> l) | None \<Rightarrow> [])"

lemma p2_server_side:
  assumes "registered salt c s" and "open_tx s"
  shows "\<exists>s'. run_p2 lib (view_payload (honest_hello salt c)) s = (Inr True, s')
    \<and> tx s' = tx s @ [pw (honest_ack salt s)] \<and> rx s' = rx s
    \<and> ShS_AB s' = Some (p2_shared salt c s) \<and> PRV_bl s' = Some (p2_genesis salt c s)
    \<and> peer_id s' = Some (c_ID c) \<and> session_active s' = session_active s \<and> node_label s' = client_label c s"
proof -
  obtain en h where en: "map_of (registry s) (hexlify (c_ID c)) = Some en" "entry_salt en = Some h"
    "unhexlify h = Inr salt" and len: "length (server_id s) \<le> 1000"
    using assms(1) by (auto simp: registered_def)
  define lbl where "lbl = (case entry_label en of None \<Rightarrow> take 8 (hexlify (c_ID c)) | Some l \<Rightarrow> l)"
  define u where "u = s\<lparr>tick_pos := Suc (tick_pos s), peer_id := Some (c_ID c), node_label := lbl,
    ShS_AB := Some (p2_shared salt c s), PRV_bl := Some (p2_genesis salt c s)\<rparr>"
  define v where "v = u\<lparr>tx := tx s @ [pw (honest_ack salt s)]\<rparr>"
  have "open_tx u" using assms(2) by (simp add: u_def open_tx_def)
  from send_flat [OF honest_ack_flat [OF len, of salt] this]
  have send: "send_msg (honest_ack salt s) u = (Inr (), v)" by (simp add: v_def u_def)
  have "\<exists>t. run_p2 lib (view_payload (honest_hello salt c)) s = (Inr True, t)"
    using en send [unfolded honest_ack_def]
    by (simp add: run_p2_def p2_body_def honest_hello_view bnd_def [of perf_counter_ns] perf_counter_eq
        try_except_def DIGEST_SIZE_def hkdf32(1) Let_def seq_Inr [where m = "send_msg p" for p] u_def
        p2_shared_def p2_genesis_def lbl_def)
  then obtain t where t: "run_p2 lib (view_payload (honest_hello salt c)) s = (Inr True, t)" ..
  have pk: "pack_payload (honest_ack salt s) = Inr (pw (honest_ack salt s))"
    using flat_payload_pack [OF honest_ack_flat [OF len]] by simp
  show ?thesis
    using t run_p2_True [OF t] en pk
    by (auto simp: honest_hello_view hkdf32(1) p2_shared_def p2_genesis_def honest_ack_def client_label_def)
qed

section \<open>Encryption as a function of the nonce\<close>

definition gcm_out :: "cryptolib \<Rightarrow> bytes \<Rightarrow> bytes \<Rightarrow> bytes \<Rightarrow> bytes" where
  "gcm_out L p key n = n @ projr (aes_encrypt L (fit_key key 32) n p)"

lemma encrypt_gcm_out:
  assumes "aead_ok L"
  shows "encrypt_gcm L p key s = (Inr (gcm_out L p key (draw s 0 12)), s\<lparr>entropy_pos := entropy_pos s + 12\<rparr>)"
    and "length (gcm_out L p key (draw s 0 12)) = length p + 28"
    and "decrypt_gcm L (gcm_out L p key (draw s 0 12)) key = Inr p"
proof -
  obtain c where c: "aes_encrypt L (fit_key key 32) (draw s 0 12) p = Inr c" "length c = length p + 16"
    using aead_okE [OF assms length_fit_key length_draw] by metis
  have out: "gcm_out L p key (draw s 0 12) = draw s 0 12 @ c" by (simp add: gcm_out_def c)
  show run: "encrypt_gcm L p key s = (Inr (gcm_out L p key (draw s 0 12)), s\<lparr>entropy_pos := entropy_pos s + 12\<rparr>)"
    by (simp add: encrypt_gcm_def size_defs Let_def bnd_urandom c out slice_neg_stop_def slice_neg_start_def)
  show "length (gcm_out L p key (draw s 0 12)) = length p + 28" by (simp add: out c)
  show "decrypt_gcm L (gcm_out L p key (draw s 0 12)) key = Inr p" by (rule decrypt_encrypt_gcm [OF assms run])
qed

lemma encrypt_gcm_draw:
  assumes "aead_ok L" and "draw s 0 12 = n"
  shows "encrypt_gcm L p key s = (Inr (gcm_out L p key n), s\<lparr>entropy_pos := entropy_pos s + 12\<rparr>)"
  using encrypt_gcm_out(1) [OF assms(1)] assms(2) by metis

lemma gcm_out_nonce:
  assumes "aead_ok L"
  shows "length (gcm_out L p key (draw (s :: 'z io_scheme) a 12)) = length p + 28"
    "decrypt_gcm L (gcm_out L p key (draw s a 12)) key = Inr p"
proof -
  have "draw (s\<lparr>entropy_pos := entropy_pos s + a\<rparr>) 0 12 = draw s a 12" by (simp add: draw_def)
  then show "length (gcm_out L p key (draw s a 12)) = length p + 28"
    "decrypt_gcm L (gcm_out L p key (draw s a 12)) key = Inr p"
    using encrypt_gcm_out(2,3) [OF assms, of p key "s\<lparr>entropy_pos := entropy_pos s + a\<rparr>"] by simp_all
qed

section \<open>P3\<close>

text \<open>What P2 leaves on both sides, and what P3 leaves.\<close>

definition after_p2 :: "node_client \<Rightarrow> node_session \<Rightarrow> bytes \<Rightarrow> bytes \<Rightarrow> bool" where
  "after_p2 c s k g \<longleftrightarrow> c_ShS_AB c = Some k \<and> ShS_AB s = Some k \<and> c_PRV_bl c = Some g \<and> PRV_bl s = Some g
     \<and> peer_id s = Some (c_ID c) \<and> c_peer_id c = PBytes (server_id s)
     \<and> length (c_ID c) \<le> 1000 \<and> length (server_id s) \<le> 1000"

definition in_step :: "node_client \<Rightarrow> node_session \<Rightarrow> bool" where
  \<comment> \<open>same session, same key, same chain head\<close>
  "in_step c s \<longleftrightarrow> c_peer_id c = PBytes (server_id s) \<and> length (c_ID c) \<le> 1000 \<and> length (server_id s) \<le> 1000
     \<and> (\<exists>si key g. c_SES_id c = Some si \<and> SES_id s = Some si \<and> c_K_AB_enc c = Some key \<and> SES_key s = Some key
          \<and> c_PRV_bl c = Some g \<and> PRV_bl s = Some g \<and> length si = 16)"

text \<open>The client's clock gives a time that fits in 64 bits.\<close>

definition clock_ok :: "node_client \<Rightarrow> bool" where
  "clock_ok c \<longleftrightarrow> 0 \<le> int_of_time (wall c (wall_pos c)) \<and> int_of_time (wall c (wall_pos c)) < 256 ^ 8"

definition clock_bytes :: "node_client \<Rightarrow> bytes" where
  "clock_bytes c = be_bytes 8 (int_of_time (wall c (wall_pos c)))"

lemma length_clock_bytes [simp]: "length (clock_bytes c) = 8"
  by (simp add: clock_bytes_def)

lemma bnd_ts_bytes:
  "clock_ok s \<Longrightarrow> bnd ts_bytes k s = k (clock_bytes s) (s\<lparr>wall_pos := Suc (wall_pos s)\<rparr>)"
  by (simp add: clock_ok_def clock_bytes_def ts_bytes_def bnd_def time_time_def struct_pack_ok)

definition p3_reg :: "node_client \<Rightarrow> node_session \<Rightarrow> bytes \<Rightarrow> bytes" where
  "p3_reg c s k = draw c 0 16 @ clock_bytes c @ c_ID c @ server_id s @ k"

definition p3_pre :: "node_client \<Rightarrow> node_session \<Rightarrow> bytes \<Rightarrow> bytes \<Rightarrow> bytes" where
  "p3_pre c s k g = h_sha256 (g @ h_sha256 (p3_reg c s k))"

definition p3_key :: "node_session \<Rightarrow> bytes \<Rightarrow> bytes" where
  "p3_key s k = h_sha256 (draw s 16 16 @ k)"

definition p3_init_cif :: "cryptolib \<Rightarrow> node_client \<Rightarrow> node_session \<Rightarrow> bytes \<Rightarrow> bytes \<Rightarrow> bytes" where
  "p3_init_cif L c s k g = gcm_out L (p3_pre c s k g @ draw c 0 16 @ clock_bytes c) k (draw c 16 12)"

definition p3_ses_cif :: "cryptolib \<Rightarrow> node_client \<Rightarrow> node_session \<Rightarrow> bytes \<Rightarrow> bytes \<Rightarrow> bytes" where
  "p3_ses_cif L c s k g =
     gcm_out L (draw s 0 16 @ draw s 16 16 @ draw c 0 16 @ p3_pre c s k g) k (draw s 32 12)"

definition p3_conf_cif :: "cryptolib \<Rightarrow> node_client \<Rightarrow> node_session \<Rightarrow> bytes \<Rightarrow> bytes" where
  "p3_conf_cif L c s k =
     gcm_out L (h_sha256 (p3_key s k @ draw s 0 16 @ draw c 0 16 @ draw s 16 16)) (p3_key s k) (draw c 28 12)"

definition p3_init :: "cryptolib \<Rightarrow> node_client \<Rightarrow> node_session \<Rightarrow> bytes \<Rightarrow> bytes \<Rightarrow> payload" where
  "p3_init L c s k g = [(''type'', PStr ''ses_init''), (''INIT_cif'', PBytes (p3_init_cif L c s k g)),
     (''ID_A'', PBytes (c_ID c))]"

definition p3_reply_msg :: "cryptolib \<Rightarrow> node_client \<Rightarrow> node_session \<Rightarrow> bytes \<Rightarrow> bytes \<Rightarrow> payload" where
  "p3_reply_msg L c s k g = [(''type'', PStr ''ses_reply''), (''SES_cif'', PBytes (p3_ses_cif L c s k g))]"

definition p3_conf_msg :: "cryptolib \<Rightarrow> node_client \<Rightarrow> node_session \<Rightarrow> bytes \<Rightarrow> payload" where
  "p3_conf_msg L c s k = [(''type'', PStr ''ses_conf''), (''CONF_cif'', PBytes (p3_conf_cif L c s k)),
     (''ID_A'', PBytes (c_ID c))]"

definition p3_ack_msg :: "node_session \<Rightarrow> payload" where
  "p3_ack_msg s = [(''type'', PStr ''ses_conf_ack''), (''SES_id'', PBytes (draw s 0 16))]"

lemma p3_flat:
  assumes "aead_ok L" and "length (c_ID c) \<le> 1000"
  shows "flat_payload (p3_init L c s k g)" "flat_payload (p3_reply_msg L c s k g)"
    "flat_payload (p3_conf_msg L c s k)" "flat_payload (p3_ack_msg s)"
  using assms(2)
  by (simp_all add: gcm_out_nonce(1) [OF assms(1)] flat_payload_def p3_init_def p3_reply_msg_def p3_conf_msg_def p3_ack_msg_def
      p3_init_cif_def p3_ses_cif_def p3_conf_cif_def p3_pre_def del: safe_str_simps)

lemma p3_view:
  "view_payload (p3_init L c s k g) = PDict (p3_init L c s k g)"
  "view_payload (p3_reply_msg L c s k g) = PDict (p3_reply_msg L c s k g)"
  "view_payload (p3_conf_msg L c s k) = PDict (p3_conf_msg L c s k)"
  "view_payload (p3_ack_msg s) = PDict (p3_ack_msg s)"
  by (rule view_clean; simp add: clean_payload_def p3_init_def p3_reply_msg_def p3_conf_msg_def
      p3_ack_msg_def BYTES_FIELDS_def)+

lemmas draw_from [simp] = draw_pos

lemma p3_client_side:
  assumes L: "aead_ok L" and st: "after_p2 c s k g" and clk: "clock_ok c"
    and c: "live c" "open_tx c" "avail c = pw (p3_reply_msg L c s k g) @ pw (p3_ack_msg s) @ r"
  shows "\<exists>c'. client_p3 L pr c = (Inr (), c')
    \<and> tx c' = tx c @ [pw (p3_init L c s k g), pw (p3_conf_msg L c s k)] \<and> avail c' = r \<and> live c' \<and> open_tx c'
    \<and> c_SES_id c' = Some (draw s 0 16) \<and> c_K_AB_enc c' = Some (p3_key s k)
    \<and> c_PRV_bl c' = Some (h_sha256 (g @ draw s 0 16 @ p3_pre c s k g))
    \<and> c_peer_id c' = c_peer_id c \<and> c_ID c' = c_ID c"
proof -
  have id: "length (c_ID c) \<le> 1000" and shs: "c_ShS_AB c = Some k" "c_PRV_bl c = Some g"
    "c_peer_id c = PBytes (server_id s)"
    using st by (simp_all add: after_p2_def)
  note flat = p3_flat [OF L id]
  define e where "e = entropy_pos c"
  define c1 where "c1 = c\<lparr>entropy_pos := e + 28, c_r_A2 := Some (draw c 0 16), wall_pos := Suc (wall_pos c)\<rparr>"
  have prep: "p3_initiator_prepare L (PBytes (server_id s)) c = (Inr (p3_init L c s k g), c1)"
  proof -
    define d where "d = c\<lparr>entropy_pos := e + 16, c_r_A2 := Some (draw c 0 16), wall_pos := Suc (wall_pos c)\<rparr>"
    have "draw d 0 12 = draw c 16 12" by (simp add: d_def draw_def e_def)
    from encrypt_gcm_draw [OF L this]
    have enc: "encrypt_gcm L p k d = (Inr (gcm_out L p k (draw c 16 12)), c1)" for p
      by (simp add: d_def c1_def)
    have ck: "clock_ok (c\<lparr>entropy_pos := e + 16, c_r_A2 := Some (draw c 0 16)\<rparr>)"
      "clock_bytes (c\<lparr>entropy_pos := e + 16, c_r_A2 := Some (draw c 0 16)\<rparr>) = clock_bytes c"
      using clk by (simp_all add: clock_ok_def clock_bytes_def)
    show ?thesis
      using enc [unfolded d_def] shs
      by (simp add: p3_initiator_prepare_def bnd_urandom bnd_ts_bytes [OF ck(1)] ck(2) bnd_getr bytes_of_def
          pc_sha_eq pc_encrypt_eq Let_def bnd_Inr [where m = "encrypt_gcm L p k" for p] p3_init_def
          p3_init_cif_def p3_pre_def p3_reg_def flip: e_def)
  qed
  define c2 where "c2 = c1\<lparr>tx := tx c @ [pw (p3_init L c s k g)]\<rparr>"
  have send1: "pc_send_msg (p3_init L c s k g) c1 = (Inr (), c2)"
    using pc_send_flat [OF flat(1), of c1] c(2) by (simp add: c1_def c2_def open_tx_def)
  have "live c2" "avail c2 = pw (p3_reply_msg L c s k g) @ pw (p3_ack_msg s) @ r"
    using c(1,3) by (simp_all add: c2_def c1_def live_def)
  then obtain x where x: "pc_recv_msg c2 = (Inr (PDict (p3_reply_msg L c s k g)), c2\<lparr>rx := x\<rparr>)"
    "concat x = pw (p3_ack_msg s) @ r" "[] \<notin> set x"
    using pc_recv_flat [OF flat(2)] unfolding p3_view by blast
  define c3 where "c3 = c2\<lparr>rx := x, c_SES_id := Some (draw s 0 16), c_K_AB_enc := Some (p3_key s k)\<rparr>"
  define c4 where "c4 = c3\<lparr>entropy_pos := e + 40,
    c_PRV_bl := Some (h_sha256 (g @ draw s 0 16 @ p3_pre c s k g))\<rparr>"
  have fin: "p3_initiator_finalize L (PDict (p3_reply_msg L c s k g)) (c2\<lparr>rx := x\<rparr>) = (Inr (p3_conf_msg L c s k), c4)"
  proof -
    have "draw c3 0 12 = draw c 28 12" by (simp add: c3_def c2_def c1_def draw_def e_def)
    from encrypt_gcm_draw [OF L this]
    have enc: "encrypt_gcm L p (p3_key s k) c3
        = (Inr (gcm_out L p (p3_key s k) (draw c 28 12)), c3\<lparr>entropy_pos := e + 40\<rparr>)" for p
      by (simp add: c3_def c2_def c1_def)
    have dec: "decrypt_gcm L (p3_ses_cif L c s k g) k
        = Inr (draw s 0 16 @ draw s 16 16 @ draw c 0 16 @ p3_pre c s k g)"
      unfolding p3_ses_cif_def by (rule gcm_out_nonce(2) [OF L])
    have len: "length (p3_pre c s k g) = 32" by (simp add: p3_pre_def)
    show ?thesis
      using enc [unfolded c3_def] shs
      by (simp add: p3_initiator_finalize_def p3_reply_msg_def pc_decrypt_eq dec bnd_getr bytes_of_def attr_of_def
          Let_def slice_def len c2_def c1_def pc_sha_eq pc_encrypt_eq p3_key_def [symmetric]
          bnd_Inr [where m = "encrypt_gcm L p q" for p q] p3_conf_msg_def p3_conf_cif_def c4_def c3_def)
  qed
  define c5 where "c5 = c4\<lparr>tx := tx c2 @ [pw (p3_conf_msg L c s k)]\<rparr>"
  have send2: "pc_send_msg (p3_conf_msg L c s k) c4 = (Inr (), c5)"
    using pc_send_flat [OF flat(3), of c4] c(2) by (simp add: c5_def c4_def c3_def c2_def c1_def open_tx_def)
  have "live c5" "avail c5 = pw (p3_ack_msg s) @ r"
    using c(1) x(2,3) by (simp_all add: c5_def c4_def c3_def c2_def c1_def live_def)
  then obtain y where y: "pc_recv_msg c5 = (Inr (PDict (p3_ack_msg s)), c5\<lparr>rx := y\<rparr>)" "concat y = r" "[] \<notin> set y"
    using pc_recv_flat [OF flat(4)] unfolding p3_view by metis
  have ne: "not_error pr t (PDict (p3_reply_msg L c s k g)) v = (Inr (), v)"
    "not_error pr t (PDict (p3_ack_msg s)) v = (Inr (), v)" for t v
    by (simp_all add: not_error_def p3_reply_msg_def p3_ack_msg_def)
  have "client_p3 L pr c = (Inr (), c5\<lparr>rx := y\<rparr>)"
    using prep send1 x(1) ne fin send2 y(1) shs(3)
    by (simp add: client_p3_def bnd_Inr [where m = "p3_initiator_prepare L p" for p]
        bnd_Inr [where m = pc_recv_msg] bnd_Inr [where m = "p3_initiator_finalize L p" for p]
        seq_Inr [where m = "pc_send_msg p" for p] seq_Inr [where m = "not_error pr t p" for t p])
  then show ?thesis
    using y(2,3) c(1,2) by (simp add: c5_def c4_def c3_def c2_def c1_def live_def open_tx_def)
qed

lemma p3_server_side:
  assumes L: "aead_ok L" and st: "after_p2 c s k g"
    and s: "live s" "open_tx s" "avail s = pw (p3_conf_msg L c s k) @ r"
  shows "\<exists>s'. run_p3 L lib (PDict (p3_init L c s k g)) s = (Inr True, s')
    \<and> tx s' = tx s @ [pw (p3_reply_msg L c s k g), pw (p3_ack_msg s)] \<and> avail s' = r \<and> live s' \<and> open_tx s'
    \<and> SES_id s' = Some (draw s 0 16) \<and> SES_key s' = Some (p3_key s k)
    \<and> PRV_bl s' = Some (h_sha256 (g @ draw s 0 16 @ p3_pre c s k g))
    \<and> server_id s' = server_id s \<and> session_active s' \<and> trust_score s' = TRUST_START"
proof -
  have id: "length (c_ID c) \<le> 1000" and shs: "ShS_AB s = Some k" "PRV_bl s = Some g" "peer_id s = Some (c_ID c)"
    using st by (simp_all add: after_p2_def)
  note flat = p3_flat [OF L id]
  define e where "e = entropy_pos s"
  define pre reg rdn1 where "pre = p3_pre c s k g" and "reg = p3_reg c s k" and "rdn1 = draw c 0 16"
  have len: "length pre = 32" "length rdn1 = 16" by (simp_all add: pre_def p3_pre_def rdn1_def)
  define sesid rdn2 where "sesid = draw s 0 16" and "rdn2 = draw s 16 16"
  have chk: "p3_check L (PDict (p3_init L c s k g)) (Some k) (Some g) (Some (c_ID c)) (server_id s)
      = Inr (rdn1, reg, pre, pre)"
  proof -
    have "decrypt_gcm L (p3_init_cif L c s k g) k = Inr (pre @ rdn1 @ clock_bytes c)"
      unfolding p3_init_cif_def pre_def rdn1_def by (rule gcm_out_nonce(2) [OF L])
    then show ?thesis
      using len by (simp add: p3_check_def p3_init_def need_def DIGEST_SIZE_def ID_SIZE_def Let_def slice_def
        reg_def p3_reg_def pre_def p3_pre_def rdn1_def)
  qed
  define u where "u = s\<lparr>tick_pos := Suc (tick_pos s)\<rparr>"
  define u1 where "u1 = u\<lparr>entropy_pos := e + 44, p3_pending :=
        [(''SES_id'', sesid), (''RDN2'', rdn2), (''SES_key'', p3_key s k),
         (''PREINIT_bl'', pre), (''INIT_reg'', reg), (''RDN1_rx'', rdn1)]\<rparr>"
  define v where "v = u1\<lparr>tx := tx s @ [pw (p3_reply_msg L c s k g)]\<rparr>"
  have rep: "p3_reply L rdn1 reg pre pre u = (Inr (sesid, rdn2, p3_key s k), v)"
  proof -
    have dr: "draw u 0 16 = sesid" "draw u 16 16 = rdn2"
      "draw (u\<lparr>entropy_pos := entropy_pos u + 32\<rparr>) 0 12 = draw s 32 12"
      "draw (u\<lparr>entropy_pos := e + 16\<rparr>) 0 16 = rdn2"
      by (simp_all add: u_def draw_def sesid_def rdn2_def e_def add.assoc)
    have "draw (u\<lparr>entropy_pos := 32 + e\<rparr>) 0 12 = draw s 32 12" using dr(3) by (simp add: u_def e_def add.commute)
    from encrypt_gcm_draw [OF L this]
    have enc: "encrypt_gcm L p k (u\<lparr>entropy_pos := 32 + e\<rparr>)
        = (Inr (gcm_out L p k (draw s 32 12)), u\<lparr>entropy_pos := e + 44\<rparr>)" for p by (simp add: add.commute)
    have "send_msg (p3_reply_msg L c s k g) u1 = (Inr (), v)"
      using send_flat [OF flat(2), of u1] s(2) by (simp add: v_def u1_def u_def open_tx_def)
    then show ?thesis
      using enc shs(1) dr
      by (simp add: p3_reply_def ID_SIZE_def bnd_urandom bnd_getr need_def Let_def
          bnd_Inr [where m = "encrypt_gcm L p k" for p] seq_Inr [where m = "send_msg p" for p]
          p3_reply_msg_def p3_ses_cif_def p3_key_def u1_def v_def sesid_def rdn2_def rdn1_def pre_def
          e_def u_def)
  qed
  have "live v" "avail v = pw (p3_conf_msg L c s k) @ r"
    using s(1,3) by (simp_all add: v_def u1_def u_def live_def)
  then obtain x where x: "recv_msg v = (Inr (PDict (p3_conf_msg L c s k)), v\<lparr>rx := x\<rparr>)" "concat x = r" "[] \<notin> set x"
    using recv_flat [OF flat(3)] unfolding p3_view by blast
  have conf: "p3_conf L (p3_key s k) sesid rdn1 rdn2 (PDict (p3_conf_msg L c s k)) = Inr ()"
    using gcm_out_nonce(2) [OF L, of _ "p3_key s k" c 28]
    by (simp add: p3_conf_def p3_conf_msg_def p3_conf_cif_def sesid_def rdn1_def rdn2_def Let_def)
  define w where "w = v\<lparr>rx := x, PRV_bl := Some (h_sha256 (g @ sesid @ pre)), SES_id := Some sesid,
    SES_key := Some (p3_key s k), session_active := True, M_num_expected := 0\<rparr>"
  define w1 where "w1 = w\<lparr>tx := tx v @ [pw (p3_ack_msg s)]\<rparr>"
  have ack: "send_msg [(''type'', PStr ''ses_conf_ack''), (''SES_id'', PBytes sesid)] w = (Inr (), w1)"
    using send_flat [OF flat(4), of w] s(2)
    by (simp add: p3_ack_msg_def w1_def w_def v_def u1_def u_def open_tx_def sesid_def)
  have prv: "PRV_bl (v\<lparr>rx := x\<rparr>) = Some g" using shs by (simp add: v_def u1_def u_def)
  obtain t where t: "p3_finish L rdn1 pre sesid rdn2 (p3_key s k) (ticks s (tick_pos s)) v = (Inr True, t)"
    and fin: "tx t = tx w1" "rx t = x" "SES_id t = Some sesid" "SES_key t = Some (p3_key s k)"
    "PRV_bl t = Some (h_sha256 (g @ sesid @ pre))" "server_id t = server_id s" "session_active t"
    "trust_score t = TRUST_START" "sock_closed t = sock_closed s" "tx_left t = tx_left s"
    using ack [unfolded w_def] x(1) conf prv
    by (simp add: p3_finish_def bnd_Inr [where m = recv_msg] bnd_getr need_def Let_def
        seq_Inr [where m = "send_msg p" for p] bnd_def [of perf_counter_ns] perf_counter_eq w1_def w_def v_def
        u1_def u_def TRUST_START_def)
  have "run_p3 L lib (PDict (p3_init L c s k g)) s = (Inr True, t)"
  proof -
    have "p3_body L (PDict (p3_init L c s k g)) (ticks s (tick_pos s)) u = (Inr True, t)"
      using chk rep t shs by (simp add: p3_body_def bnd_getr u_def bnd_Inr [where m = "p3_reply L a b d e" for a b d e])
    then show ?thesis
      by (simp add: run_p3_def bnd_def [of perf_counter_ns] perf_counter_eq try_except_def flip: u_def)
  qed
  then show ?thesis
    using fin x(2,3) s(1,2)
    by (intro exI [of _ t]) (simp add: w1_def w_def v_def u1_def u_def sesid_def pre_def live_def open_tx_def)
qed

end
