(* ===== verification/Sensor_Laws.thy ===== *)
theory Sensor_Laws
  imports Node_Session
begin

text \<open>
  Every exception that handling a sensor register can raise is an ordinary \<open>Exception\<close>, so the
  clause around it in \<open>_handle_p4\<close> catches all of them: the handler always returns. \<open>ordinary\<close>
  says it of a pure computation, and composes.
\<close>

definition ordinary :: "exc + 'a \<Rightarrow> bool" where
  "ordinary r \<longleftrightarrow> (case r of Inl e \<Rightarrow> is_exception e | Inr _ \<Rightarrow> True)"

lemma ordinary_Inr [simp]: "ordinary (Inr x)"
  and ordinary_Inl [simp]: "ordinary (Inl e) = is_exception e"
  by (simp_all add: ordinary_def)

lemma ordinary_rbind [intro]: "ordinary r \<Longrightarrow> (\<And>x. ordinary (f x)) \<Longrightarrow> ordinary (rbind r f)"
  by (cases r) simp_all

lemma ordinaryD: "ordinary r \<Longrightarrow> r = Inl e \<Longrightarrow> is_exception e"
  by simp

lemma is_exception_simps [simp]:
  "is_exception (LibRaised k) \<longleftrightarrow> k \<noteq> SystemExitKind" "is_exception (Raised k m) \<longleftrightarrow> k \<noteq> SystemExitKind"
  by (simp_all add: is_exception_def)

lemma ordinary_unpack: "ordinary (struct_unpack n b)"
  by (simp add: struct_unpack_def)

lemma ordinary_utf8: "ordinary (utf8_decode b)"
  by (simp add: utf8_decode_def)

lemma ordinary_split:
  "ordinary (case x of (a, b) \<Rightarrow> f a b) \<longleftrightarrow> (\<forall>a b. x = (a, b) \<longrightarrow> ordinary (f a b))"
  "ordinary (case xs of [] \<Rightarrow> r | c # t \<Rightarrow> g c t) \<longleftrightarrow> (xs = [] \<longrightarrow> ordinary r) \<and> (\<forall>c t. xs = c # t \<longrightarrow> ordinary (g c t))"
  "ordinary (case v of None \<Rightarrow> r | Some y \<Rightarrow> h y) \<longleftrightarrow> (v = None \<longrightarrow> ordinary r) \<and> (\<forall>y. v = Some y \<longrightarrow> ordinary (h y))"
  "ordinary (if b then r else q) \<longleftrightarrow> (b \<longrightarrow> ordinary r) \<and> (\<not> b \<longrightarrow> ordinary q)"
  by (auto split: prod.splits list.splits option.splits)

lemma ordinary_jstring: "ordinary (jstring s)"
proof (induction "length s" arbitrary: s rule: less_induct)
  case less
  show ?case
  proof (cases s)
    case (Cons c t)
    have "ordinary (rbind (jstring u) f)" if "length u \<le> length t" "\<And>x. ordinary (f x)" for u and f :: "_ \<Rightarrow> exc + (string \<times> string)"
      using less [of u] that Cons by (intro ordinary_rbind) auto
    then show ?thesis
      unfolding Cons jstring.simps(2) [of c t] by (simp add: ordinary_split)
  qed simp
qed

lemma ordinary_jnumber: "ordinary (jnumber s)"
  by (simp add: jnumber_def jnum_unsigned_def ordinary_split)

lemma ordinary_json:
  shows "ordinary (jval n s)" and "ordinary (jitems n s)" and "ordinary (jmembers n d s)"
proof (induction n arbitrary: s d and s d and s d)
  case (Suc n)
  note sub = Suc.IH ordinary_jstring ordinary_jnumber
  {
    case 1
    show ?case unfolding jval.simps(2) [of n s]
      by (simp add: ordinary_split ordinary_rbind sub)
  next
    case 2
    show ?case unfolding jitems.simps(2) [of n s]
      by (simp add: ordinary_split ordinary_rbind sub)
  next
    case 3
    show ?case unfolding jmembers.simps(2) [of n d s]
      by (simp add: ordinary_split ordinary_rbind sub)
  }
qed simp_all

lemma ordinary_loads: "ordinary (loads t)"
  by (simp add: loads_def ordinary_rbind ordinary_json ordinary_split)

lemma ordinary_dict:
  "ordinary (get_or k d v)" "ordinary (get_item k v)" "ordinary (set_item k x v)"
  by (cases v; simp add: key_error_def split: option.splits)+

lemma ordinary_parse: "ordinary (parse_sensor lbl m smg)"
  unfolding parse_sensor_def Let_def
  by (intro ordinary_rbind ordinary_unpack ordinary_utf8 ordinary_loads ordinary_dict)

text \<open>Arithmetic and comparison.\<close>

lemma ordinary_num_float: "ordinary (num_float a)"
  by (cases a) (auto simp: float_of_int_def split: pyfloat.splits)

lemma ordinary_fdiv: "ordinary (fdiv x y)"
  by (cases y) (auto split: pyfloat.splits)

lemma ordinary_num_ops: "ordinary (num_add a b)" "ordinary (num_sub a b)" "ordinary (num_div a b)"
proof -
  have op: "ordinary (float_op f a b)" if "\<And>x y. ordinary (f x y)" for f a b
    unfolding float_op_def by (intro ordinary_rbind ordinary_num_float that ordinary_Inr)
  show "ordinary (num_add a b)" "ordinary (num_sub a b)"
    by (cases a; cases b; simp add: op)+
  show "ordinary (num_div a b)"
    unfolding num_div_def
    by (cases a; cases b) (auto simp: ordinary_fdiv split: pyfloat.splits intro!: op)
qed

lemma ordinary_arith: "ordinary (py_add x y)" "ordinary (py_sub x y)" "ordinary (py_div x y)" "ordinary (py_abs x)"
  unfolding py_add_def py_sub_def py_div_def py_abs_def num_binop_def
  by (auto split: option.splits intro!: ordinary_rbind ordinary_num_ops)

lemma ordinary_lt: "ordinary (py_lt x y)"
  by (cases x; cases y) (simp_all split: option.splits)

lemma ordinary_insort: "ordinary (py_insort x ys)"
  by (induction ys) (auto intro!: ordinary_rbind ordinary_lt)

lemma ordinary_sort: "ordinary (py_sort xs)"
  by (induction xs) (auto intro!: ordinary_rbind ordinary_insort)

lemma ordinary_float_of_str: "ordinary (float_of_str s)"
  by (auto simp: float_of_str_def Let_def split: prod.splits option.splits)

lemma ordinary_to_float: "ordinary (to_float v)"
  by (auto simp: to_float_def ordinary_num_float ordinary_float_of_str split: option.splits pyval.splits)

lemma ordinary_median: "ordinary (get_median_v_bus x d)"
  unfolding get_median_v_bus_def median_of_def Let_def
  by (auto intro!: ordinary_rbind ordinary_sort ordinary_arith ordinary_to_float)

text \<open>The handler of a register always returns.\<close>

lemma raises_lift: "ordinary r \<Longrightarrow> raises is_exception (lift r)"
  by (rule raisesI) (auto dest: ordinaryD)

lemma raises_getr: "(\<And>s. ordinary (f s)) \<Longrightarrow> raises is_exception (getr f)"
  by (rule raisesI) (metis getr_apply ordinaryD prod.inject)

lemma raises_sensor: "raises is_exception (sensor_body m smg)"
proof -
  have rec: "raises is_exception (record_reading d)" for d
    by (rule raisesI) (cases d; auto simp: record_reading_def bnd_def time_time_def)
  have chk: "raises is_exception (check_anomaly d)" for d
    unfolding check_anomaly_def
    by (intro raises_bnd raises_getr ordinary_median)
      (auto split: option.splits intro!: raises_intro raises_lift ordinary_dict ordinary_arith ordinary_lt ordinary_rbind)
  show ?thesis
    unfolding sensor_body_def
    by (intro raises_bnd raises_seq raises_getr ordinary_parse ordinary_dict chk rec)
qed

lemma handle_sensor_returns: "\<exists>t. handle_sensor m smg s = (Inr (), t)"
  using raisesD [OF raises_sensor]
  by (cases "sensor_body m smg s") (auto simp: handle_sensor_def try_except_def split: sum.splits)

end
