(* ===== verification/Pc_Exchange.thy ===== *)
theory Pc_Exchange
  imports Pc_Agreement Sensor_Laws Session_Laws
begin

text \<open>
  P4 and P5 of \<open>pc_client.py\<close> against the responder: what the client sends for one reading, that
  the responder accepts it and answers first with the message the client waits for, and that both
  ends then hold the same chain head; and that the client's logout is never accepted.
\<close>

section \<open>The two messages of an exchange\<close>

definition p4_smg :: "bytes \<Rightarrow> bytes" where
  "p4_smg raw = projr (smg_normalize raw)"

definition p4_block :: "bytes \<Rightarrow> bytes \<Rightarrow> bytes \<Rightarrow> node_client \<Rightarrow> bytes \<Rightarrow> block" where
  "p4_block sid si g c raw =
     (let b = \<lparr>b_smg = p4_smg raw, b_ts = clock_bytes c, b_num = c_M_num c + 1, b_id = c_ID c, b_areg = []\<rparr>
      in b\<lparr>b_areg := h_sha256 (block_preg sid si g b @ c_key c)\<rparr>)"

definition p4_plain :: "bytes \<Rightarrow> bytes \<Rightarrow> bytes \<Rightarrow> node_client \<Rightarrow> bytes \<Rightarrow> bytes" where
  "p4_plain sid si g c raw = (let b = p4_block sid si g c raw in
     tlv_bytes [b_smg b, b_ts b, be_bytes 4 (b_num b), b_id b, block_preg sid si g b, b_areg b])"

definition p4_dx :: "cryptolib \<Rightarrow> bytes \<Rightarrow> bytes \<Rightarrow> bytes \<Rightarrow> bytes \<Rightarrow> node_client \<Rightarrow> bytes \<Rightarrow> payload" where
  "p4_dx L sid si k g c raw = [(''type'', PStr ''dx_msg''),
     (''MSG_cif'', PBytes (gcm_out L (p4_plain sid si g c raw) k (draw c 0 12))),
     (''ID_A'', PBytes (c_ID c)), (''M_num'', PInt (c_M_num c + 1))]"

definition p4_breg :: "bytes \<Rightarrow> bytes \<Rightarrow> bytes \<Rightarrow> bytes \<Rightarrow> node_client \<Rightarrow> bytes \<Rightarrow> bytes" where
  "p4_breg sid si k g c raw = h_sha256 (block_preg sid si g (p4_block sid si g c raw) @ k)"

definition p4_res ::
  "cryptolib \<Rightarrow> bytes \<Rightarrow> bytes \<Rightarrow> bytes \<Rightarrow> bytes \<Rightarrow> node_client \<Rightarrow> bytes \<Rightarrow> node_session \<Rightarrow> payload" where
  "p4_res L sid si k g c raw s = [(''type'', PStr ''dx_res''),
     (''RES_cif'', PBytes (gcm_out L (p4_breg sid si k g c raw) k (draw s 0 12))),
     (''M_num'', PInt (c_M_num c + 1))]"

text \<open>The client's side of a session, and a reading it can send.\<close>

definition joined :: "bytes \<Rightarrow> bytes \<Rightarrow> bytes \<Rightarrow> bytes \<Rightarrow> node_client \<Rightarrow> bool" where
  "joined sid si k g c \<longleftrightarrow> c_peer_id c = PBytes sid \<and> c_SES_id c = Some si \<and> c_K_AB_enc c = Some k
     \<and> c_PRV_bl c = Some g \<and> length (c_ID c) \<le> 1000 \<and> length sid \<le> 1000 \<and> length si = 16"

definition served :: "bytes \<Rightarrow> bytes \<Rightarrow> bytes \<Rightarrow> bytes \<Rightarrow> node_session \<Rightarrow> bool" where
  "served sid si k g s \<longleftrightarrow> server_id s = sid \<and> SES_id s = Some si \<and> SES_key s = Some k \<and> PRV_bl s = Some g"

lemma in_step_iff: "in_step c s \<longleftrightarrow> (\<exists>sid si k g. joined sid si k g c \<and> served sid si k g s)"
  by (auto simp: in_step_def joined_def served_def)

definition sendable :: "node_client \<Rightarrow> bytes \<Rightarrow> bool" where
  "sendable c raw \<longleftrightarrow> clock_ok c \<and> 0 \<le> c_M_num c \<and> c_M_num c + 1 < 2 ^ 32 \<and> length raw \<le> 5000"

lemma p4_smg:
  assumes "length raw \<le> 5000"
  shows "smg_normalize raw = Inr (p4_smg raw)" "length (p4_smg raw) \<le> 5067"
  using smg_normalize_Inr [of raw] assms by (auto simp: p4_smg_def)

lemma p4_block_simps [simp]:
  "b_smg (p4_block sid si g c raw) = p4_smg raw" "b_ts (p4_block sid si g c raw) = clock_bytes c"
  "b_num (p4_block sid si g c raw) = c_M_num c + 1" "b_id (p4_block sid si g c raw) = c_ID c"
  "b_areg (p4_block sid si g c raw) = h_sha256 (block_preg sid si g (p4_block sid si g c raw) @ c_key c)"
  by (simp_all add: p4_block_def Let_def block_preg_def block_reg_def)

lemma length_block_preg [simp]: "length (block_preg sid si g b) = 32"
  by (simp add: block_preg_def)

lemma length_p4_plain: "length raw \<le> 5000 \<Longrightarrow> length (c_ID c) \<le> 1000 \<Longrightarrow> length (p4_plain sid si g c raw) \<le> 6155"
  using p4_smg(2) [of raw] by (simp add: p4_plain_def Let_def)

lemma num_digits: "0 \<le> n \<Longrightarrow> n < 2 ^ 32 \<Longrightarrow> length (dec_str \<bar>n\<bar>) \<le> 10"
  using length_dec_str [of n 9] by simp

lemma p4_flat:
  assumes "aead_ok L" and "joined sid si k g c" and "sendable c raw"
  shows "flat_payload (p4_dx L sid si k g c raw)" "flat_payload (p4_res L sid si k g c raw s)"
proof -
  have n: "length (dec_str \<bar>c_M_num c + 1\<bar>) \<le> 10"
    using assms(3) num_digits [of "c_M_num c + 1"] by (simp add: sendable_def)
  have p: "length (p4_plain sid si g c raw) \<le> 6155"
    using assms(2,3) by (intro length_p4_plain) (simp_all add: joined_def sendable_def)
  show "flat_payload (p4_dx L sid si k g c raw)" "flat_payload (p4_res L sid si k g c raw s)"
    using n p assms(2)
    by (simp_all add: gcm_out_nonce(1) [OF assms(1)] flat_payload_def p4_dx_def p4_res_def p4_breg_def joined_def
        del: safe_str_simps)
qed

lemma p4_view:
  "view_payload (p4_dx L sid si k g c raw) = PDict (p4_dx L sid si k g c raw)"
  "view_payload (p4_res L sid si k g c raw s) = PDict (p4_res L sid si k g c raw s)"
  by (rule view_clean; simp add: clean_payload_def p4_dx_def p4_res_def BYTES_FIELDS_def)+

section \<open>The client's side\<close>

lemma p4_client_side:
  assumes L: "aead_ok L" and st: "joined sid si k g c" and ok: "sendable c raw"
    and c: "live c" "open_tx c" "avail c = pw (p4_res L sid si k g c raw s) @ r"
  shows "\<exists>c'. p4_exchange L pr raw c = (Inr (), c')
    \<and> tx c' = tx c @ [pw (p4_dx L sid si k g c raw)] \<and> avail c' = r \<and> live c' \<and> open_tx c'
    \<and> joined sid si k (chain_next sid si k g (p4_block sid si g c raw)) c'
    \<and> c_M_num c' = c_M_num c + 1 \<and> c_ID c' = c_ID c \<and> c_key c' = c_key c"
proof -
  note flat = p4_flat [OF L st ok]
  define b where "b = p4_block sid si g c raw"
  define e where "e = entropy_pos c"
  have f: "c_SES_id c = Some si" "c_K_AB_enc c = Some k" "c_PRV_bl c = Some g" "c_peer_id c = PBytes sid"
    "length (c_ID c) \<le> 1000" "length sid \<le> 1000" "length si = 16"
    using st by (simp_all add: joined_def)
  have n: "0 \<le> c_M_num c + 1" "c_M_num c + 1 < 2 ^ 32" and raw: "length raw \<le> 5000"
    using ok by (simp_all add: sendable_def)
  note smg = p4_smg [OF raw]
  define c0 where "c0 = c\<lparr>c_M_num := c_M_num c + 1\<rparr>"
  have ck: "clock_ok c0" "clock_bytes c0 = clock_bytes c"
    using ok by (simp_all add: sendable_def clock_ok_def clock_bytes_def c0_def)
  define c1 where "c1 = c\<lparr>c_M_num := c_M_num c + 1, wall_pos := Suc (wall_pos c),
    c_last_A_REG_bl := Some (b_areg b)\<rparr>"
  define c2 where "c2 = c1\<lparr>entropy_pos := e + 12\<rparr>"
  have pack: "struct_pack 4 (c_M_num c + 1) = Inr (be_bytes 4 (c_M_num c + 1))"
    using n by (intro struct_pack_ok) simp_all
  have reg: "pc_make_reg_reg (p4_smg raw) (clock_bytes c) (c_M_num c + 1) (c_ID c) sid si
      = Inr (block_reg sid si b)"
    using smg f by (simp add: pc_make_reg_reg_eq make_reg_reg_def pack tlv_join_ok block_reg_def b_def)
  have mreg: "make_msg_reg (p4_smg raw) (clock_bytes c) (c_M_num c + 1) (c_ID c) (block_preg sid si g b) (b_areg b)
      = Inr (p4_plain sid si g c raw)"
    using smg f by (simp add: make_msg_reg_def pc_tlv_join_eq pack tlv_join_ok p4_plain_def b_def Let_def)
  have "draw c1 0 12 = draw c 0 12" by (simp add: c1_def draw_def)
  from encrypt_gcm_draw [OF L this, of "p4_plain sid si g c raw" k]
  have enc: "encrypt_gcm L (p4_plain sid si g c raw) k c1
      = (Inr (gcm_out L (p4_plain sid si g c raw) k (draw c 0 12)), c2)" by (simp add: c2_def c1_def e_def)
  have areg: "h_sha256 (h_sha256 (g @ h_sha256 (block_reg sid si b)) @ c_key c) = b_areg b"
    "h_sha256 (g @ h_sha256 (block_reg sid si b)) = block_preg sid si g b"
    by (simp_all add: b_def block_preg_def)
  have send: "p4_send L raw c = (Inr (p4_dx L sid si k g c raw), c2)"
    using enc [unfolded c1_def] f smg(1) reg mreg areg
    by (simp add: p4_send_def bnd_ts_bytes [OF ck(1) [unfolded c0_def]] ck(2) [unfolded c0_def] bnd_getr
        bytes_of_def pc_sha_eq pc_encrypt_eq Let_def bnd_Inr [where m = "encrypt_gcm L p q" for p q] p4_dx_def)
  define c3 where "c3 = c2\<lparr>tx := tx c @ [pw (p4_dx L sid si k g c raw)]\<rparr>"
  have send1: "pc_send_msg (p4_dx L sid si k g c raw) c2 = (Inr (), c3)"
    using pc_send_flat [OF flat(1), of c2] c(2) by (simp add: c3_def c2_def c1_def open_tx_def)
  have "live c3" "avail c3 = pw (p4_res L sid si k g c raw s) @ r"
    using c(1,3) by (simp_all add: c3_def c2_def c1_def live_def)
  then obtain x where x: "pc_recv_msg c3 = (Inr (PDict (p4_res L sid si k g c raw s)), c3\<lparr>rx := x\<rparr>)"
    "concat x = r" "[] \<notin> set x"
    using pc_recv_flat [OF flat(2)] unfolding p4_view by blast
  have skip: "skip_setpoints (PDict (p4_res L sid si k g c raw s)) v = (Inr (PDict (p4_res L sid si k g c raw s)), v)"
    "not_error pr t (PDict (p4_res L sid si k g c raw s)) v = (Inr (), v)" for v t
    by (simp_all add: skip_setpoints.simps [of _ v] not_error_def p4_res_def)
  define d where "d = c3\<lparr>rx := x, c_PRV_bl := Some (chain_next sid si k g b)\<rparr>"
  have "decrypt_gcm L (gcm_out L (p4_breg sid si k g c raw) k (draw s 0 12)) k = Inr (p4_breg sid si k g c raw)"
    by (rule gcm_out_nonce(2) [OF L])
  then have fin: "p4_finalize L (PDict (p4_res L sid si k g c raw s)) (c3\<lparr>rx := x\<rparr>) = (Inr (), d)"
    using f by (simp add: p4_finalize_def p4_res_def bnd_getr bytes_of_def attr_of_def pc_decrypt_eq pc_sha_eq
        d_def c3_def c2_def c1_def chain_next_def p4_breg_def flip: b_def)
  have "p4_exchange L pr raw c = (Inr (), d)"
    using send send1 x(1) skip fin
    by (simp add: p4_exchange_def bnd_Inr [where m = "p4_send L p" for p] bnd_Inr [where m = pc_recv_msg]
        bnd_Inr [where m = "skip_setpoints p" for p] seq_Inr [where m = "pc_send_msg p" for p]
        seq_Inr [where m = "not_error pr t p" for t p])
  then show ?thesis
    using x(2,3) c(1,2) f
    by (intro exI [of _ d]) (simp add: d_def c3_def c2_def c1_def live_def open_tx_def joined_def b_def)
qed

section \<open>The responder's side\<close>

text \<open>What the rest of a handler may do once the answer is out: send more, and nothing to the
  session's secrets, its chain or what is still to be received.\<close>

abbreviation onward :: "bytes list \<Rightarrow> bytes list \<Rightarrow> bytes \<times> bytes option \<times> bytes option \<times> string \<Rightarrow> bytes option
    \<Rightarrow> node_session \<Rightarrow> bool" where
  "onward b c f p s \<equiv> (\<exists>m. tx s = b @ m) \<and> rx s = c \<and> fixed_part s = f \<and> PRV_bl s = p"

lemma keeps_onward_send: "keeps (onward b c f p) (send_msg q)"
proof -
  have "keeps (onward b c f p) (sock_sendall x)" for x
    by (rule keepsI)
      (auto simp: sock_sendall_def fixed_part_def split: if_splits option.splits nat.splits)
  then show ?thesis unfolding send_msg_def by (intro keeps_bnd keeps_lift)
qed

lemma keeps_onward_drop: "keeps (onward b c f p) drop_connection"
  unfolding drop_connection_def by (intro keeps_intro keeps_modify) (simp_all add: fixed_part_def)

lemma keeps_onward_failed: "keeps (onward b c f p) (p4_failed lib e)"
  unfolding p4_failed_def send_error_def
  by (intro keeps_intro keeps_modify keeps_onward_send keeps_onward_drop)
    (simp_all add: state_updates fixed_part_def)

definition p4_rest :: "int \<Rightarrow> unit handler" where
  "p4_rest t0 =
     seq (bnd (gets (\<lambda>s. get_setpoint (node_label s) (coord s))) (\<lambda>setpoint. case setpoint of
            None \<Rightarrow> ret ()
          | Some sp \<Rightarrow> send_msg [(''type'', PStr ''setpoint''), (''data'', PDict [(''p_demand'', PFloat sp)])]))
     (bnd (gets (\<lambda>s. flt (trust_score s) TRUST_DROP_THRESHOLD)) (\<lambda>low.
      seq (if low then drop_connection else ret ())
      (bnd perf_counter_ns (\<lambda>t1.
      modify (\<lambda>s. s\<lparr>metr := (metr s)\<lparr>p4_count := p4_count (metr s) + 1,
        p4_total_us := p4_total_us (metr s) + (t1 - t0) div 1000\<rparr>\<rparr>)))))"

lemma keeps_onward_rest: "keeps (onward b c f p) (p4_rest t0)"
  unfolding p4_rest_def
  by (intro keeps_intro keeps_modify keeps_onward_send keeps_onward_drop) (simp_all add: fixed_part_def)

lemma raises_option [raises_intro]:
  "raises Q m \<Longrightarrow> (\<And>x. raises Q (f x)) \<Longrightarrow> raises Q (case v of None \<Rightarrow> m | Some x \<Rightarrow> f x)"
  by (cases v) auto

lemma raises_quiet [raises_intro]: "raises Q sock_close" "raises Q perf_counter_ns"
  by (simp_all add: raises_def sock_close_def perf_counter_ns_def modify_def)

lemma raises_rest: "raises is_exception (p4_rest t0)"
  unfolding p4_rest_def drop_connection_def by (intro raises_intro raises_send_msg)

lemma p4_rest_returns:
  "\<exists>t. try_except (p4_rest t0) (p4_failed lib) s = (Inr (), t) \<and> (\<exists>m. tx t = tx s @ m) \<and> rx t = rx s
     \<and> fixed_part t = fixed_part s \<and> PRV_bl t = PRV_bl s"
proof -
  obtain q u where q: "p4_rest t0 s = (q, u)" by fastforce
  have "\<exists>t. try_except (p4_rest t0) (p4_failed lib) s = (Inr (), t)"
  proof (cases q)
    case (Inl e)
    then show ?thesis using q raisesD [OF raises_rest] p4_failed_run [of e lib u] by (auto simp: try_except_def)
  next
    case (Inr x)
    then show ?thesis using q by (simp add: try_except_def)
  qed
  then obtain t where t: "try_except (p4_rest t0) (p4_failed lib) s = (Inr (), t)" by blast
  have "keeps (onward (tx s) (rx s) (fixed_part s) (PRV_bl s)) (try_except (p4_rest t0) (p4_failed lib))"
    by (intro keeps_intro keeps_onward_rest keeps_onward_failed)
  from keepsD [OF this _ t] t show ?thesis by simp
qed

text \<open>The sensor handler does not touch the connection, the random source or the secrets.\<close>

lemma keeps_wire_sensor:
  "keeps (\<lambda>s. (rx s, tx s, tx_left s, sock_closed s, entropy s, entropy_pos s) = w \<and> fixed_part s = f \<and> PRV_bl s = p)
     (handle_sensor m smg)"
  unfolding p4_parts fixed_part_def
  by (intro keeps_intro keeps_modify) (simp_all add: state_updates split: trust_event.splits)

lemma p4_verify_sent:
  assumes L: "aead_ok L" and st: "joined sid si k g c" and ok: "sendable c raw"
  shows "p4_verify L (PDict (p4_dx L sid si k g c raw)) sid (Some g) (Some si) (Some k)
    = Inr (p4_smg raw, be_int (clock_bytes c), c_M_num c + 1, p4_breg sid si k g c raw,
        chain_next sid si k g (p4_block sid si g c raw))"
proof -
  define b where "b = p4_block sid si g c raw"
  have n: "0 \<le> c_M_num c + 1" "c_M_num c + 1 < 2 ^ 32" and raw: "length raw \<le> 5000"
    using ok by (simp_all add: sendable_def)
  note smg = p4_smg [OF raw]
  let ?F = "[p4_smg raw, clock_bytes c, be_bytes 4 (c_M_num c + 1), c_ID c, block_preg sid si g b, b_areg b]"
  have dec: "decrypt_gcm L (gcm_out L (p4_plain sid si g c raw) k (draw c 0 12)) k = Inr (p4_plain sid si g c raw)"
    by (rule gcm_out_nonce(2) [OF L])
  have sh: "\<forall>p \<in> set ?F. short p"
    using smg(2) st by (simp add: joined_def b_def)
  have plain: "p4_plain sid si g c raw = tlv_bytes ?F @ []" by (simp add: p4_plain_def b_def Let_def)
  have parse: "parse_tlv (p4_plain sid si g c raw) 6 = Some ?F"
  proof -
    have "length ?F = 6" by simp
    then show ?thesis unfolding plain using parse_tlv_pack [OF sh, of "[]"] by (simp only:)
  qed
  have m: "struct_unpack 4 (be_bytes 4 (c_M_num c + 1)) = Inr (c_M_num c + 1)"
    using n by (intro struct_unpack_be_bytes) simp_all
  have ts: "struct_unpack 8 (clock_bytes c) = Inr (be_int (clock_bytes c))"
    by (simp add: struct_unpack_def)
  have reg: "make_reg_reg (p4_smg raw) (clock_bytes c) (c_M_num c + 1) (c_ID c) sid si = Inr (block_reg sid si b)"
    using smg st n by (simp add: make_reg_reg_def struct_pack_ok tlv_join_ok block_reg_def b_def joined_def)
  have preg: "h_sha256 (g @ h_sha256 (block_reg sid si b)) = block_preg sid si g b" by (simp add: block_preg_def)
  have breg: "h_sha256 (block_preg sid si g b @ k) = p4_breg sid si k g c raw" by (simp add: p4_breg_def b_def)
  show ?thesis
    using dec parse m ts reg preg breg
    by (simp add: p4_verify_def p4_dx_def need_def Let_def chain_next_def flip: b_def)
qed

text \<open>On an accepted message the handler gets as far as its answer, whatever the sensor handler did.\<close>

definition p4_chained ::
  "bytes \<Rightarrow> bytes \<Rightarrow> bytes \<Rightarrow> bytes \<Rightarrow> node_client \<Rightarrow> bytes \<Rightarrow> node_session \<Rightarrow> node_session" where
  "p4_chained sid si k g c raw s = advance_chain (c_M_num c + 1) (be_int (clock_bytes c))
     (chain_next sid si k g (p4_block sid si g c raw)) (s\<lparr>tick_pos := Suc (tick_pos s)\<rparr>)"

lemma p4_server_run:
  assumes L: "aead_ok L" and c: "joined sid si k g c" and ok: "sendable c raw"
    and st: "served sid si k g s" and s: "open_tx s"
  obtains v where "handle_sensor (c_M_num c + 1) (p4_smg raw) (p4_chained sid si k g c raw s) = (Inr (), v)"
    and "handle_p4 L lib (PDict (p4_dx L sid si k g c raw)) s
      = try_except (p4_rest (ticks s (tick_pos s))) (p4_failed lib)
          (v\<lparr>entropy_pos := entropy_pos v + 12, tx := tx s @ [pw (p4_res L sid si k g c raw s)]\<rparr>)"
    and "rx v = rx s" and "open_tx v" and "served sid si k (chain_next sid si k g (p4_block sid si g c raw)) v"
proof -
  let ?g = "chain_next sid si k g (p4_block sid si g c raw)"
  define t0 where "t0 = ticks s (tick_pos s)"
  define u where "u = s\<lparr>tick_pos := Suc (tick_pos s)\<rparr>"
  define u1 where "u1 = p4_chained sid si k g c raw s"
  have sv: "server_id s = sid" "SES_id s = Some si" "SES_key s = Some k" "PRV_bl s = Some g"
    using st by (simp_all add: served_def)
  obtain v where v: "handle_sensor (c_M_num c + 1) (p4_smg raw) u1 = (Inr (), v)"
    using handle_sensor_returns by blast
  have w: "(rx v, tx v, tx_left v, sock_closed v, entropy v, entropy_pos v)
      = (rx s, tx s, tx_left s, sock_closed s, entropy s, entropy_pos s)
      \<and> fixed_part v = fixed_part s \<and> PRV_bl v = Some ?g"
    by (rule keepsD [OF keeps_wire_sensor _ v]) (simp add: u1_def p4_chained_def advance_chain_def fixed_part_def)
  then have key: "SES_key v = Some k" and otx: "open_tx v" and "draw v 0 12 = draw s 0 12"
    using sv s by (simp_all add: fixed_part_def open_tx_def draw_def)
  from encrypt_gcm_draw [OF L this(3)]
  have enc: "encrypt_gcm L p k v = (Inr (gcm_out L p k (draw s 0 12)), v\<lparr>entropy_pos := entropy_pos v + 12\<rparr>)" for p .
  define v1 where "v1 = v\<lparr>entropy_pos := entropy_pos v + 12, tx := tx s @ [pw (p4_res L sid si k g c raw s)]\<rparr>"
  have snd: "send_msg (p4_res L sid si k g c raw s) (v\<lparr>entropy_pos := entropy_pos v + 12\<rparr>) = (Inr (), v1)"
    using send_flat [OF p4_flat(2) [OF L c ok, of s], of "v\<lparr>entropy_pos := entropy_pos v + 12\<rparr>"] otx w
    by (simp add: v1_def)
  have tail: "p4_tail L t0 (c_M_num c + 1) (p4_smg raw) (p4_breg sid si k g c raw) u1 = p4_rest t0 v1"
    using v enc snd key
    by (simp add: p4_tail_def p4_reply_def p4_rest_def seq_Inr [where m = "handle_sensor m b" for m b] bnd_getr
        need_def bnd_Inr [where m = "encrypt_gcm L p k" for p] seq_Inr [where m = "send_msg p" for p] p4_res_def)
  have "p4_body L (PDict (p4_dx L sid si k g c raw)) t0 u = p4_rest t0 v1"
    using p4_verify_sent [OF L c ok] sv tail by (simp add: p4_body_cases u_def u1_def p4_chained_def)
  then have "handle_p4 L lib (PDict (p4_dx L sid si k g c raw)) s = try_except (p4_rest t0) (p4_failed lib) v1"
    by (simp add: handle_p4_def bnd_def [of perf_counter_ns] perf_counter_eq try_except_def t0_def u_def)
  moreover have "served sid si k ?g v" using w sv by (simp add: served_def fixed_part_def)
  ultimately show ?thesis using that v w otx by (simp add: u1_def v1_def t0_def)
qed

lemma p4_server_side:
  assumes L: "aead_ok L" and c: "joined sid si k g c" and ok: "sendable c raw"
    and st: "served sid si k g s" and s: "open_tx s"
  shows "\<exists>s' more. handle_p4 L lib (PDict (p4_dx L sid si k g c raw)) s = (Inr (), s')
    \<and> tx s' = tx s @ pw (p4_res L sid si k g c raw s) # more \<and> rx s' = rx s
    \<and> served sid si k (chain_next sid si k g (p4_block sid si g c raw)) s'"
proof -
  obtain v where v: "handle_p4 L lib (PDict (p4_dx L sid si k g c raw)) s
      = try_except (p4_rest (ticks s (tick_pos s))) (p4_failed lib)
          (v\<lparr>entropy_pos := entropy_pos v + 12, tx := tx s @ [pw (p4_res L sid si k g c raw s)]\<rparr>)"
    "rx v = rx s" "served sid si k (chain_next sid si k g (p4_block sid si g c raw)) v"
    by (rule p4_server_run [OF L c ok st s])
  let ?v = "v\<lparr>entropy_pos := entropy_pos v + 12, tx := tx s @ [pw (p4_res L sid si k g c raw s)]\<rparr>"
  obtain t where t: "try_except (p4_rest (ticks s (tick_pos s))) (p4_failed lib) ?v = (Inr (), t)"
    and fin: "\<exists>m. tx t = tx ?v @ m" "rx t = rx ?v" "fixed_part t = fixed_part ?v" "PRV_bl t = PRV_bl ?v"
    using p4_rest_returns [of "ticks s (tick_pos s)" lib ?v] by blast
  have "served sid si k (chain_next sid si k g (p4_block sid si g c raw)) t" "rx t = rx s"
    using fin v(2,3) by (simp_all add: served_def fixed_part_def)
  then show ?thesis using fin(1) v(1) t by auto
qed

section \<open>P5\<close>

text \<open>
  The client encrypts the bare four-field end register, the responder expects a register and a
  closing block: it takes the time stamp for the register and the session identity for the block.
\<close>

definition p5_plain :: "bytes \<Rightarrow> bytes \<Rightarrow> node_client \<Rightarrow> bytes" where
  "p5_plain sid si c = tlv_bytes [clock_bytes c, si, c_ID c, sid]"

definition p5_req :: "cryptolib \<Rightarrow> bytes \<Rightarrow> bytes \<Rightarrow> bytes \<Rightarrow> node_client \<Rightarrow> payload" where
  "p5_req L sid si k c = [(''type'', PStr ''logout_req''),
     (''A_END_cif'', PBytes (gcm_out L (p5_plain sid si c) k (draw c 0 12))), (''ID_A'', PBytes (c_ID c))]"

lemma p5_client_side:
  assumes L: "aead_ok L" and c: "joined sid si k g c" and clk: "clock_ok c"
  shows "\<exists>c'. p5_logout_initiate L c = (Inr (p5_req L sid si k c), c') \<and> \<not> c_active c' \<and> tx c' = tx c
    \<and> rx c' = rx c \<and> c_metrics c' = c_metrics c \<and> c_PRV_bl c' = c_PRV_bl c \<and> open_tx c' = open_tx c \<and> rx_end c' = rx_end c"
proof -
  define c1 where "c1 = c\<lparr>wall_pos := Suc (wall_pos c)\<rparr>"
  have "draw c1 0 12 = draw c 0 12" by (simp add: c1_def draw_def)
  note enc = encrypt_gcm_draw [OF L this]
  have "pc_make_end_reg (clock_bytes c) si (c_ID c) sid = Inr (p5_plain sid si c)"
    using c by (simp add: pc_make_end_reg_def pc_tlv_join_eq tlv_join_ok p5_plain_def joined_def)
  then show ?thesis
    using c enc [unfolded c1_def]
    by (simp add: p5_logout_initiate_def bnd_ts_bytes [OF clk] bnd_getr bytes_of_def joined_def
        pc_encrypt_eq bnd_Inr [where m = "encrypt_gcm L p q" for p q] p5_req_def
        open_tx_def)
qed

lemma p5_verify_sent:
  assumes L: "aead_ok L" and c: "joined sid si k g c"
  shows "p5_verify L (PDict (p5_req L sid si k c)) (Some si) (Some k)
    \<in> {Inl (runtime_error ''P5: END_reg malformed''), Inl (runtime_error ''P5: A_END_bl verification failed'')}"
proof -
  have dec: "decrypt_gcm L (gcm_out L (p5_plain sid si c) k (draw c 0 12)) k = Inr (p5_plain sid si c)"
    by (rule gcm_out_nonce(2) [OF L])
  let ?F = "[clock_bytes c, si]"
  have parse: "parse_tlv (p5_plain sid si c) 2 = Some ?F"
  proof -
    have "p5_plain sid si c = tlv_bytes ?F @ tlv_bytes [c_ID c, sid]" "length ?F = 2" "\<forall>p \<in> set ?F. short p"
      using c by (simp_all add: p5_plain_def joined_def)
    then show ?thesis using parse_tlv_pack [of ?F "tlv_bytes [c_ID c, sid]"] by (simp only:)
  qed
  have other: "h_sha256 x \<noteq> si" for x
    using c length_h_sha256 [of x] by (auto simp: joined_def)
  show ?thesis
    using dec parse other
    by (auto simp: p5_verify_def p5_req_def need_def Let_def split: option.splits list.splits)
qed

lemma p5_server_side:
  assumes L: "aead_ok L" and c: "joined sid si k g c" and st: "served sid si k g s"
  shows "\<exists>t. handle_p5 L lib (PDict (p5_req L sid si k c)) s = (Inr (), t) \<and> tx t = tx s
    \<and> \<not> session_active t \<and> PRV_bl t = PRV_bl s \<and> length (errs (metr t)) = Suc (length (errs (metr s)))
    \<and> audit_chain t = audit_chain s \<and> trust_score t = trust_score s \<and> data_st t = data_st s"
proof -
  obtain m where m: "p5_verify L (PDict (p5_req L sid si k c)) (Some si) (Some k) = Inl (runtime_error m)"
    using p5_verify_sent [OF L c] by blast
  then show ?thesis
    using st by (simp add: handle_p5_def p5_body_def served_def bnd_def [of perf_counter_ns] perf_counter_eq
        try_except_def bnd_getr p5_failed_def is_exception_def add_error_def)
qed

section \<open>Receiving leaves the frames of the other side as they are\<close>

lemma frames_rx [simp]:
  "honest_ack salt (s\<lparr>rx := x\<rparr>) = honest_ack salt s" "p2_shared salt c (s\<lparr>rx := x\<rparr>) = p2_shared salt c s"
  "p2_genesis salt c (s\<lparr>rx := x\<rparr>) = p2_genesis salt c s" "registered salt c (s\<lparr>rx := x\<rparr>) = registered salt c s"
  "draw (s\<lparr>rx := x\<rparr>) a n = draw s a n" "p3_key (s\<lparr>rx := x\<rparr>) k = p3_key s k"
  "after_p2 c (s\<lparr>rx := x\<rparr>) k g = after_p2 c s k g" "served sid si k g (s\<lparr>rx := x\<rparr>) = served sid si k g s"
  for s :: node_session
  by (simp_all add: honest_ack_def p2_shared_def p2_genesis_def registered_def draw_def p3_key_def after_p2_def
      served_def)

lemma p3_frames_rx [simp]:
  "p3_reg c (s\<lparr>rx := x\<rparr>) k = p3_reg c s k" "p3_pre c (s\<lparr>rx := x\<rparr>) k g = p3_pre c s k g"
  "p3_init L c (s\<lparr>rx := x\<rparr>) k g = p3_init L c s k g" "p3_reply_msg L c (s\<lparr>rx := x\<rparr>) k g = p3_reply_msg L c s k g"
  "p3_conf_msg L c (s\<lparr>rx := x\<rparr>) k = p3_conf_msg L c s k" "p3_ack_msg (s\<lparr>rx := x\<rparr>) = p3_ack_msg s"
  "p4_res L sid si k g c raw (s\<lparr>rx := x\<rparr>) = p4_res L sid si k g c raw s"
  for s :: node_session
  by (simp_all add: p3_reg_def p3_pre_def p3_init_def p3_init_cif_def p3_reply_msg_def p3_ses_cif_def p3_conf_msg_def
      p3_conf_cif_def p3_ack_msg_def p4_res_def)

lemma client_frames_rx [simp]:
  "honest_hello salt (c\<lparr>rx := x\<rparr>) = honest_hello salt c" "clock_bytes (c\<lparr>rx := x\<rparr>) = clock_bytes c"
  "draw (c\<lparr>rx := x\<rparr>) a n = draw c a n" "p3_pre (c\<lparr>rx := x\<rparr>) s k g = p3_pre c s k g"
  "p4_block sid si g (c\<lparr>rx := x\<rparr>) raw = p4_block sid si g c raw"
  for c :: node_client
  by (simp_all add: honest_hello_def draw_def clock_bytes_def p3_pre_def p3_reg_def p4_block_def)

lemma client_messages_rx [simp]:
  "p3_init L (c\<lparr>rx := x\<rparr>) s k g = p3_init L c s k g" "p3_reply_msg L (c\<lparr>rx := x\<rparr>) s k g = p3_reply_msg L c s k g"
  "p3_conf_msg L (c\<lparr>rx := x\<rparr>) s k = p3_conf_msg L c s k"
  "p4_dx L sid si k g (c\<lparr>rx := x\<rparr>) raw = p4_dx L sid si k g c raw"
  "p4_res L sid si k g (c\<lparr>rx := x\<rparr>) raw s = p4_res L sid si k g c raw s"
  for c :: node_client
  by (simp_all add: p3_init_def p3_init_cif_def p3_reply_msg_def p3_ses_cif_def p3_conf_msg_def p3_conf_cif_def
      p4_dx_def p4_plain_def p4_res_def p4_breg_def)

lemma live_rx: "[] \<notin> set x \<Longrightarrow> live s \<Longrightarrow> live (s\<lparr>rx := x\<rparr>)"
  by (simp add: live_def)

lemma pw_nonempty: "flat_payload p \<Longrightarrow> pw p \<noteq> []"
proof -
  assume "flat_payload p"
  then obtain n b where "be_bytes 4 n @ b = pw p"
    using flat_payload_pack [of p]
    by (auto simp: pack_payload_def rbind_Inr_iff to_bytes4_def Let_def simp del: dumps.simps split: if_splits)
  then show ?thesis using length_be_bytes [of 4 n] by (metis append_is_Nil_conv list.size(3) zero_neq_numeral)
qed

end
