(* ===== verification/Pc_Props.thy ===== *)
theory Pc_Props
  imports Pc_Exchange Session_Props
begin

text \<open>
  The properties of the PC client: it agrees with the responder phase by phase, its copies of the
  helpers are the responder's, and its logout is not accepted.
\<close>

section \<open>States for the witnesses\<close>

definition demo_client :: "bytes list \<Rightarrow> node_client" where
  "demo_client fs = (new_client (blank_io\<lparr>rx := fs\<rparr>) (replicate 16 9) (replicate 32 8))
     \<lparr>c_peer_id := PBytes (replicate 16 1), c_SES_id := Some (replicate 16 4),
      c_K_AB_enc := Some (replicate 32 5), c_PRV_bl := Some (replicate 32 3), c_ShS_AB := Some (replicate 32 6)\<rparr>"

definition demo_server :: "bytes list \<Rightarrow> node_session" where
  "demo_server fs = demo_session\<lparr>rx := fs, ShS_AB := Some (replicate 32 6), peer_id := Some (replicate 16 9),
     registry := [(hexlify (replicate 16 9), \<lparr>entry_salt = Some (hexlify (replicate 16 7)), entry_label = None\<rparr>)]\<rparr>"

lemma demo_client_rx: "demo_client fs = (demo_client [])\<lparr>rx := fs\<rparr>"
  by (simp add: demo_client_def new_client_def io.extend_def)

lemma demo_server_rx: "demo_server fs = (demo_server [])\<lparr>rx := fs\<rparr>"
  by (simp add: demo_server_def)

lemma demo_io [simp]:
  "rx (demo_client fs) = fs" "rx (demo_server fs) = fs"
  "open_tx (demo_client fs)" "open_tx (demo_server fs)" "clock_ok (demo_client fs)"
  "live (demo_client fs) \<longleftrightarrow> [] \<notin> set fs" "live (demo_server fs) \<longleftrightarrow> [] \<notin> set fs"
  by (simp_all add: demo_client_def demo_server_def demo_session_def new_client_def new_session_def io.extend_def
      open_tx_def live_def clock_ok_def int_of_time_def blank_io_def)

lemma demo_joined:
  "joined (replicate 16 1) (replicate 16 4) (replicate 32 5) (replicate 32 3) (demo_client fs)"
  "served (replicate 16 1) (replicate 16 4) (replicate 32 5) (replicate 32 3) (demo_server fs)"
  "registered (replicate 16 7) (demo_client fs) (demo_server gs)"
  "after_p2 (demo_client fs) (demo_server gs) (replicate 32 6) (replicate 32 3)"
  "length raw \<le> 5000 \<Longrightarrow> sendable (demo_client fs) raw"
  by (simp_all add: joined_def served_def registered_def after_p2_def sendable_def)
    (simp_all add: demo_client_def demo_server_def new_client_def io.extend_def)

section \<open>The handshake\<close>

text \<open>
  C12: P2 between the PC client and the responder. If the client's identity is registered with the
  salt it uses, then each end, receiving the frame the other sends, finishes; the client sends
  \<open>rot_hello\<close>, the responder \<open>rot_ack\<close>, and both hold the same shared secret, the same genesis block and
  each other's identity.
\<close>

theorem pc_p2_agreement:
  assumes "registered salt c s" and "live c" and "open_tx c" and "live s" and "open_tx s"
    and "avail c = pw (honest_ack salt s) @ r" and "avail s = pw (honest_hello salt c) @ q"
  shows "\<exists>c' s'. client_p2 pr salt c = (Inr (), c') \<and> bnd recv_msg (run_p2 lib) s = (Inr True, s')
    \<and> tx c' = tx c @ [pw (honest_hello salt c)] \<and> tx s' = tx s @ [pw (honest_ack salt s)]
    \<and> avail c' = r \<and> avail s' = q
    \<and> after_p2 c' s' (p2_shared salt c s) (p2_genesis salt c s)"
proof -
  have len: "length (c_ID c) \<le> 1000" "length (server_id s) \<le> 1000" using assms(1) by (simp_all add: registered_def)
  from recv_flat [OF honest_hello_flat [OF len(1)] assms(4,7)] obtain x where
    x: "recv_msg s = (Inr (view_payload (honest_hello salt c)), s\<lparr>rx := x\<rparr>)" "concat x = q" by blast
  obtain s' where s': "run_p2 lib (view_payload (honest_hello salt c)) (s\<lparr>rx := x\<rparr>) = (Inr True, s')"
    "tx s' = tx s @ [pw (honest_ack salt s)]" "rx s' = x" "ShS_AB s' = Some (p2_shared salt c s)"
    "PRV_bl s' = Some (p2_genesis salt c s)" "peer_id s' = Some (c_ID c)"
    using p2_server_side [of salt c "s\<lparr>rx := x\<rparr>" lib] assms(1,5) by auto
  have "keeps (\<lambda>u. server_id u = server_id s) (run_p2 lib m)" for m
    unfolding run_p2_def p2_body_def phase_failed_def Let_def split_def
    by (intro keeps_intro keeps_modify) (simp_all add: add_error_def)
  from keepsD [OF this _ s'(1)] have sid: "server_id s' = server_id s" by simp
  from p2_client_side [OF len assms(2,3,6)] obtain c' where c': "client_p2 pr salt c = (Inr (), c')"
    "tx c' = tx c @ [pw (honest_hello salt c)]" "c_ShS_AB c' = Some (p2_shared salt c s)"
    "c_PRV_bl c' = Some (p2_genesis salt c s)" "c_peer_id c' = PBytes (server_id s)" "c_ID c' = c_ID c"
    "avail c' = r" by blast
  have "bnd recv_msg (run_p2 lib) s = (Inr True, s')" using x(1) s'(1) by (simp add: bnd_Inr [where m = recv_msg])
  with c' s' sid x(2) len show ?thesis by (auto simp: after_p2_def)
qed

lemma pc_p2_agreement_witness:
  "\<exists>c s c' s'. client_p2 (\<lambda>_. False) (replicate 16 7) c = (Inr (), c')
    \<and> bnd recv_msg (run_p2 (\<lambda>_. ''error'')) s = (Inr True, s') \<and> avail c' = [] \<and> avail s' = []
    \<and> after_p2 c' s' (p2_shared (replicate 16 7) c s) (p2_genesis (replicate 16 7) c s)"
proof -
  define a h where "a = pw (honest_ack (replicate 16 7) (demo_server []))"
    and "h = pw (honest_hello (replicate 16 7) (demo_client []))"
  have reg: "registered (replicate 16 7) (demo_client []) (demo_server [])" by (rule demo_joined)
  then have ne: "a \<noteq> []" "h \<noteq> []"
    by (simp_all add: a_def h_def pw_nonempty honest_ack_flat honest_hello_flat registered_def)
  have fr: "pw (honest_ack (replicate 16 7) (demo_server [h])) = a" "pw (honest_hello (replicate 16 7) (demo_client [a])) = h"
    unfolding demo_server_rx [of "[h]"] demo_client_rx [of "[a]"] by (simp_all add: a_def h_def)
  have "registered (replicate 16 7) (demo_client [a]) (demo_server [h])" by (rule demo_joined)
  from pc_p2_agreement [OF this, of "[]" "[]" "\<lambda>_. False" "\<lambda>_. ''error''"] ne show ?thesis
    unfolding fr by (simp, blast)
qed

text \<open>
  C11: P3 between the PC client and the responder. From the state P2 leaves, both ends finish, accept
  each other's confirmation, and hold the same session identity, session key and chain head; the
  session is active with the starting trust.
\<close>

theorem pc_p3_agreement:
  assumes L: "aead_ok L" and st: "after_p2 c s k g" and clk: "clock_ok c"
    and io: "live c" "open_tx c" "live s" "open_tx s"
    and c: "avail c = pw (p3_reply_msg L c s k g) @ pw (p3_ack_msg s) @ r"
    and s: "avail s = pw (p3_init L c s k g) @ pw (p3_conf_msg L c s k) @ q"
  shows "\<exists>c' s'. client_p3 L pr c = (Inr (), c') \<and> bnd recv_msg (run_p3 L lib) s = (Inr True, s')
    \<and> tx c' = tx c @ [pw (p3_init L c s k g), pw (p3_conf_msg L c s k)]
    \<and> tx s' = tx s @ [pw (p3_reply_msg L c s k g), pw (p3_ack_msg s)]
    \<and> avail c' = r \<and> avail s' = q
    \<and> in_step c' s' \<and> session_active s' \<and> trust_score s' = TRUST_START"
proof -
  have id: "length (c_ID c) \<le> 1000" and d: "c_peer_id c = PBytes (server_id s)" "length (server_id s) \<le> 1000"
    using st by (simp_all add: after_p2_def)
  from recv_flat [OF p3_flat(1) [OF L id] io(3) s] obtain x where
    x: "recv_msg s = (Inr (PDict (p3_init L c s k g)), s\<lparr>rx := x\<rparr>)" "concat x = pw (p3_conf_msg L c s k) @ q"
    "[] \<notin> set x" unfolding p3_view by metis
  have "\<exists>s'. run_p3 L lib (PDict (p3_init L c s k g)) (s\<lparr>rx := x\<rparr>) = (Inr True, s')
    \<and> tx s' = tx s @ [pw (p3_reply_msg L c s k g), pw (p3_ack_msg s)] \<and> avail s' = q
    \<and> SES_id s' = Some (draw s 0 16) \<and> SES_key s' = Some (p3_key s k)
    \<and> PRV_bl s' = Some (h_sha256 (g @ draw s 0 16 @ p3_pre c s k g))
    \<and> server_id s' = server_id s \<and> session_active s' \<and> trust_score s' = TRUST_START"
    using p3_server_side [OF L, of c "s\<lparr>rx := x\<rparr>" k g q lib] st io(3,4) x(2) live_rx [OF x(3) io(3)] by auto
  then obtain s' where s': "run_p3 L lib (PDict (p3_init L c s k g)) (s\<lparr>rx := x\<rparr>) = (Inr True, s')"
    "tx s' = tx s @ [pw (p3_reply_msg L c s k g), pw (p3_ack_msg s)]" "avail s' = q"
    "SES_id s' = Some (draw s 0 16)" "SES_key s' = Some (p3_key s k)"
    "PRV_bl s' = Some (h_sha256 (g @ draw s 0 16 @ p3_pre c s k g))"
    "server_id s' = server_id s" "session_active s'" "trust_score s' = TRUST_START" by blast
  from p3_client_side [OF L st clk io(1,2) c] obtain c' where c': "client_p3 L pr c = (Inr (), c')"
    "tx c' = tx c @ [pw (p3_init L c s k g), pw (p3_conf_msg L c s k)]" "avail c' = r"
    "c_SES_id c' = Some (draw s 0 16)" "c_K_AB_enc c' = Some (p3_key s k)"
    "c_PRV_bl c' = Some (h_sha256 (g @ draw s 0 16 @ p3_pre c s k g))"
    "c_peer_id c' = c_peer_id c" "c_ID c' = c_ID c" by blast
  have "bnd recv_msg (run_p3 L lib) s = (Inr True, s')" using x(1) s'(1) by (simp add: bnd_Inr [where m = recv_msg])
  moreover have "in_step c' s'" using c' s' id d by (simp add: in_step_def)
  ultimately show ?thesis using c' s' by blast
qed

lemma pc_p3_agreement_witness:
  "\<exists>c s c' s'. client_p3 ref_lib (\<lambda>_. False) c = (Inr (), c')
    \<and> bnd recv_msg (run_p3 ref_lib (\<lambda>_. ''error'')) s = (Inr True, s') \<and> in_step c' s' \<and> session_active s'"
proof -
  define k g where "k = replicate 32 (6 :: byte)" and "g = replicate 32 (3 :: byte)"
  define fs gs where "fs = [pw (p3_reply_msg ref_lib (demo_client []) (demo_server []) k g), pw (p3_ack_msg (demo_server []))]"
    and "gs = [pw (p3_init ref_lib (demo_client []) (demo_server []) k g), pw (p3_conf_msg ref_lib (demo_client []) (demo_server []) k)]"
  have "length (c_ID (demo_client [])) \<le> 1000" using demo_joined(1) [of "[]"] by (simp add: joined_def)
  note flat = p3_flat [OF aead_ok_ref_lib this]
  have ne: "[] \<notin> set fs" "[] \<notin> set gs"
    using flat [THEN pw_nonempty] by (simp_all add: fs_def gs_def eq_commute [of "[]"])
  have st: "after_p2 (demo_client fs) (demo_server gs) k g" unfolding k_def g_def by (rule demo_joined)
  have av: "avail (demo_client fs) = pw (p3_reply_msg ref_lib (demo_client fs) (demo_server gs) k g)
      @ pw (p3_ack_msg (demo_server gs)) @ []"
    "avail (demo_server gs) = pw (p3_init ref_lib (demo_client fs) (demo_server gs) k g)
      @ pw (p3_conf_msg ref_lib (demo_client fs) (demo_server gs) k) @ []"
    unfolding demo_server_rx [of gs] demo_client_rx [of fs] by (simp_all add: fs_def gs_def)
  from pc_p3_agreement [OF aead_ok_ref_lib st _ _ _ _ _ av, of "\<lambda>_. False" "\<lambda>_. ''error''"] ne
  show ?thesis by (simp, blast)
qed

section \<open>Data exchange and logout\<close>

text \<open>
  C10: P4 keeps the two ends in step. From equal session parameters and chain heads, the client's
  message for any reading of at most 5000 bytes is accepted, the first frame the responder sends back is the
  answer the client accepts, and both ends end at the same chain head, the one that commits the
  reading; this holds whatever the responder does with the reading (a bad reading, a trust penalty, a
  setpoint sent after the answer, a closed connection).
\<close>

theorem pc_p4_in_step:
  assumes L: "aead_ok L" and c: "joined sid si k g c" and st: "served sid si k g s" and ok: "sendable c raw"
    and io: "live c" "open_tx c" "live s" "open_tx s"
    and a: "avail c = pw (p4_res L sid si k g c raw s) @ r" and b: "avail s = pw (p4_dx L sid si k g c raw) @ q"
  shows "\<exists>c' s' more. p4_exchange L pr raw c = (Inr (), c') \<and> loop_turn L lib s = (Inr False, s')
    \<and> tx c' = tx c @ [pw (p4_dx L sid si k g c raw)] \<and> tx s' = tx s @ pw (p4_res L sid si k g c raw s) # more
    \<and> avail c' = r \<and> avail s' = q
    \<and> joined sid si k (chain_next sid si k g (p4_block sid si g c raw)) c'
    \<and> served sid si k (chain_next sid si k g (p4_block sid si g c raw)) s' \<and> in_step c' s'"
proof -
  from recv_flat [OF p4_flat(1) [OF L c ok] io(3) b] obtain x where
    x: "recv_msg s = (Inr (PDict (p4_dx L sid si k g c raw)), s\<lparr>rx := x\<rparr>)" "concat x = q"
    unfolding p4_view by metis
  from p4_server_side [OF L c ok, of "s\<lparr>rx := x\<rparr>" lib] st io(4) obtain s' more where
    s': "handle_p4 L lib (PDict (p4_dx L sid si k g c raw)) (s\<lparr>rx := x\<rparr>) = (Inr (), s')"
    "tx s' = tx s @ pw (p4_res L sid si k g c raw s) # more" "rx s' = x"
    "served sid si k (chain_next sid si k g (p4_block sid si g c raw)) s'" by auto
  have ty: "get_or ''type'' PNone (PDict (p4_dx L sid si k g c raw)) = Inr (PStr ''dx_msg'')"
    by (simp add: p4_dx_def)
  have "loop_turn L lib s = (Inr False, s')"
    using x(1) s'(1) ty
    by (simp add: loop_turn_def bnd_Inr [where m = recv_msg] seq_Inr [where m = "handle_p4 L lib p" for p]
        del: get_or.simps)
  moreover obtain c' where "p4_exchange L pr raw c = (Inr (), c')"
    "tx c' = tx c @ [pw (p4_dx L sid si k g c raw)]" "avail c' = r"
    "joined sid si k (chain_next sid si k g (p4_block sid si g c raw)) c'"
    using p4_client_side [OF L c ok io(1,2) a] by blast
  ultimately show ?thesis using s' x(2) unfolding in_step_iff by blast
qed

lemma pc_p4_in_step_witness:
  "\<exists>c s c' s'. p4_exchange ref_lib (\<lambda>_. False) (str_bytes ''{}'') c = (Inr (), c')
    \<and> loop_turn ref_lib (\<lambda>_. ''error'') s = (Inr False, s') \<and> in_step c s \<and> in_step c' s'"
proof -
  define sid si k g where "sid = replicate 16 (1 :: byte)" and "si = replicate 16 (4 :: byte)"
    and "k = replicate 32 (5 :: byte)" and "g = replicate 32 (3 :: byte)"
  let ?raw = "str_bytes ''{}''"
  define a d where "a = pw (p4_res ref_lib sid si k g (demo_client []) ?raw (demo_server []))"
    and "d = pw (p4_dx ref_lib sid si k g (demo_client []) ?raw)"
  have st: "joined sid si k g (demo_client fs)" "served sid si k g (demo_server fs)" "sendable (demo_client fs) ?raw" for fs
    unfolding sid_def si_def k_def g_def by (rule demo_joined; simp)+
  have ne: "a \<noteq> []" "d \<noteq> []" unfolding a_def d_def by (rule pw_nonempty, rule p4_flat [OF aead_ok_ref_lib st(1,3)])+
  have av: "avail (demo_client [a]) = pw (p4_res ref_lib sid si k g (demo_client [a]) ?raw (demo_server [d])) @ []"
    "avail (demo_server [d]) = pw (p4_dx ref_lib sid si k g (demo_client [a]) ?raw) @ []"
    unfolding demo_server_rx [of "[d]"] demo_client_rx [of "[a]"] by (simp_all add: a_def d_def)
  have "in_step (demo_client [a]) (demo_server [d])" unfolding in_step_iff using st by blast
  with pc_p4_in_step [OF aead_ok_ref_lib st _ _ _ _ av, of "\<lambda>_. False" "\<lambda>_. ''error''"] ne
  show ?thesis by (simp, blast)
qed

text \<open>
  C23: the responder never accepts the PC client's logout. Whatever the clock, the request that
  \<open>p5_logout_initiate\<close> builds fails the responder's checks: no \<open>logout_res\<close> is sent, the error is noted
  and the session ends.
\<close>

theorem pc_logout_rejected:
  assumes L: "aead_ok L" and c: "joined sid si k g c" and st: "served sid si k g s" and clk: "clock_ok c"
  shows "\<exists>req c' s'. p5_logout_initiate L c = (Inr req, c')
    \<and> handle_p5 L lib (view_payload req) s = (Inr (), s')
    \<and> tx s' = tx s \<and> \<not> session_active s' \<and> length (errs (metr s')) = Suc (length (errs (metr s)))"
proof -
  obtain c' where "p5_logout_initiate L c = (Inr (p5_req L sid si k c), c')" using p5_client_side [OF L c clk] by blast
  moreover have "view_payload (p5_req L sid si k c) = PDict (p5_req L sid si k c)"
    by (rule view_clean) (simp add: clean_payload_def p5_req_def BYTES_FIELDS_def)
  ultimately show ?thesis using p5_server_side [OF L c st, of lib] by auto
qed

lemma pc_logout_rejected_witness:
  "\<exists>req c' s'. p5_logout_initiate ref_lib (demo_client []) = (Inr req, c')
    \<and> handle_p5 ref_lib (\<lambda>_. ''error'') (view_payload req) (demo_server []) = (Inr (), s')
    \<and> tx s' = tx (demo_server []) \<and> \<not> session_active s'
    \<and> length (errs (metr s')) = Suc (length (errs (metr (demo_server []))))"
  by (rule pc_logout_rejected [OF aead_ok_ref_lib demo_joined(1,2)]) simp

section \<open>The client's copies of the helpers\<close>

text \<open>
  C38: the helpers that \<open>pc_client.py\<close> carries instead of importing them compute what the
  responder's modules compute, on every input: hash, HMAC, HKDF, encryption, decryption, packing,
  sending, unpacking and the register that is chained.
\<close>

theorem pc_helpers_agree:
  "pc_sha256 = h_sha256 \<and> pc_hmac_sha256 key m = Inr (hmac_sha256 key m)
   \<and> pc_hkdf salt ikm info n = hkdf salt ikm info n
   \<and> pc_encrypt_gcm L m key s = encrypt_gcm L m key (s :: 'z io_scheme)
   \<and> pc_decrypt_gcm L m key = decrypt_gcm L m key
   \<and> pc_pack_payload p = pack_payload p \<and> pc_unpack_payload m = unpack_payload m
   \<and> pc_send_msg p s = send_msg p s \<and> pc_make_reg_reg = make_reg_reg"
  by (simp add: pc_sha_eq pc_hmac_eq pc_hkdf_eq pc_encrypt_eq pc_decrypt_eq pc_pack_eq pc_unpack_eq pc_send_eq
      pc_make_reg_reg_eq)

end
