(* ===== verification/Takes.thy ===== *)
theory Takes
  imports Protocol
begin

text \<open>
  How much of the stream a handler looks at. \<open>rx_blind m\<close>: \<open>m\<close> neither reads nor depends on what
  is still to be received. \<open>prefixed Q m\<close>: a run of \<open>m\<close> that returns a value in \<open>Q\<close> took some bytes
  off the front of the stream, and any stream that begins with the same bytes, cut into chunks in
  any way, gives the same value and the same state. \<open>takes m f s v t\<close>: on the bytes \<open>f\<close> the handler
  returns \<open>v\<close> and leaves \<open>t\<close>, whatever follows them and however they arrive. The first two compose
  along the combinators, so they hold of a handler by its text; the third composes along a run.
\<close>

section \<open>Handlers that do not look at the stream\<close>

named_theorems blind_intro

definition rx_blind :: "('z io_scheme, 'a) py \<Rightarrow> bool" where
  "rx_blind m \<longleftrightarrow> (\<forall>s x. m (s\<lparr>rx := x\<rparr>) = (fst (m s), (snd (m s))\<lparr>rx := x\<rparr>))"

lemma rx_blindD: "rx_blind m \<Longrightarrow> m s = (r, t) \<Longrightarrow> m (s\<lparr>rx := x\<rparr>) = (r, t\<lparr>rx := x\<rparr>)"
  by (simp add: rx_blind_def)

lemma blind_basic [blind_intro]:
  "rx_blind (ret v)" "rx_blind (raise e)" "rx_blind (lift r)"
  by (simp_all add: rx_blind_def)

lemma blind_state:
  "(\<And>s x. f (s\<lparr>rx := x\<rparr>) = f s) \<Longrightarrow> rx_blind (gets f)"
  "(\<And>s x. g (s\<lparr>rx := x\<rparr>) = g s) \<Longrightarrow> rx_blind (getr g)"
  "(\<And>s x. h (s\<lparr>rx := x\<rparr>) = (h s)\<lparr>rx := x\<rparr>) \<Longrightarrow> rx_blind (modify h)"
  by (simp_all add: rx_blind_def)

lemma blind_bnd [blind_intro]: "rx_blind m \<Longrightarrow> (\<And>v. rx_blind (k v)) \<Longrightarrow> rx_blind (bnd m k)"
  by (auto simp: rx_blind_def bnd_def split: prod.split sum.split)

lemma blind_seq [blind_intro]: "rx_blind m \<Longrightarrow> rx_blind n \<Longrightarrow> rx_blind (seq m n)"
  by (simp add: seq_def blind_bnd)

lemma blind_try [blind_intro]:
  "rx_blind m \<Longrightarrow> (\<And>e. rx_blind (h e)) \<Longrightarrow> rx_blind (try_except m h)"
  "rx_blind m \<Longrightarrow> (\<And>e. rx_blind (h' e)) \<Longrightarrow> (\<And>v. rx_blind (k v)) \<Longrightarrow> rx_blind (try_else m h' k)"
  by (auto simp: rx_blind_def try_except_def try_else_def split: prod.split sum.split)

lemma blind_cases [blind_intro]:
  "rx_blind m \<Longrightarrow> rx_blind n \<Longrightarrow> rx_blind (if b then m else n)"
  "rx_blind m \<Longrightarrow> (\<And>y. rx_blind (k y)) \<Longrightarrow> rx_blind (case x of None \<Rightarrow> m | Some y \<Rightarrow> k y)"
  "(\<And>d. rx_blind (f d)) \<Longrightarrow> rx_blind m \<Longrightarrow> rx_blind (case v of PDict d \<Rightarrow> f d | _ \<Rightarrow> m)"
  by (simp, cases x, simp_all, cases v, simp_all)

lemma blind_io [blind_intro]:
  "rx_blind (urandom n)" "rx_blind perf_counter_ns" "rx_blind time_time" "rx_blind sock_close"
  "rx_blind (sock_sendall b)"
  by (simp_all add: rx_blind_def urandom_def perf_counter_ns_def time_time_def sock_close_def modify_def
      sock_sendall_def split: option.split nat.split)

lemma blind_send_msg [blind_intro]: "rx_blind (send_msg p)"
  unfolding send_msg_def by (intro blind_intro)

section \<open>What a run takes\<close>

definition takes :: "('z io_scheme, 'a) py \<Rightarrow> bytes \<Rightarrow> 'z io_scheme \<Rightarrow> 'a \<Rightarrow> 'z io_scheme \<Rightarrow> bool" where
  "takes m f s v t \<longleftrightarrow> (\<forall>x q. concat x = f @ q \<and> [] \<notin> set x \<longrightarrow>
     (\<exists>y. m (s\<lparr>rx := x\<rparr>) = (Inr v, t\<lparr>rx := y\<rparr>) \<and> concat y = q \<and> [] \<notin> set y))"

lemma takes_blind: "rx_blind m \<Longrightarrow> m s = (Inr v, t) \<Longrightarrow> takes m [] s v t"
  unfolding takes_def by (auto dest: rx_blindD)

lemma takes_bnd: "takes m f s w u \<Longrightarrow> takes (k w) g u v t \<Longrightarrow> takes (bnd m k) (f @ g) s v t"
  unfolding takes_def by (fastforce simp: bnd_def)

lemma takes_seq: "takes m f s w u \<Longrightarrow> takes n g u v t \<Longrightarrow> takes (seq m n) (f @ g) s v t"
  unfolding seq_def by (rule takes_bnd)

lemma takes_rx [simp]: "takes m f (s\<lparr>rx := x\<rparr>) v t = takes m f s v t" "takes m f s v (t\<lparr>rx := x\<rparr>) = takes m f s v t"
  by (simp_all add: takes_def)

lemma takes_try: "takes m f s v t \<Longrightarrow> takes (try_except m h) f s v t"
  unfolding takes_def try_except_def by fastforce

lemma takes_else: "takes m f s w u \<Longrightarrow> takes (k w) g u v t \<Longrightarrow> takes (try_else m h k) (f @ g) s v t"
  unfolding takes_def try_else_def by fastforce

lemma takes_bnd_blind:
  "takes m f s w u \<Longrightarrow> rx_blind (k w) \<Longrightarrow> k w u = (Inr v, t) \<Longrightarrow> takes (bnd m k) f s v t"
  "takes m f s w u \<Longrightarrow> rx_blind n \<Longrightarrow> n u = (Inr v, t) \<Longrightarrow> takes (seq m n) f s v t"
  "takes m f s w u \<Longrightarrow> rx_blind (k w) \<Longrightarrow> k w u = (Inr v, t) \<Longrightarrow> takes (try_else m h k) f s v t"
  using takes_bnd [of m f s w u k "[]" v t] takes_seq [of m f s w u n "[]" v t]
    takes_else [of m f s w u k "[]" v t h] by (simp_all add: takes_blind)

lemma takes_blind_bnd:
  "rx_blind m \<Longrightarrow> m s = (Inr w, u) \<Longrightarrow> takes (k w) f u v t \<Longrightarrow> takes (bnd m k) f s v t"
  "rx_blind m \<Longrightarrow> m s = (Inr w, u) \<Longrightarrow> takes n f u v t \<Longrightarrow> takes (seq m n) f s v t"
  using takes_bnd [of m "[]" s w u k f v t] takes_seq [of m "[]" s w u n f v t] by (simp_all add: takes_blind)

text \<open>Over the whole stream, nothing is left.\<close>

lemma takes_all:
  assumes "takes m f s v t" and "concat x = f" and "[] \<notin> set x"
  shows "m (s\<lparr>rx := x\<rparr>) = (Inr v, t\<lparr>rx := []\<rparr>)"
proof -
  obtain y where y: "m (s\<lparr>rx := x\<rparr>) = (Inr v, t\<lparr>rx := y\<rparr>)" "concat y = []" "[] \<notin> set y"
    using assms unfolding takes_def by (metis append_Nil2)
  then have "y = []" by (cases y) auto
  with y show ?thesis by simp
qed

section \<open>Handlers that read a prefix of the stream\<close>

named_theorems prefix_intro

definition prefixed :: "('a \<Rightarrow> bool) \<Rightarrow> ('z io_scheme, 'a) py \<Rightarrow> bool" where
  "prefixed Q m \<longleftrightarrow> (\<forall>s v t. m s = (Inr v, t) \<longrightarrow> Q v \<longrightarrow> [] \<notin> set (rx s) \<longrightarrow>
     [] \<notin> set (rx t) \<and> (\<exists>p. avail s = p @ avail t \<and> takes m p s v t))"

lemma prefixedI:
  assumes "\<And>s v t. m s = (Inr v, t) \<Longrightarrow> Q v \<Longrightarrow> [] \<notin> set (rx s) \<Longrightarrow>
     [] \<notin> set (rx t) \<and> (\<exists>p. avail s = p @ avail t \<and> takes m p s v t)"
  shows "prefixed Q m"
  unfolding prefixed_def using assms by blast

lemma prefixedE:
  assumes "prefixed Q m" and "m s = (Inr v, t)" and "Q v" and "[] \<notin> set (rx s)"
  obtains p where "[] \<notin> set (rx t)" "avail s = p @ avail t" "takes m p s v t"
proof -
  have "[] \<notin> set (rx t) \<and> (\<exists>p. avail s = p @ avail t \<and> takes m p s v t)"
    using assms unfolding prefixed_def by blast
  then show ?thesis using that by blast
qed

lemma prefixed_blind:
  assumes "rx_blind m"
  shows "prefixed Q m"
proof (rule prefixedI)
  fix s v t assume r: "m s = (Inr v, t)" and ne: "[] \<notin> set (rx s)"
  have "m (s\<lparr>rx := rx s\<rparr>) = (Inr v, t\<lparr>rx := rx s\<rparr>)" by (rule rx_blindD [OF assms r])
  then have "t\<lparr>rx := rx s\<rparr> = t" using r by simp
  then have "rx t = rx s" by (metis io.select_convs(1) io.surjective io.update_convs(1))
  then show "[] \<notin> set (rx t) \<and> (\<exists>p. avail s = p @ avail t \<and> takes m p s v t)"
    using ne takes_blind [OF assms r] by (intro conjI exI [of _ "[]"]) simp_all
qed

lemma prefixed_bnd [prefix_intro]:
  assumes "prefixed (\<lambda>_. True) m" and "\<And>v. prefixed Q (k v)"
  shows "prefixed Q (bnd m k)"
proof (rule prefixedI)
  fix s v t assume "bnd m k s = (Inr v, t)" and v: "Q v" and ne: "[] \<notin> set (rx s)"
  then obtain w u where m: "m s = (Inr w, u)" and k: "k w u = (Inr v, t)" by (auto simp: bnd_eq_Inr_iff)
  obtain p where p: "[] \<notin> set (rx u)" "avail s = p @ avail u" "takes m p s w u"
    using prefixedE [OF assms(1) m TrueI ne] .
  obtain p' where p': "[] \<notin> set (rx t)" "avail u = p' @ avail t" "takes (k w) p' u v t"
    using prefixedE [OF assms(2) k v p(1)] .
  show "[] \<notin> set (rx t) \<and> (\<exists>p. avail s = p @ avail t \<and> takes (bnd m k) p s v t)"
    using p(2) p'(1,2) takes_bnd [of m p s w u k p' v t, OF p(3) p'(3)]
    by (intro conjI exI [of _ "p @ p'"]) simp_all
qed

lemma prefixed_seq [prefix_intro]:
  "prefixed (\<lambda>_. True) m \<Longrightarrow> prefixed Q n \<Longrightarrow> prefixed Q (seq m n)"
  by (simp add: seq_def prefixed_bnd)

lemma prefixed_if [prefix_intro]: "prefixed Q m \<Longrightarrow> prefixed Q n \<Longrightarrow> prefixed Q (if b then m else n)"
  by simp

text \<open>An except clause that never returns a value in \<open>Q\<close> plays no part in the runs that do.\<close>

lemma prefixed_try:
  assumes "prefixed Q m" and "\<And>e s v t. h e s = (Inr v, t) \<Longrightarrow> \<not> Q v"
  shows "prefixed Q (try_except m h)"
proof (rule prefixedI)
  fix s v t assume "try_except m h s = (Inr v, t)" and v: "Q v" and ne: "[] \<notin> set (rx s)"
  then have "m s = (Inr v, t)"
    using assms(2) by (fastforce simp: try_except_def split: prod.splits sum.splits)
  from prefixedE [OF assms(1) this v ne] show "[] \<notin> set (rx t) \<and> (\<exists>p. avail s = p @ avail t
      \<and> takes (try_except m h) p s v t)" by (metis takes_try)
qed

lemma prefixed_recv_loop: "prefixed Q (recv_loop h n [])"
proof (rule prefixedI)
  fix s v t assume r: "recv_loop h n [] s = (Inr v, t)" and ne: "[] \<notin> set (rx s)"
  have "[] \<notin> set (rx t) \<and> avail s = take n (avail s) @ avail t \<and> takes (recv_loop h n []) (take n (avail s)) s v t"
  proof (cases "sock_closed s")
    case True
    then have "n = 0" "t = s" "v = []"
      using r by (auto simp: recv_loop.simps [of h n "[]" s] sock_recv_def split: if_splits)
    then show ?thesis using ne by (auto simp: takes_def recv_loop.simps)
  next
    case False
    then have "live s" using ne by (simp add: live_def)
    from recv_loop_stream [OF this, of "[]" n h] r
    have n: "n \<le> length (avail s)" and v: "v = take n (avail s)" and t: "t = s\<lparr>rx := chop n (rx s)\<rparr>"
      by (simp_all split: if_splits)
    have "recv_loop h n [] (s\<lparr>rx := x\<rparr>) = (Inr v, t\<lparr>rx := chop n x\<rparr>)"
      if "concat x = take n (avail s) @ q" "[] \<notin> set x" for x q
      using recv_loop_stream [of "s\<lparr>rx := x\<rparr>" "[]" n h] that False n v t by (simp add: live_def)
    moreover have "concat (chop n x) = q" if "concat x = take n (avail s) @ q" for x q
      using that n by (simp add: concat_chop)
    ultimately have "takes (recv_loop h n []) (take n (avail s)) s v t"
      unfolding takes_def using chop_nonempty by metis
    then show ?thesis using ne n t by (simp add: concat_chop chop_nonempty)
  qed
  then show "[] \<notin> set (rx t) \<and> (\<exists>p. avail s = p @ avail t \<and> takes (recv_loop h n []) p s v t)"
    by blast
qed

lemma prefixed_recv_frame: "prefixed Q (recv_frame h b limit bad parse)"
  unfolding recv_frame_def
  by (intro prefixed_bnd prefixed_if prefixed_recv_loop prefixed_blind blind_intro)

lemma prefixed_recv_msg [prefix_intro]: "prefixed Q recv_msg"
  using msg.recv_shape prefixed_recv_frame by metis

text \<open>So one run on exactly the bytes it needs tells what the handler takes.\<close>

lemma takesI:
  assumes "prefixed Q m" and "m s = (Inr v, t)" and "Q v" and "[] \<notin> set (rx s)" and "avail t = []"
  shows "takes m (avail s) s v t"
  by (rule prefixedE [OF assms(1-4)]) (use assms(5) in simp)

end
