(* ===== verification/Pc_Prefix.thy ===== *)
theory Pc_Prefix
  imports Takes Pc_Exchange
begin

text \<open>
  Every phase of the PC client and of the responder reads a prefix of its stream: what it does
  with the bytes it takes does not depend on what follows them.
\<close>

section \<open>The responder\<close>

lemma blind_encrypt [blind_intro]: "rx_blind (encrypt_gcm L m k)"
  unfolding encrypt_gcm_def Let_def by (intro blind_intro)

lemma blind_node [blind_intro]: "rx_blind (send_error m)" "rx_blind drop_connection"
  unfolding send_error_def drop_connection_def by (intro blind_intro blind_state; simp)+

lemma blind_p2: "rx_blind (run_p2 lib m)"
  unfolding run_p2_def p2_body_def phase_failed_def Let_def
  by (intro blind_intro blind_state) (simp_all add: add_error_def)

lemma blind_p3_reply: "rx_blind (p3_reply L a b c d)"
  unfolding p3_reply_def Let_def by (intro blind_intro blind_state) simp_all

lemma prefixed_p3: "prefixed (\<lambda>b. b) (run_p3 L lib m)"
proof -
  have fin: "prefixed Q (p3_finish L a b c d e f)" for Q a b c d e f
    unfolding p3_finish_def Let_def
    by (intro prefix_intro prefixed_blind blind_intro blind_state) simp_all
  have body: "prefixed Q (p3_body L m t0)" for Q t0
    unfolding p3_body_def split_def
    by (intro prefix_intro fin) (intro prefixed_blind blind_p3_reply blind_state; simp)+
  have "\<not> b" if "phase_failed tag reply lib e s = (Inr b, t)" for tag reply e s b t
    using that by (auto simp: phase_failed_def bnd_eq_Inr_iff seq_eq_Inr_iff split: if_splits)
  then show ?thesis
    unfolding run_p3_def by (intro prefixed_bnd prefixed_try body) (intro prefixed_blind blind_intro, blast)
qed

lemma blind_p4: "rx_blind (handle_p4 L lib m)"
  unfolding p4_parts
  by (intro blind_intro blind_state) (simp_all add: state_updates split: trust_event.split)

lemma blind_p5: "rx_blind (handle_p5 L lib m)"
  unfolding p5_parts by (intro blind_intro blind_state) (simp_all add: state_updates)

lemma prefixed_turn: "prefixed Q (loop_turn L lib)"
  unfolding loop_turn_def
  by (intro prefix_intro) (intro prefixed_blind blind_intro blind_p4 blind_p5)+

section \<open>The client\<close>

lemma prefixed_pc_recv [prefix_intro]: "prefixed Q pc_recv_msg"
  using pcmsg.recv_shape prefixed_recv_frame by metis

lemma blind_pc [blind_intro]:
  "rx_blind (pc_send_msg p)" "rx_blind (pc_encrypt_gcm L m k)" "rx_blind ts_bytes"
  "rx_blind (not_error pr tag v)" "rx_blind pc_seconds" "rx_blind (set_metrics g)"
  unfolding pc_send_msg_def pc_encrypt_gcm_def ts_bytes_def not_error_def pc_seconds_def set_metrics_def Let_def
  by (intro blind_intro blind_state; simp)+

lemma blind_initiator:
  "rx_blind (p2_initiator_compute salt)" "rx_blind (p2_finalize a b d e)" "rx_blind (p3_initiator_prepare L p)"
  "rx_blind (p3_initiator_finalize L r)" "rx_blind (p4_send L j)" "rx_blind (p4_finalize L r)"
  "rx_blind (gen_reading g i)" "rx_blind (p5_logout_initiate L)"
  unfolding p2_initiator_compute_def p2_finalize_def p3_initiator_prepare_def p3_initiator_finalize_def
    p4_send_def p4_finalize_def gen_reading_def p5_logout_initiate_def Let_def
  by (intro blind_intro blind_state; simp)+

lemma skip_setpoints_eq:
  "skip_setpoints resp = (if get_or ''type'' PNone resp = Inr (PStr ''setpoint'') then bnd pc_recv_msg skip_setpoints
     else bnd (lift (get_or ''type'' PNone resp)) (\<lambda>_. ret resp))"
  by (rule ext) (auto simp: skip_setpoints.simps [of resp] bnd_def split: sum.split prod.split)

lemma skip_takes:
  "skip_setpoints resp s = (Inr v, t) \<Longrightarrow> [] \<notin> set (rx s) \<Longrightarrow>
   [] \<notin> set (rx t) \<and> (\<exists>p. avail s = p @ avail t \<and> takes (skip_setpoints resp) p s v t)"
proof (induction resp s rule: skip_setpoints.induct)
  case (1 resp s)
  show ?case
  proof (cases "get_or ''type'' PNone resp = Inr (PStr ''setpoint'')")
    case True
    then have eq: "skip_setpoints resp = bnd pc_recv_msg skip_setpoints" by (subst skip_setpoints_eq) simp
    obtain m u where m: "pc_recv_msg s = (Inr m, u)" and k: "skip_setpoints m u = (Inr v, t)"
      using "1.prems"(1) unfolding eq by (auto simp: bnd_eq_Inr_iff)
    obtain p where p: "[] \<notin> set (rx u)" "avail s = p @ avail u" "takes pc_recv_msg p s m u"
      using prefixedE [OF prefixed_pc_recv m TrueI "1.prems"(2)] .
    obtain q where q: "[] \<notin> set (rx t)" "avail u = q @ avail t" "takes (skip_setpoints m) q u v t"
      using "1.IH" [OF True refl m [symmetric] refl k p(1)] by blast
    show ?thesis
      using p(2) q(1,2) takes_bnd [of pc_recv_msg p s m u skip_setpoints q v t, OF p(3) q(3)] eq
      by (intro conjI exI [of _ "p @ q"]) simp_all
  next
    case False
    then have "skip_setpoints resp = bnd (lift (get_or ''type'' PNone resp)) (\<lambda>_. ret resp)"
      by (subst skip_setpoints_eq) simp
    then have "prefixed (\<lambda>_. True) (skip_setpoints resp)" by (simp only:) (intro prefixed_blind blind_intro)
    from prefixedE [OF this "1.prems"(1) TrueI "1.prems"(2)] show ?thesis by blast
  qed
qed

lemma prefixed_skip [prefix_intro]: "prefixed Q (skip_setpoints resp)"
  by (rule prefixedI) (rule skip_takes)

lemma prefixed_client:
  "prefixed Q (client_p2 pr salt)" "prefixed Q (client_p3 L pr)" "prefixed Q (p4_exchange L pr raw)"
  unfolding client_p2_def client_p3_def p4_exchange_def split_def
  by (intro prefix_intro; (intro prefixed_blind blind_intro blind_initiator blind_state)?; simp)+

end
