(* ===== verification/Pc_Readings.thy ===== *)
theory Pc_Readings
  imports Pc_Exchange
begin

text \<open>
  The readings of \<open>pc_client.py\<close>: whatever the generator draws, a reading is built, its JSON text is
  short enough to be sent, because the representation of a double is short, and it is read back as
  the same reading. The clocks are assumed to stay within the years and the uptime of such machines.
\<close>

lemma length_json_float: "is_double x \<Longrightarrow> length (json_float x) \<le> 41"
  using length_repr_pos [THEN le_SucI] by (cases x) (auto simp: double_def json_float_def intro: length_repr_pos)

section \<open>The length of a reading\<close>

lemma dumps_members_length:
  assumes "list_all (\<lambda>(k, v). safe_str k \<and> (\<exists>t. dumps v = Inr t \<and> length t \<le> n)) d"
  shows "\<exists>t. dumps_members d = Inr t \<and> length t \<le> sum_list (map (\<lambda>(k, v). length k + n + 6) d)"
  using assms
proof (induction d)
  case (Cons kv d)
  obtain k v where kv: "kv = (k, v)" by fastforce
  obtain t where "dumps v = Inr t" "length t \<le> n" "safe_str k" using Cons.prems kv by auto
  moreover obtain u where "dumps_members d = Inr u" "length u \<le> sum_list (map (\<lambda>(k, v). length k + n + 6) d)"
    using Cons by auto
  ultimately show ?case by (simp add: kv json_str_safe)
qed simp

definition clocks_ok :: "'z io_scheme \<Rightarrow> bool" where
  \<comment> \<open>the time of day up to the year 2242, the performance counter up to 146 years\<close>
  "clocks_ok s \<longleftrightarrow> (\<forall>i. 0 \<le> wall s i \<and> wall s i \<le> 8589934592) \<and> (\<forall>i. 0 \<le> ticks s i \<and> ticks s i \<le> 4611686018427387904)"

lemma int_of_float_range:
  assumes "in_range (of_int a) (of_int b) x"
  shows "\<exists>n. int_of_float x = Inr n \<and> min a 0 \<le> n \<and> n \<le> max b 0"
proof -
  from assms obtain r where r: "x = Fin r" "of_int a \<le> r" "r \<le> of_int b" by (auto elim: in_rangeE)
  have "min a 0 \<le> int_of_time r \<and> int_of_time r \<le> max b 0"
  proof (cases "r < 0")
    case True
    have "- r \<le> of_int (- a)" using r(2) by simp
    then have "\<lfloor>- r\<rfloor> \<le> - a" by (simp add: floor_le_iff)
    moreover have "0 \<le> \<lfloor>- r\<rfloor>" using True by simp
    ultimately show ?thesis using True unfolding int_of_time_def by (simp only: if_True) linarith
  next
    case False
    then have "0 \<le> \<lfloor>r\<rfloor>" by simp
    moreover have "\<lfloor>r\<rfloor> \<le> b" using r(3) by (simp add: floor_le_iff)
    ultimately show ?thesis using False unfolding int_of_time_def by (simp only: if_False) linarith
  qed
  then show ?thesis by (simp add: r(1) int_of_float_def)
qed

lemma rnd_powers [simp]: "rnd 8589934592 = 8589934592" "rnd 8589934592000 = 8589934592000" "rnd 8589934592000000 = 8589934592000000"
  by (rule rnd_numeral, simp)+

lemma bnd_time: "bnd time_time k s = k (wall s (wall_pos s)) (s\<lparr>wall_pos := Suc (wall_pos s)\<rparr>)"
  by (simp add: bnd_def time_time_def)

lemma reading_sendable:
  assumes "clocks_ok c"
  shows "\<exists>ms t. int_of_float (fmul (fl (wall c (wall_pos c))) (Fin 1000)) = Inr ms
    \<and> gen_reading gauss i c = (Inr (sensor_fields gauss i ms), c\<lparr>wall_pos := Suc (wall_pos c)\<rparr>)
    \<and> dumps (PDict (sensor_fields gauss i ms)) = Inr t \<and> length t \<le> 5000
    \<and> json_plain (PDict (sensor_fields gauss i ms))"
proof -
  let ?now = "wall c (wall_pos c)"
  have "in_range 0 8589934592 (fl ?now)"
    using assms by (intro fl_in_range) (simp_all add: clocks_ok_def)
  then obtain r where r: "fl ?now = Fin r" "0 \<le> r" "r \<le> 8589934592" by (rule in_rangeE)
  then have "in_range (of_int 0) (of_int 8589934592000) (fmul (fl ?now) (Fin 1000))"
    using fl_in_range [of 0 "r * 1000" 8589934592000] by simp
  from int_of_float_range [OF this] obtain ms where
    ms: "int_of_float (fmul (fl ?now) (Fin 1000)) = Inr ms" "0 \<le> ms" "ms \<le> 8589934592000" by auto
  then have len: "length (dec_str ms) \<le> 13" using length_dec_str [of ms 12] by simp
  define d where "d = sensor_fields gauss i ms"
  have keys: "map fst d = [''V_bus'', ''I_bus'', ''P_bus'', ''V_gen'', ''I_gen'', ''P_gen'', ''I_node'', ''P_node'',
    ''timestamp_ms'', ''saturated'']" by (simp add: d_def sensor_fields_def Let_def)
  have safe: "list_all safe_str (map fst d)" unfolding keys by code_simp
  have vals: "\<forall>v \<in> set (map snd d). json_plain v \<and> (\<exists>t. dumps v = Inr t \<and> length t \<le> 41)"
    using ms(2) len by (auto simp: d_def sensor_fields_def Let_def length_json_float int_str_def)
  then have "list_all (\<lambda>(k, v). safe_str k \<and> (\<exists>t. dumps v = Inr t \<and> length t \<le> 41)) d"
    using safe by (auto simp: list_all_iff)
  from dumps_members_length [OF this] obtain t where
    t: "dumps_members d = Inr t" "length t \<le> sum_list (map (\<lambda>(k, v). length k + 41 + 6) d)" by blast
  have "map (\<lambda>(k, v). length k + 41 + 6) d = map (\<lambda>k. length k + 47) (map fst d)" by (simp add: split_def)
  then have "length t \<le> 600" using t(2) unfolding keys by simp
  moreover have "json_plain_members d"
    using safe vals safe_ascii by (fastforce simp: list_all_iff json_plain_members_iff)
  moreover have "dict_ok d" by (simp only: keys) simp
  moreover have "gen_reading gauss i c = (Inr d, c\<lparr>wall_pos := Suc (wall_pos c)\<rparr>)"
    by (simp add: gen_reading_def bnd_time ms(1) d_def)
  ultimately show ?thesis using ms(1) t(1) unfolding d_def by simp
qed

lemma duration_returns:
  assumes "0 \<le> a" "a \<le> 4611686018427387904" and "0 \<le> b" "b \<le> 4611686018427387904"
  shows "\<exists>n. duration_us (fl (of_int a / 1000000000)) (fl (of_int b / 1000000000)) = Inr n"
proof -
  have sec: "in_range 0 8589934592 (fl (of_int x / 1000000000))" if "0 \<le> x" "x \<le> 4611686018427387904" for x :: int
  proof -
    have "(of_int x :: rat) \<le> of_int 4611686018427387904" using that(2) by (simp only: of_int_le_iff)
    then show ?thesis using that(1) by (intro fl_in_range) simp_all
  qed
  from sec [OF assms(1,2)] obtain p where p: "fl (of_int a / 1000000000) = Fin p" "0 \<le> p" "p \<le> 8589934592"
    by (rule in_rangeE)
  from sec [OF assms(3,4)] obtain q where q: "fl (of_int b / 1000000000) = Fin q" "0 \<le> q" "q \<le> 8589934592"
    by (rule in_rangeE)
  have "in_range (- 8589934592) 8589934592 (fl (q - p))"
    using p q by (intro fl_in_range) simp_all
  then obtain d where d: "fl (q - p) = Fin d" "- 8589934592 \<le> d" "d \<le> 8589934592" by (rule in_rangeE)
  then have "in_range (of_int (- 8589934592000000)) (of_int 8589934592000000) (fmul (fsub (Fin q) (Fin p)) (Fin 1000000))"
    using fl_in_range [of "- 8589934592000000" "d * 1000000" 8589934592000000] by (simp add: fsub_def)
  from int_of_float_range [OF this] show ?thesis by (auto simp: duration_us_def p q)
qed

end
