(* ===== verification/Pc_Delivery.thy ===== *)
theory Pc_Delivery
  imports Pc_Prefix Pc_Readings
begin

text \<open>
  What an exchange of \<open>pc_client.py\<close> with the responder leaves behind on either side beyond its
  session: the reading in the responder's store, as the client generated it, and the setpoint
  message behind the answer, which the client skips when it waits for the next one.
\<close>

section \<open>The reading in the store\<close>

definition stored_reading :: "string \<Rightarrow> (nat \<Rightarrow> pyfloat) \<Rightarrow> nat \<Rightarrow> int \<Rightarrow> reading" where
  \<comment> \<open>the generated fields, the label, the message number and the trust the session has\<close>
  "stored_reading lbl gauss i ms = sensor_fields gauss i ms
     @ [(''node'', PStr lbl), (''M_num'', PInt (int i + 1)), (''trust_score'', PFloat TRUST_START)]"

lemma stored_reading_eq:
  "dict_set ''trust_score'' (PFloat TRUST_START) (dict_set ''M_num'' (PInt (int i + 1))
     (dict_set ''node'' (PStr lbl) (sensor_fields gauss i ms))) = stored_reading lbl gauss i ms"
  by (simp add: stored_reading_def sensor_fields_def Let_def)

lemma parse_sensor_sent:
  assumes t: "dumps (PDict r) = Inr t" "json_plain (PDict r)" "length t \<le> 5000"
  shows "parse_sensor lbl m (p4_smg (str_bytes t))
    = Inr (PDict (dict_set ''M_num'' (PInt m) (dict_set ''node'' (PStr lbl) r)))"
proof -
  define raw where "raw = str_bytes t"
  have len: "length raw = length t" by (simp add: raw_def)
  obtain pad where smg: "p4_smg raw = be_bytes 4 (int (length raw)) @ raw @ replicate pad 0"
    using smg_normalize_Inr [of raw] t(3) len by (auto simp: p4_smg_def)
  have "struct_unpack 4 (be_bytes 4 (int (length raw))) = Inr (int (length raw))"
    using t(3) len by (simp add: struct_unpack_def be_int_be_bytes)
  moreover have "slice 4 (4 + nat (int (length raw))) (p4_smg raw) = raw"
    by (simp add: smg slice_def)
  moreover have "utf8_decode raw = Inr t"
    unfolding raw_def by (rule utf8_decode_ascii [OF ascii_dumps [OF t(2,1)]])
  ultimately show ?thesis
    using loads_dumps [OF t(1,2)] unfolding raw_def [symmetric]
    by (simp add: parse_sensor_def Let_def smg)
qed

text \<open>
  A reported voltage agrees with the median of the other nodes when there is none, or when it is
  within the threshold of it. The responder then keeps its trust.
\<close>

definition agrees :: "pyfloat option \<Rightarrow> pyval \<Rightarrow> bool" where
  "agrees md v \<longleftrightarrow> (case md of None \<Rightarrow> True | Some m \<Rightarrow>
     rbind (rbind (py_sub v (PFloat m)) py_abs) (py_lt (PFloat V_BUS_ANOMALY_THRESHOLD)) = Inr False)"

definition checked :: "pyfloat option \<Rightarrow> node_session \<Rightarrow> node_session" where
  "checked md s = (case md of None \<Rightarrow> s | Some m \<Rightarrow> update_trust SensorOk s)"

lemma checked_simps [simp]:
  "wall (checked md s) = wall s" "wall_pos (checked md s) = wall_pos s" "data_st (checked md s) = data_st s"
  "node_label (checked md s) = node_label s" "trust_score (checked md s) = trust_score s"
  "coord (checked md s) = coord s" "session_active (checked md s) = session_active s"
  "audit_chain (checked md s) = audit_chain s"
  by (simp_all add: checked_def update_trust_def split: option.split)

lemma check_anomaly_agrees:
  assumes "get_median_v_bus (Some (node_label s)) (data_st s) = Inr md"
    and "map_of d ''V_bus'' = Some v" and "agrees md v"
  shows "check_anomaly (PDict d) s = (Inr (), checked md s)"
proof (cases md)
  case (Some m)
  obtain x dev where x: "py_sub v (PFloat m) = Inr x" "py_abs x = Inr dev"
    "py_lt (PFloat V_BUS_ANOMALY_THRESHOLD) dev = Inr False"
    using assms(3) Some by (auto simp: agrees_def rbind_Inr_iff)
  then show ?thesis using assms(1,2) Some by (simp add: check_anomaly_def bnd_getr checked_def)
qed (use assms(1) in \<open>simp add: check_anomaly_def bnd_getr checked_def\<close>)

lemma sensor_recorded:
  assumes t: "dumps (PDict r) = Inr t" "json_plain (PDict r)" "length t \<le> 5000"
    and md: "get_median_v_bus (Some (node_label s)) (data_st s) = Inr md"
    and v: "map_of r ''V_bus'' = Some v" "agrees md v"
  shows "handle_sensor m (p4_smg (str_bytes t)) s = (Inr (), (checked md s)\<lparr>wall_pos := Suc (wall_pos s),
      data_st := store_record (wall s (wall_pos s)) (node_label s)
        (dict_set ''trust_score'' (PFloat (trust_score s)) (dict_set ''M_num'' (PInt m)
          (dict_set ''node'' (PStr (node_label s)) r))) (data_st s)\<rparr>)"
proof -
  define d where "d = dict_set ''M_num'' (PInt m) (dict_set ''node'' (PStr (node_label s)) r)"
  have "map_of d ''V_bus'' = Some v" using v(1) by (simp add: d_def map_of_dict_set)
  from check_anomaly_agrees [OF md this v(2)] show ?thesis
    using parse_sensor_sent [OF t, of "node_label s" m] unfolding d_def [symmetric]
    by (simp add: handle_sensor_def sensor_body_def try_except_def bnd_getr record_reading_def
        bnd_time seq_Inr [where m = "check_anomaly p" for p])
qed

section \<open>Setpoint messages\<close>

definition setpoint_msg :: "pyfloat \<Rightarrow> payload" where
  "setpoint_msg sp = [(''type'', PStr ''setpoint''), (''data'', PDict [(''p_demand'', PFloat sp)])]"

lemma setpoint_light: "is_double sp \<Longrightarrow> light_payload (setpoint_msg sp)"
proof -
  assume sp: "is_double sp"
  have "wf_payload (setpoint_msg sp)"
    using sp by (simp add: wf_payload_def setpoint_msg_def)
  moreover obtain t where t: "dumps (PDict (map (\<lambda>(k, v). (k, pack_value v)) (setpoint_msg sp))) = Inr t"
    "length t \<le> 16384"
    using length_json_float [OF sp] by (simp add: setpoint_msg_def json_str_safe safe_char_def)
  ultimately show ?thesis
    by (simp add: light_payload_def pw_def pack_payload_def to_bytes4_def Let_def del: dumps.simps)
qed

lemma setpoint_view: "view_payload (setpoint_msg sp) = PDict (setpoint_msg sp)"
  by (rule view_clean) (simp add: clean_payload_def setpoint_msg_def BYTES_FIELDS_def)

lemma setpoint_type: "get_or ''type'' PNone (PDict (setpoint_msg sp)) = Inr (PStr ''setpoint'')"
  by (simp add: setpoint_msg_def)

text \<open>The frames the responder sends after an answer.\<close>

definition advice :: "string \<Rightarrow> ems \<Rightarrow> bytes list" where
  "advice lbl e = (case get_setpoint lbl e of None \<Rightarrow> [] | Some sp \<Rightarrow> [pw (setpoint_msg sp)])"

text \<open>A setpoint that waits in front of what an exchange takes is skipped.\<close>

lemma p4_exchange_eq:
  "p4_exchange L pr raw = seq (bnd (p4_send L raw) pc_send_msg)
     (bnd (bnd pc_recv_msg skip_setpoints) (\<lambda>r. seq (not_error pr ''P4 error: '' r) (p4_finalize L r)))"
  by (rule ext) (simp add: p4_exchange_def bnd_def seq_def split: prod.split sum.split)

lemma keeps_not_closed: "keeps (\<lambda>s. \<not> sock_closed s) (bnd (p4_send L raw) pc_send_msg)"
proof -
  have "keeps (\<lambda>s. \<not> sock_closed s) (sock_sendall b)" for b
    by (rule keepsI) (auto simp: sock_sendall_def split: if_splits option.splits nat.splits)
  then have "keeps (\<lambda>s. \<not> sock_closed s) (pc_send_msg p)" for p
    unfolding pc_send_eq send_msg_def by (intro keeps_bnd keeps_lift)
  then show ?thesis
    unfolding p4_send_def pc_encrypt_gcm_def ts_bytes_def Let_def
    by (intro keeps_intro keeps_modify; simp)
qed

lemma skip_pending:
  assumes run: "takes (p4_exchange L pr raw) f c () d" and c: "\<not> sock_closed c" and sp: "is_double sp"
  shows "takes (p4_exchange L pr raw) (pw (setpoint_msg sp) @ f) c () d"
  unfolding takes_def
proof (intro allI impI, elim conjE)
  let ?P = "bnd (p4_send L raw) pc_send_msg" and ?R = "bnd pc_recv_msg skip_setpoints"
  fix x q assume x: "concat x = (pw (setpoint_msg sp) @ f) @ q" "[] \<notin> set x"
  have blind: "rx_blind ?P"
    unfolding pc_send_eq [abs_def] by (intro blind_intro blind_initiator)
  define x0 where "x0 = (if f = [] then [] else [f])"
  have "concat x0 = f @ []" "[] \<notin> set x0" by (simp_all add: x0_def)
  with run obtain y0 where "p4_exchange L pr raw (c\<lparr>rx := x0\<rparr>) = (Inr (), d\<lparr>rx := y0\<rparr>)"
    unfolding takes_def by blast
  then obtain u where u: "?P (c\<lparr>rx := x0\<rparr>) = (Inr (), u)"
    unfolding p4_exchange_eq seq_def bnd_eq_Inr_iff [of "bnd (p4_send L raw) pc_send_msg"] by auto
  have P: "?P (c\<lparr>rx := y\<rparr>) = (Inr (), u\<lparr>rx := y\<rparr>)" for y
    using rx_blindD [OF blind u, of y] by simp
  have "\<not> sock_closed u" by (rule keepsD [OF keeps_not_closed _ u]) (simp add: c)
  then have "live (u\<lparr>rx := x\<rparr>)" "avail (u\<lparr>rx := x\<rparr>) = pw (setpoint_msg sp) @ f @ q"
    using x by (simp_all add: live_def)
  then obtain y where
    r: "pc_recv_msg (u\<lparr>rx := x\<rparr>) = (Inr (view_payload (setpoint_msg sp)), u\<lparr>rx := x\<rparr>\<lparr>rx := y\<rparr>)"
    and y: "concat y = f @ q" "[] \<notin> set y"
    by (rule recv_light [OF setpoint_light [OF sp]])
  have recv: "pc_recv_msg (u\<lparr>rx := x\<rparr>) = (Inr (PDict (setpoint_msg sp)), u\<lparr>rx := y\<rparr>)"
    using r unfolding setpoint_view by simp
  have "?R (u\<lparr>rx := x\<rparr>) = ?R (u\<lparr>rx := y\<rparr>)"
    using setpoint_type [of sp]
    by (simp only: bnd_Inr [where m = pc_recv_msg, OF recv] skip_setpoints_eq [of "PDict (setpoint_msg sp)"] simp_thms if_True)
  then have "p4_exchange L pr raw (c\<lparr>rx := x\<rparr>) = p4_exchange L pr raw (c\<lparr>rx := y\<rparr>)"
    unfolding p4_exchange_eq by (simp only: seq_Inr [where m = "bnd (p4_send L raw) pc_send_msg", OF P] bnd_def [of "bnd pc_recv_msg skip_setpoints"])
  then show "\<exists>z. p4_exchange L pr raw (c\<lparr>rx := x\<rparr>) = (Inr (), d\<lparr>rx := z\<rparr>) \<and> concat z = q \<and> [] \<notin> set z"
    using run y unfolding takes_def by auto
qed

end
