(* ===== verification/Pc_Dialogue.thy ===== *)
theory Pc_Dialogue
  imports Pc_Delivery Trust_Laws
begin

text \<open>
  The exchanges of \<open>pc_client.py\<close> with the responder of \<open>auth_service.py\<close>, composed: what each end
  sends in a phase is what the other end takes off its stream in that phase, so the phases chain
  into a whole session.
\<close>

section \<open>Receiving a message that always travels\<close>

lemma takes_recv:
  assumes "flat_payload p" and "\<not> sock_closed s"
  shows "takes recv_msg (pw p) s (view_payload p) s"
  unfolding takes_def
proof (intro allI impI, elim conjE)
  fix x q assume x: "concat x = pw p @ q" "[] \<notin> set x"
  then have "live (s\<lparr>rx := x\<rparr>)" "avail (s\<lparr>rx := x\<rparr>) = pw p @ q" using assms(2) by (simp_all add: live_def)
  then obtain c where "recv_msg (s\<lparr>rx := x\<rparr>) = (Inr (view_payload p), s\<lparr>rx := x\<rparr>\<lparr>rx := c\<rparr>)" "concat c = q" "[] \<notin> set c"
    by (rule recv_flat [OF assms(1)])
  then show "\<exists>y. recv_msg (s\<lparr>rx := x\<rparr>) = (Inr (view_payload p), s\<lparr>rx := y\<rparr>) \<and> concat y = q \<and> [] \<notin> set y"
    by auto
qed

section \<open>A responder that has no quarrel with the node\<close>

text \<open>
  An active session with the starting trust: it stays so through the exchange of any reading that
  agrees with the other nodes. A setpoint it may have, and sends behind every answer. The readings
  to come are undisputed when their voltages agree with the median that the store has now.
\<close>

definition calm :: "node_session \<Rightarrow> bool" where
  "calm s \<longleftrightarrow> session_active s \<and> trust_score s = TRUST_START
     \<and> (case get_setpoint (node_label s) (coord s) of None \<Rightarrow> True | Some sp \<Rightarrow> is_double sp)"

definition undisputed :: "(nat \<Rightarrow> pyfloat) \<Rightarrow> nat list \<Rightarrow> string \<Rightarrow> data_store \<Rightarrow> bool" where
  "undisputed gauss is lbl d \<longleftrightarrow> (case get_median_v_bus (Some lbl) d of Inl _ \<Rightarrow> False
     | Inr md \<Rightarrow> \<forall>i \<in> set is. agrees md (field ''V_bus'' PNone (sensor_fields gauss i 0)))"

lemma v_bus_values_record: "v_bus_values (Some l) (store_record now l r d) = v_bus_values (Some l) d"
proof -
  have "[field ''V_bus'' PNone r. (n, r) \<leftarrow> dict_set l x m, Some n \<noteq> Some l \<and> field ''V_bus'' PNone r \<noteq> PNone]
      = [field ''V_bus'' PNone r. (n, r) \<leftarrow> m, Some n \<noteq> Some l \<and> field ''V_bus'' PNone r \<noteq> PNone]" for x m
    by (induction m) auto
  then show ?thesis by (simp add: v_bus_values_def store_record_def Let_def)
qed

lemma median_record: "get_median_v_bus (Some l) (store_record now l r d) = get_median_v_bus (Some l) d"
  by (simp add: get_median_v_bus_def v_bus_values_record)

lemma undisputed_record:
  "undisputed gauss is l d \<Longrightarrow> set js \<subseteq> set is \<Longrightarrow> undisputed gauss js l (store_record now l r d)"
  by (auto simp: undisputed_def median_record split: sum.splits)

lemma undisputedE:
  assumes "undisputed gauss is lbl d" and "i \<in> set is"
  obtains md v where "get_median_v_bus (Some lbl) d = Inr md" "\<And>ms. map_of (sensor_fields gauss i ms) ''V_bus'' = Some v"
    "agrees md v"
proof -
  obtain md where md: "get_median_v_bus (Some lbl) d = Inr md" "agrees md (field ''V_bus'' PNone (sensor_fields gauss i 0))"
    using assms by (auto simp: undisputed_def split: sum.splits)
  have "map_of (sensor_fields gauss i ms) ''V_bus'' = Some (field ''V_bus'' PNone (sensor_fields gauss i 0))" for ms
    by (simp add: sensor_fields_def Let_def field_def)
  then show ?thesis using that md by blast
qed

lemma p4_rest_calm:
  assumes "calm s" and "open_tx s"
  shows "\<exists>t. p4_rest t0 s = (Inr (), t) \<and> tx t = tx s @ advice (node_label s) (coord s) \<and> open_tx t \<and> calm t
    \<and> fixed_part t = fixed_part s \<and> PRV_bl t = PRV_bl s \<and> audit_chain t = audit_chain s
    \<and> (data_st t, coord t, wall t) = (data_st s, coord s, wall s)"
proof -
  define u where "u = s\<lparr>tx := tx s @ advice (node_label s) (coord s)\<rparr>"
  define ask :: "unit handler" where "ask = bnd (gets (\<lambda>s. get_setpoint (node_label s) (coord s))) (\<lambda>setpoint. case setpoint of
      None \<Rightarrow> ret ()
    | Some sp \<Rightarrow> send_msg [(''type'', PStr ''setpoint''), (''data'', PDict [(''p_demand'', PFloat sp)])])"
  have step: "ask s = (Inr (), u)"
  proof (cases "get_setpoint (node_label s) (coord s)")
    case (Some sp)
    then have "is_double sp" using assms(1) by (simp add: calm_def)
    from send_light [OF setpoint_light [OF this] assms(2)] Some show ?thesis
      by (simp add: ask_def u_def advice_def setpoint_msg_def)
  qed (simp add: ask_def u_def advice_def)
  have "trust_score u = TRUST_START" using assms(1) by (simp add: u_def calm_def)
  then show ?thesis
    using assms unfolding p4_rest_def ask_def [symmetric] seq_Inr [where m = ask, OF step]
    by (simp add: bnd_def [of perf_counter_ns] perf_counter_eq trust_below(1) u_def calm_def open_tx_def fixed_part_def)
qed

lemma p4_server_calm:
  assumes L: "aead_ok L" and c: "joined sid si k g c" and ok: "clock_ok c" "0 \<le> c_M_num c" "c_M_num c + 1 < 2 ^ 32"
    and t: "dumps (PDict r) = Inr t" "json_plain (PDict r)" "length t \<le> 5000"
    and v: "get_median_v_bus (Some (node_label s)) (data_st s) = Inr md" "map_of r ''V_bus'' = Some x" "agrees md x"
    and st: "served sid si k g s" and s: "open_tx s" and calm: "calm s"
  shows "\<exists>t'. handle_p4 L lib (PDict (p4_dx L sid si k g c (str_bytes t))) s = (Inr (), t')
    \<and> tx t' = tx s @ pw (p4_res L sid si k g c (str_bytes t) s) # advice (node_label s) (coord s) \<and> open_tx t' \<and> calm t'
    \<and> served sid si k (chain_next sid si k g (p4_block sid si g c (str_bytes t))) t'
    \<and> length (audit_chain t') = Suc (length (audit_chain s))
    \<and> (node_label t', coord t', wall t') = (node_label s, coord s, wall s)
    \<and> data_st t' = store_record (wall s (wall_pos s)) (node_label s) (dict_set ''trust_score'' (PFloat TRUST_START)
        (dict_set ''M_num'' (PInt (c_M_num c + 1)) (dict_set ''node'' (PStr (node_label s)) r))) (data_st s)"
proof -
  let ?raw = "str_bytes t"
  have raw: "sendable c ?raw" using ok t(3) by (simp add: sendable_def)
  obtain u where u: "handle_sensor (c_M_num c + 1) (p4_smg ?raw) (p4_chained sid si k g c ?raw s) = (Inr (), u)"
    "handle_p4 L lib (PDict (p4_dx L sid si k g c ?raw)) s = try_except (p4_rest (ticks s (tick_pos s))) (p4_failed lib)
          (u\<lparr>entropy_pos := entropy_pos u + 12, tx := tx s @ [pw (p4_res L sid si k g c ?raw s)]\<rparr>)"
    "open_tx u" "served sid si k (chain_next sid si k g (p4_block sid si g c ?raw)) u"
    by (rule p4_server_run [OF L c raw st s])
  have "get_median_v_bus (Some (node_label (p4_chained sid si k g c ?raw s))) (data_st (p4_chained sid si k g c ?raw s)) = Inr md"
    using v(1) by (simp add: p4_chained_def advance_chain_def)
  from sensor_recorded [OF t this v(2,3), of "c_M_num c + 1"] u(1) calm
  have w: "data_st u = store_record (wall s (wall_pos s)) (node_label s) (dict_set ''trust_score'' (PFloat TRUST_START)
        (dict_set ''M_num'' (PInt (c_M_num c + 1)) (dict_set ''node'' (PStr (node_label s)) r))) (data_st s)"
    "(node_label u, coord u, wall u) = (node_label s, coord s, wall s)" "session_active u" "trust_score u = TRUST_START"
    "length (audit_chain u) = Suc (length (audit_chain s))"
    by (auto simp: p4_chained_def advance_chain_def calm_def)
  define V where "V = u\<lparr>entropy_pos := entropy_pos u + 12, tx := tx s @ [pw (p4_res L sid si k g c ?raw s)]\<rparr>"
  have "calm V" "open_tx V"
    using w calm u(3) by (simp_all add: V_def calm_def open_tx_def)
  from p4_rest_calm [OF this, of "ticks s (tick_pos s)"] obtain t' where
    "p4_rest (ticks s (tick_pos s)) V = (Inr (), t')" "tx t' = tx V @ advice (node_label V) (coord V)" "open_tx t'" "calm t'"
    "fixed_part t' = fixed_part V" "PRV_bl t' = PRV_bl V" "audit_chain t' = audit_chain V"
    "(data_st t', coord t', wall t') = (data_st V, coord V, wall V)" by blast
  then show ?thesis
    unfolding u(2) V_def [symmetric] using w u(4)
    by (intro exI [of _ t']) (simp add: try_except_def V_def served_def fixed_part_def)
qed

section \<open>One exchange\<close>

text \<open>What no phase of the client touches: its clocks, the end of its stream, the metrics.\<close>

definition backdrop :: "node_client \<Rightarrow> (nat \<Rightarrow> rat) \<times> (nat \<Rightarrow> int) \<times> stream_end \<times> pc_metrics" where
  "backdrop s = (wall s, ticks s, rx_end s, c_metrics s)"

lemma keeps_backdrop:
  "keeps (\<lambda>s. backdrop s = b) (client_p2 pr salt)" "keeps (\<lambda>s. backdrop s = b) (client_p3 L pr)"
  "keeps (\<lambda>s. backdrop s = b) (p4_exchange L pr raw)" "keeps (\<lambda>s. backdrop s = b) (p5_logout_initiate L)"
  unfolding p5_logout_initiate_def client_p2_def client_p3_def p4_exchange_def p2_initiator_compute_def p2_finalize_def
    p3_initiator_prepare_def p3_initiator_finalize_def p4_send_def p4_finalize_def pc_encrypt_gcm_def not_error_def
    ts_bytes_def Let_def
  by (intro keeps_intro keeps_modify; simp add: backdrop_def)+

lemma clock_bound: "clocks_ok c \<Longrightarrow> clock_ok c"
proof -
  assume "clocks_ok c"
  then have "0 \<le> wall c (wall_pos c)" "wall c (wall_pos c) \<le> of_int 8589934592" by (simp_all add: clocks_ok_def)
  then have "0 \<le> \<lfloor>wall c (wall_pos c)\<rfloor>" "\<lfloor>wall c (wall_pos c)\<rfloor> \<le> 8589934592" by (simp_all only: zero_le_floor floor_le_iff)
  then show ?thesis using \<open>0 \<le> wall c (wall_pos c)\<close> by (simp add: clock_ok_def int_of_time_def)
qed

text \<open>What the session does not touch on the responder's side.\<close>

definition scene :: "node_session \<Rightarrow> string \<times> ems \<times> (nat \<Rightarrow> rat)" where
  "scene s = (node_label s, coord s, wall s)"

lemma p4_meets:
  assumes L: "aead_ok L" and c: "joined sid si k g c" and ok: "clock_ok c" "0 \<le> c_M_num c" "c_M_num c + 1 < 2 ^ 32"
    and t: "dumps (PDict r) = Inr t" "json_plain (PDict r)" "length t \<le> 5000" and st: "served sid si k g s"
    and v: "get_median_v_bus (Some (node_label s)) (data_st s) = Inr md" "map_of r ''V_bus'' = Some x" "agrees md x"
    and io: "open_tx c" "open_tx s" and calm: "calm s"
  shows "\<exists>d e g' cf sf. takes (p4_exchange L pr (str_bytes t)) sf c () d \<and> takes (loop_turn L lib) cf s False e
    \<and> tx d = tx c @ [cf] \<and> tx e = tx s @ sf # advice (node_label s) (coord s) \<and> open_tx d \<and> open_tx e
    \<and> joined sid si k g' d \<and> served sid si k g' e \<and> calm e \<and> length (audit_chain e) = Suc (length (audit_chain s))
    \<and> c_M_num d = c_M_num c + 1 \<and> backdrop d = backdrop c \<and> scene e = scene s
    \<and> data_st e = store_record (wall s (wall_pos s)) (node_label s) (dict_set ''trust_score'' (PFloat TRUST_START)
        (dict_set ''M_num'' (PInt (c_M_num c + 1)) (dict_set ''node'' (PStr (node_label s)) r))) (data_st s)"
proof -
  define raw where "raw = str_bytes t"
  define cf sf g' where "cf = pw (p4_dx L sid si k g c raw)" and "sf = pw (p4_res L sid si k g c raw s)"
    and "g' = chain_next sid si k g (p4_block sid si g c raw)"
  have raw: "sendable c raw" using ok t(3) by (simp add: sendable_def raw_def)
  note flat = p4_flat [OF L c raw]
  define c0 where "c0 = c\<lparr>rx := [sf]\<rparr>"
  have c0: "joined sid si k g c0" "sendable c0 raw" "live c0" "open_tx c0" "avail c0 = pw (p4_res L sid si k g c0 raw s) @ []"
    using c raw io pw_nonempty [OF flat(2), of s]
    by (simp_all add: c0_def sf_def joined_def sendable_def clock_ok_def live_def open_tx_def)
  from p4_client_side [OF L c0, of pr] obtain d where d: "p4_exchange L pr raw c0 = (Inr (), d)"
    "tx d = tx c @ [cf]" "avail d = []" "open_tx d" "joined sid si k g' d" "c_M_num d = c_M_num c + 1"
    by (auto simp: c0_def cf_def g'_def)
  have "takes (p4_exchange L pr raw) (avail c0) c0 () d"
    using takesI [OF prefixed_client(3) d(1), of "\<lambda>_. True"] c0(3) d(3) by (simp add: live_def)
  then have client: "takes (p4_exchange L pr raw) sf c () d" by (simp add: c0_def)
  have bd: "backdrop d = backdrop c"
    by (rule keepsD [OF keeps_backdrop(3) _ d(1)]) (simp add: c0_def backdrop_def)
  from p4_server_calm [OF L c ok t v st io(2) calm, of lib, folded raw_def, folded cf_def sf_def g'_def] obtain e where
    e: "handle_p4 L lib (PDict (p4_dx L sid si k g c raw)) s = (Inr (), e)"
    "tx e = tx s @ sf # advice (node_label s) (coord s)" "open_tx e" "calm e"
    "served sid si k g' e" "length (audit_chain e) = Suc (length (audit_chain s))" "scene e = scene s"
    "data_st e = store_record (wall s (wall_pos s)) (node_label s) (dict_set ''trust_score'' (PFloat TRUST_START)
        (dict_set ''M_num'' (PInt (c_M_num c + 1)) (dict_set ''node'' (PStr (node_label s)) r))) (data_st s)"
    by (auto simp: scene_def)
  have ty: "get_or ''type'' PNone (PDict (p4_dx L sid si k g c raw)) = Inr (PStr ''dx_msg'')"
    by (simp add: p4_dx_def)
  have "takes recv_msg cf s (PDict (p4_dx L sid si k g c raw)) s"
    using takes_recv [OF flat(1), of s] io(2) unfolding p4_view cf_def by (simp add: open_tx_def)
  then have server: "takes (loop_turn L lib) cf s False e"
    unfolding loop_turn_def
    by (rule takes_bnd_blind(1)) (intro blind_intro blind_p4 blind_p5, simp add: ty e(1) seq_Inr [where m = "handle_p4 L lib p" for p] del: get_or.simps)
  show ?thesis using client server d(2,4-6) e(2-8) bd unfolding raw_def by blast
qed

text \<open>The same exchange behind a setpoint that was left over.\<close>

lemma takes_pending:
  assumes "takes (p4_exchange L pr raw) f c () d" and "open_tx c" and "calm s"
    and "P = [] \<or> P = advice (node_label s) (coord s)"
  shows "takes (p4_exchange L pr raw) (concat P @ f) c () d"
proof (cases "get_setpoint (node_label s) (coord s)")
  case (Some sp)
  then have "is_double sp" using assms(3) by (simp add: calm_def)
  then show ?thesis
    using skip_pending [OF assms(1)] assms Some by (auto simp: advice_def open_tx_def)
qed (use assms in \<open>auto simp: advice_def\<close>)

section \<open>The data phase\<close>

lemma pc_seconds_eq: "pc_seconds s = (Inr (fl (of_int (ticks s (tick_pos s)) / 1000000000)), s\<lparr>tick_pos := Suc (tick_pos s)\<rparr>)"
  by (simp add: pc_seconds_def bnd_def [of perf_counter_ns] perf_counter_eq)

lemma timed_tail:
  assumes "clocks_ok c" and "clocks_ok s"
  shows "\<exists>n. bnd pc_seconds (\<lambda>t. bnd (lift (duration_us (fl (of_int (ticks c i) / 1000000000)) t)) (\<lambda>d. set_metrics (f d))) s
    = (Inr (), s\<lparr>tick_pos := Suc (tick_pos s), c_metrics := f n (c_metrics s)\<rparr>)"
  using duration_returns [of "ticks c i" "ticks s (tick_pos s)"] assms
  by (auto simp: clocks_ok_def bnd_def [of pc_seconds] pc_seconds_eq set_metrics_def)

text \<open>Both ends of a running session, with \<open>n\<close> readings to go.\<close>

definition linked :: "(nat \<Rightarrow> pyfloat) \<Rightarrow> nat \<Rightarrow> node_client \<Rightarrow> node_session \<Rightarrow> bool" where
  "linked gauss n c s \<longleftrightarrow> in_step c s \<and> open_tx c \<and> open_tx s \<and> calm s \<and> clocks_ok c
     \<and> 0 \<le> c_M_num c \<and> c_M_num c + int n < 2 ^ 32
     \<and> undisputed gauss [nat (c_M_num c)..<nat (c_M_num c) + n] (node_label s) (data_st s)"

definition progress :: "nat \<Rightarrow> node_client \<Rightarrow> node_session \<Rightarrow> node_client \<Rightarrow> node_session \<Rightarrow> bool" where
  \<comment> \<open>\<open>n\<close> exchanges are accounted for on both ends\<close>
  "progress n c s d e \<longleftrightarrow> rx_end d = rx_end c
     \<and> p4_done (c_metrics d) = p4_done (c_metrics c) + int n
     \<and> length (p4_latencies (c_metrics d)) = length (p4_latencies (c_metrics c)) + n
     \<and> pc_errors (c_metrics d) = pc_errors (c_metrics c)
     \<and> length (audit_chain e) = length (audit_chain s) + n"

lemma progress_refl: "progress 0 c s c s"
  by (simp add: progress_def)

lemma progress_trans: "progress a c s d e \<Longrightarrow> progress b d e d' e' \<Longrightarrow> progress (a + b) c s d' e'"
  by (simp add: progress_def)

text \<open>
  A delivery is a reading's index, its time in milliseconds and the time it was recorded at; it is
  timed when both were read off the clocks of the two ends.
\<close>

type_synonym delivery = "nat \<times> int \<times> rat"

definition deliver :: "string \<Rightarrow> (nat \<Rightarrow> pyfloat) \<Rightarrow> delivery \<Rightarrow> data_store \<Rightarrow> data_store" where
  "deliver lbl gauss = (\<lambda>(i, ms, now). store_record now lbl (stored_reading lbl gauss i ms))"

definition timed :: "(nat \<Rightarrow> rat) \<Rightarrow> (nat \<Rightarrow> rat) \<Rightarrow> delivery \<Rightarrow> bool" where
  "timed wc ws = (\<lambda>(i, ms, now). (\<exists>j. int_of_float (fmul (fl (wc j)) (Fin 1000)) = Inr ms) \<and> now \<in> range ws)"

lemma p4_turn_meets:
  assumes L: "aead_ok L" and link: "linked gauss (Suc n) c s" and i: "c_M_num c = int i"
    and P: "P = [] \<or> P = advice (node_label s) (coord s)"
  shows "\<exists>d e cf sf en. takes (p4_turn L lib pr gauss i) (concat P @ sf) c True d \<and> takes (loop_turn L lib') cf s False e
    \<and> tx d = tx c @ [cf] \<and> tx e = tx s @ sf # advice (node_label s) (coord s) \<and> linked gauss n d e \<and> progress 1 c s d e
    \<and> c_M_num d = c_M_num c + 1 \<and> wall d = wall c \<and> scene e = scene s
    \<and> fst en = i \<and> timed (wall c) (wall s) en \<and> data_st e = deliver (node_label s) gauss en (data_st s)"
proof -
  obtain sid si k g where st: "joined sid si k g c" "served sid si k g s"
    using link by (auto simp: linked_def in_step_iff)
  note l = link [unfolded linked_def]
  obtain ms t where ms: "int_of_float (fmul (fl (wall c (wall_pos c))) (Fin 1000)) = Inr ms"
    and r: "gen_reading gauss i c = (Inr (sensor_fields gauss i ms), c\<lparr>wall_pos := Suc (wall_pos c)\<rparr>)"
    and t: "dumps (PDict (sensor_fields gauss i ms)) = Inr t" "json_plain (PDict (sensor_fields gauss i ms))" "length t \<le> 5000"
    using reading_sendable [of c gauss i] l by blast
  define c1 where "c1 = c\<lparr>wall_pos := Suc (wall_pos c)\<rparr>"
  define c2 where "c2 = c1\<lparr>tick_pos := Suc (tick_pos c)\<rparr>"
  have clk: "clocks_ok c2" using l by (simp add: c2_def c1_def clocks_ok_def)
  have c2: "joined sid si k g c2" "clock_ok c2" "0 \<le> c_M_num c2" "c_M_num c2 + 1 < 2 ^ 32" "open_tx c2"
    using st(1) l clock_bound [OF clk] by (simp_all add: c2_def c1_def joined_def open_tx_def)
  have calm: "calm s" "open_tx s" using l by simp_all
  have "undisputed gauss [i..<i + Suc n] (node_label s) (data_st s)" "i \<in> set [i..<i + Suc n]"
    using l i by (simp_all del: upt_Suc)
  then obtain md v where md: "get_median_v_bus (Some (node_label s)) (data_st s) = Inr md"
    "map_of (sensor_fields gauss i ms) ''V_bus'' = Some v" "agrees md v"
    by (rule undisputedE) blast
  obtain d e g' cf sf where x0: "takes (p4_exchange L pr (str_bytes t)) sf c2 () d" and x: "takes (loop_turn L lib') cf s False e"
    "tx d = tx c @ [cf]" "tx e = tx s @ sf # advice (node_label s) (coord s)" "open_tx d" "open_tx e"
    "joined sid si k g' d" "served sid si k g' e" "calm e" "length (audit_chain e) = Suc (length (audit_chain s))"
    "c_M_num d = c_M_num c + 1" "backdrop d = backdrop c" "scene e = scene s"
    "data_st e = store_record (wall s (wall_pos s)) (node_label s) (dict_set ''trust_score'' (PFloat TRUST_START)
        (dict_set ''M_num'' (PInt (c_M_num c + 1)) (dict_set ''node'' (PStr (node_label s)) (sensor_fields gauss i ms)))) (data_st s)"
    using p4_meets [OF L c2(1-4) t st(2) md c2(5) calm(2,1), of pr lib'] by (auto simp: c2_def c1_def backdrop_def)
  note xc = takes_pending [OF x0 c2(5) calm(1) P]
  define en where "en = (i, ms, wall s (wall_pos s))"
  have en: "fst en = i" "timed (wall c) (wall s) en" "data_st e = deliver (node_label s) gauss en (data_st s)"
    using ms x(13) i by (auto simp: en_def timed_def deliver_def stored_reading_eq add.commute [of 1])
  have clkd: "clocks_ok d" using clk x(11) by (simp add: clocks_ok_def backdrop_def c2_def c1_def)
  define f :: "int \<Rightarrow> pc_metrics \<Rightarrow> pc_metrics" where "f = (\<lambda>n m. m\<lparr>p4_sum_us := p4_sum_us m + n, p4_done := p4_done m + 1,
    p4_latencies := p4_latencies m @ [n]\<rparr>)"
  obtain n' where n': "bnd pc_seconds (\<lambda>t1. bnd (lift (duration_us (fl (of_int (ticks c (tick_pos c)) / 1000000000)) t1))
      (\<lambda>d. set_metrics (f d))) d = (Inr (), d\<lparr>tick_pos := Suc (tick_pos d), c_metrics := f n' (c_metrics d)\<rparr>)"
    using timed_tail [of c d "tick_pos c" f] l clkd by blast
  define d' where "d' = d\<lparr>tick_pos := Suc (tick_pos d), c_metrics := f n' (c_metrics d)\<rparr>"
  have num: "nat (c_M_num d) = Suc i" and lbl: "node_label e = node_label s"
    using x(10,12) i by (simp_all add: scene_def)
  have "undisputed gauss [i..<i + Suc n] (node_label s) (data_st s)" using l i by (simp del: upt_Suc)
  then have und: "undisputed gauss [nat (c_M_num d)..<nat (c_M_num d) + n] (node_label e) (data_st e)"
    unfolding x(13) num lbl by (rule undisputed_record) auto
  have "takes (p4_turn L lib pr gauss i) (concat P @ sf) c True d'"
    unfolding p4_turn_def
  proof (rule takes_blind_bnd(1) [OF blind_initiator(7) r], rule takes_blind_bnd(1))
    show "rx_blind (lift (dumps (PDict (sensor_fields gauss i ms))))" by (rule blind_intro)
    show "lift (dumps (PDict (sensor_fields gauss i ms))) (c\<lparr>wall_pos := Suc (wall_pos c)\<rparr>) = (Inr t, c1)" by (simp add: t(1) c1_def del: dumps.simps)
    show "takes (bnd pc_seconds (\<lambda>t0. try_else
       (seq (p4_exchange L pr (str_bytes t))
        (bnd pc_seconds (\<lambda>t1. bnd (lift (duration_us t0 t1)) (\<lambda>d.
         set_metrics (\<lambda>m. m\<lparr>p4_sum_us := p4_sum_us m + d, p4_done := p4_done m + 1,
           p4_latencies := p4_latencies m @ [d]\<rparr>)))))
       (\<lambda>e. seq (pc_fail lib (''P4 #'' @ int_str (int i + 1) @ '': '') e) (ret False))
       (\<lambda>_. ret True))) (concat P @ sf) c1 True d'"
    proof (rule takes_blind_bnd(1))
      show "rx_blind pc_seconds" by (rule blind_intro)
      show "pc_seconds c1 = (Inr (fl (of_int (ticks c (tick_pos c)) / 1000000000)), c2)"
        by (simp add: pc_seconds_eq c2_def c1_def)
    qed (rule takes_bnd_blind(3) [where w = "()" and u = d'], rule takes_bnd_blind(2) [OF xc],
        (intro blind_intro | simp add: n' [unfolded f_def] d'_def f_def)+)
  qed
  moreover have "linked gauss n d' e"
    using x(1-12) clkd l und unfolding linked_def in_step_iff
    by (auto simp: d'_def joined_def open_tx_def clocks_ok_def simp del: upt_Suc)
  moreover have "progress 1 c s d' e"
    using x(9,11) by (simp add: progress_def d'_def f_def backdrop_def)
  moreover have "wall d' = wall c" using x(11) by (simp add: d'_def backdrop_def)
  ultimately show ?thesis
    using x(1-3,10,12) en by (intro exI [of _ d'] exI [of _ e] exI [of _ cf] exI [of _ sf] exI [of _ en]) (simp add: d'_def)
qed

text \<open>The responder's loop goes on after a turn that does not end it, and stops after one that does.\<close>

lemma takes_loop_go:
  assumes "takes (loop_turn L lib) f s False u" and "session_active s" and "takes (run_data_loop L lib) g u v t"
  shows "takes (run_data_loop L lib) (f @ g) s v t"
  unfolding takes_def
proof (intro allI impI, elim conjE)
  fix x q assume x: "concat x = (f @ g) @ q" "[] \<notin> set x"
  then obtain y where y: "loop_turn L lib (s\<lparr>rx := x\<rparr>) = (Inr False, u\<lparr>rx := y\<rparr>)" "concat y = g @ q" "[] \<notin> set y"
    using assms(1) unfolding takes_def by (metis append.assoc)
  then show "\<exists>y. run_data_loop L lib (s\<lparr>rx := x\<rparr>) = (Inr v, t\<lparr>rx := y\<rparr>) \<and> concat y = q \<and> [] \<notin> set y"
    using assms(2,3) by (simp add: run_data_loop.simps [of L lib "s\<lparr>rx := x\<rparr>"] takes_def)
qed

lemma takes_loop_stop:
  assumes "takes (loop_turn L lib) f s True t" and "session_active s"
  shows "takes (run_data_loop L lib) f s () t"
  using assms unfolding takes_def by (fastforce simp: run_data_loop.simps [of L lib "s\<lparr>rx := _\<rparr>"])

lemma data_phase:
  assumes "aead_ok L" and "linked gauss n c s" and "c_M_num c = int k" and "P = [] \<or> P = advice (node_label s) (coord s)"
  shows "\<exists>d e cs ss f es. takes (p4_loop L lib pr gauss [k..<k + n]) f c () d
    \<and> concat P @ concat ss = f @ concat (if n = 0 then P else advice (node_label s) (coord s))
    \<and> (\<forall>g v t. takes (run_data_loop L lib') g e v t \<longrightarrow> takes (run_data_loop L lib') (concat cs @ g) s v t)
    \<and> tx d = tx c @ cs \<and> tx e = tx s @ ss \<and> linked gauss 0 d e \<and> progress n c s d e
    \<and> map fst es = [k..<k + n] \<and> list_all (timed (wall c) (wall s)) es
    \<and> scene e = scene s \<and> data_st e = fold (deliver (node_label s) gauss) es (data_st s)"
  using assms(2-4)
proof (induction n arbitrary: k c s P)
  case 0
  then show ?case using progress_refl
    by (intro exI [of _ c] exI [of _ s] exI [of _ "[]"]) (auto simp: takes_def)
next
  case (Suc n)
  let ?A = "advice (node_label s) (coord s)"
  from p4_turn_meets [OF assms(1) Suc.prems, of lib pr lib'] obtain d e cf sf en where
    x: "takes (p4_turn L lib pr gauss k) (concat P @ sf) c True d" "takes (loop_turn L lib') cf s False e"
    "tx d = tx c @ [cf]" "tx e = tx s @ sf # ?A" "linked gauss n d e" "progress 1 c s d e"
    "c_M_num d = c_M_num c + 1" "wall d = wall c" "scene e = scene s"
    "fst en = k" "timed (wall c) (wall s) en" "data_st e = deliver (node_label s) gauss en (data_st s)" by blast
  have same: "node_label e = node_label s" "coord e = coord s" "wall e = wall s" using x(9) by (simp_all add: scene_def)
  have "c_M_num d = int (Suc k)" "?A = [] \<or> ?A = advice (node_label e) (coord e)"
    using x(7) Suc.prems(2) by (simp_all add: same)
  from Suc.IH [OF x(5) this] obtain d' e' cs ss f es where
    y: "takes (p4_loop L lib pr gauss [Suc k..<Suc k + n]) f d () d'" "concat ?A @ concat ss = f @ concat ?A"
    "\<And>g v t. takes (run_data_loop L lib') g e' v t \<Longrightarrow> takes (run_data_loop L lib') (concat cs @ g) e v t"
    "tx d' = tx d @ cs" "tx e' = tx e @ ss" "linked gauss 0 d' e'" "progress n d e d' e'"
    "map fst es = [Suc k..<Suc k + n]" "list_all (timed (wall c) (wall s)) es" "scene e' = scene e"
    "data_st e' = fold (deliver (node_label s) gauss) es (data_st e)"
    unfolding same x(8) if_cancel by blast
  define ks where "ks = [Suc k..<Suc k + n]"
  have ks: "[k..<k + Suc n] = k # ks" by (simp add: upt_rec [of k] ks_def)
  have "takes (p4_loop L lib pr gauss [k..<k + Suc n]) ((concat P @ sf) @ f) c () d'"
    unfolding ks using takes_bnd [of "p4_turn L lib pr gauss k" "concat P @ sf" c True d
        "\<lambda>ok. if ok then p4_loop L lib pr gauss ks else ret ()" f "()" d'] x(1) y(1) [folded ks_def] by simp
  moreover have "concat P @ concat ((sf # ?A) @ ss) = ((concat P @ sf) @ f) @ concat ?A" using y(2) by simp
  moreover have "takes (run_data_loop L lib') (concat (cf # cs) @ g) s v t" if "takes (run_data_loop L lib') g e' v t" for g v t
    using takes_loop_go [OF x(2) _ y(3) [OF that]] Suc.prems(1) by (simp add: linked_def calm_def)
  moreover have "progress (Suc n) c s d' e'" using progress_trans [OF x(6) y(7)] by simp
  moreover have "map fst (en # es) = [k..<k + Suc n]" unfolding ks using x(10) y(8) [folded ks_def] by simp
  moreover have "list_all (timed (wall c) (wall s)) (en # es)" using x(11) y(9) by simp
  moreover have "scene e' = scene s" using y(10) x(9) by simp
  moreover have "data_st e' = fold (deliver (node_label s) gauss) (en # es) (data_st s)" using y(11) x(12) by simp
  moreover have "tx d' = tx c @ cf # cs" "tx e' = tx s @ (sf # ?A) @ ss" using x(3,4) y(4,5) by simp_all
  ultimately show ?case
    using y(6) by (intro exI [of _ d'] exI [of _ e'] exI [of _ "cf # cs"] exI [of _ "(sf # ?A) @ ss"]
      exI [of _ "(concat P @ sf) @ f"] exI [of _ "en # es"]) (simp del: upt_Suc add_Suc_right)
qed

section \<open>The handshake\<close>

definition aside :: "node_session \<Rightarrow> data_store \<times> ems \<times> chain_entry list \<times> bytes \<times> (nat \<Rightarrow> rat)" where
  "aside s = (data_st s, coord s, audit_chain s, server_id s, wall s)"

lemma keeps_aside: "keeps (\<lambda>s. aside s = a) (run_p2 lib m)" "keeps (\<lambda>s. aside s = a \<and> node_label s = l) (run_p3 L lib m)"
  unfolding run_p2_def p2_body_def run_p3_def p3_body_def p3_reply_def p3_finish_def phase_failed_def Let_def split_def
  by (intro keeps_intro keeps_modify; simp add: add_error_def aside_def)+

lemma keeps_number: "keeps (\<lambda>s. c_M_num s = n) (client_p2 pr salt)" "keeps (\<lambda>s. c_M_num s = n) (client_p3 L pr)"
  unfolding client_p2_def client_p3_def p2_initiator_compute_def p2_finalize_def
    p3_initiator_prepare_def p3_initiator_finalize_def pc_encrypt_gcm_def not_error_def ts_bytes_def Let_def
  by (intro keeps_intro keeps_modify; simp)+

lemma keeps_open_p2: "keeps open_tx (run_p2 lib m)"
proof -
  have send: "keeps open_tx (send_msg p)" for p
    unfolding send_msg_def by (intro keeps_bnd keeps_lift) (rule keepsI, auto simp: sock_sendall_def open_tx_def)
  show ?thesis
    unfolding run_p2_def p2_body_def phase_failed_def send_error_def Let_def
    by (intro keeps_bnd keeps_seq keeps_try_except send keeps_if keeps_option keeps_ret keeps_raise keeps_gets keeps_lift
        keeps_perf_counter_ns keeps_modify)
      (simp_all add: add_error_def open_tx_def)
qed

lemma p2_meets:
  assumes reg: "registered salt c s" and io: "open_tx c" "open_tx s"
  shows "\<exists>d e m cf sf k g. takes (client_p2 pr salt) sf c () d
    \<and> takes recv_msg cf s m s \<and> get_or ''type'' PNone m = Inr (PStr ''rot_hello'') \<and> run_p2 lib m s = (Inr True, e)
    \<and> tx d = tx c @ [cf] \<and> tx e = tx s @ [sf] \<and> open_tx d \<and> open_tx e
    \<and> after_p2 d e k g \<and> backdrop d = backdrop c \<and> c_M_num d = c_M_num c
    \<and> aside e = aside s \<and> node_label e = client_label c s"
proof -
  have len: "length (c_ID c) \<le> 1000" "length (server_id s) \<le> 1000" using reg by (simp_all add: registered_def)
  define cf sf where "cf = pw (honest_hello salt c)" and "sf = pw (honest_ack salt s)"
  define c0 where "c0 = c\<lparr>rx := [sf]\<rparr>"
  have c0: "length (c_ID c0) \<le> 1000" "live c0" "open_tx c0" "avail c0 = pw (honest_ack salt s) @ []"
    using len io pw_nonempty [OF honest_ack_flat [OF len(2)], of salt]
    by (simp_all add: c0_def sf_def live_def open_tx_def)
  from p2_client_side [OF c0(1) len(2) c0(2-4)] obtain d where d: "client_p2 pr salt c0 = (Inr (), d)"
    "tx d = tx c @ [cf]" "c_ShS_AB d = Some (p2_shared salt c s)"
    "c_PRV_bl d = Some (p2_genesis salt c s)" "c_peer_id d = PBytes (server_id s)" "c_ID d = c_ID c"
    "avail d = []" "open_tx d"
    by (auto simp: c0_def cf_def p2_shared_def p2_genesis_def)
  have "takes (client_p2 pr salt) (avail c0) c0 () d"
    using takesI [OF prefixed_client(1) d(1), of "\<lambda>_. True"] c0(2) d(7) by (simp add: live_def)
  then have client: "takes (client_p2 pr salt) sf c () d" by (simp add: c0_def)
  define m where "m = view_payload (honest_hello salt c)"
  from p2_server_side [OF reg io(2), of lib] obtain e where e: "run_p2 lib m s = (Inr True, e)"
    "tx e = tx s @ [sf]" "ShS_AB e = Some (p2_shared salt c s)" "PRV_bl e = Some (p2_genesis salt c s)"
    "peer_id e = Some (c_ID c)" "node_label e = client_label c s"
    by (auto simp: m_def sf_def)
  have as: "aside e = aside s" by (rule keepsD [OF keeps_aside(1) refl e(1)])
  have oe: "open_tx e" by (rule keepsD [OF keeps_open_p2 io(2) e(1)])
  have "takes recv_msg cf s m s"
    using takes_recv [OF honest_hello_flat [OF len(1)], of s] io(2) by (simp add: cf_def m_def open_tx_def)
  moreover have "get_or ''type'' PNone m = Inr (PStr ''rot_hello'')" by (simp add: m_def honest_hello_view)
  moreover have "after_p2 d e (p2_shared salt c s) (p2_genesis salt c s)"
    using d e as len by (simp add: after_p2_def aside_def)
  moreover have "backdrop d = backdrop c" "c_M_num d = c_M_num c"
    by (rule keepsD [OF keeps_backdrop(1) _ d(1)], simp add: c0_def backdrop_def,
        rule keepsD [OF keeps_number(1) _ d(1)], simp add: c0_def)
  ultimately show ?thesis using client d(2,8) e(1,2,6) as oe by blast
qed

lemma p3_meets:
  assumes L: "aead_ok L" and st: "after_p2 c s k g" and clk: "clocks_ok c" and io: "open_tx c" "open_tx s"
  shows "\<exists>d e m cf cf' sf sf'. takes (client_p3 L pr) (sf @ sf') c () d
    \<and> takes recv_msg cf s m s \<and> get_or ''type'' PNone m = Inr (PStr ''ses_init'') \<and> takes (run_p3 L lib m) cf' s True e
    \<and> tx d = tx c @ [cf, cf'] \<and> tx e = tx s @ [sf, sf'] \<and> open_tx d \<and> open_tx e
    \<and> in_step d e \<and> session_active e \<and> trust_score e = TRUST_START
    \<and> backdrop d = backdrop c \<and> c_M_num d = c_M_num c \<and> aside e = aside s \<and> node_label e = node_label s"
proof -
  have id: "length (c_ID c) \<le> 1000" and d: "c_peer_id c = PBytes (server_id s)" "length (server_id s) \<le> 1000"
    using st by (simp_all add: after_p2_def)
  note flat = p3_flat [OF L id]
  define cf cf' sf sf' where "cf = pw (p3_init L c s k g)" and "cf' = pw (p3_conf_msg L c s k)"
    and "sf = pw (p3_reply_msg L c s k g)" and "sf' = pw (p3_ack_msg s)"
  have ne: "sf \<noteq> []" "sf' \<noteq> []" "cf' \<noteq> []"
    unfolding sf_def sf'_def cf'_def by (rule pw_nonempty, rule flat)+
  define c0 where "c0 = c\<lparr>rx := [sf, sf']\<rparr>"
  have c0: "after_p2 c0 s k g" "clock_ok c0" "live c0" "open_tx c0"
    "avail c0 = pw (p3_reply_msg L c0 s k g) @ pw (p3_ack_msg s) @ []"
    using st clock_bound [OF clk] io ne
    by (simp_all add: c0_def sf_def sf'_def after_p2_def clock_ok_def live_def open_tx_def)
  from p3_client_side [OF L c0, of pr] obtain d where d: "client_p3 L pr c0 = (Inr (), d)"
    "tx d = tx c @ [cf, cf']" "avail d = []" "open_tx d" "c_SES_id d = Some (draw s 0 16)"
    "c_K_AB_enc d = Some (p3_key s k)" "c_PRV_bl d = Some (h_sha256 (g @ draw s 0 16 @ p3_pre c s k g))"
    "c_peer_id d = c_peer_id c" "c_ID d = c_ID c"
    by (auto simp: c0_def cf_def cf'_def)
  have "takes (client_p3 L pr) (avail c0) c0 () d"
    using takesI [OF prefixed_client(2) d(1), of "\<lambda>_. True"] c0(3) d(3) by (simp add: live_def)
  then have client: "takes (client_p3 L pr) (sf @ sf') c () d" by (simp add: c0_def)
  define m where "m = PDict (p3_init L c s k g)"
  define s0 where "s0 = s\<lparr>rx := [cf']\<rparr>"
  have s0: "after_p2 c s0 k g" "live s0" "open_tx s0" "avail s0 = pw (p3_conf_msg L c s0 k) @ []"
    using st io ne by (simp_all add: s0_def cf'_def after_p2_def live_def open_tx_def)
  from p3_server_side [OF L s0, of lib] obtain e where e: "run_p3 L lib m s0 = (Inr True, e)"
    "tx e = tx s @ [sf, sf']" "avail e = []" "open_tx e" "SES_id e = Some (draw s 0 16)" "SES_key e = Some (p3_key s k)"
    "PRV_bl e = Some (h_sha256 (g @ draw s 0 16 @ p3_pre c s k g))"
    "server_id e = server_id s" "session_active e" "trust_score e = TRUST_START"
    by (auto simp: s0_def m_def sf_def sf'_def)
  have "takes (run_p3 L lib m) (avail s0) s0 True e"
    using takesI [OF prefixed_p3 e(1)] s0(2) e(3) by (simp add: live_def)
  then have server: "takes (run_p3 L lib m) cf' s True e" by (simp add: s0_def)
  have "takes recv_msg cf s m s"
    using takes_recv [OF flat(1), of s] io(2) unfolding p3_view m_def cf_def by (simp add: open_tx_def)
  moreover have "get_or ''type'' PNone m = Inr (PStr ''ses_init'')" by (simp add: m_def p3_init_def)
  moreover have "in_step d e" using d e st by (simp add: in_step_def after_p2_def)
  moreover have "backdrop d = backdrop c" "c_M_num d = c_M_num c"
    by (rule keepsD [OF keeps_backdrop(2) _ d(1)], simp add: c0_def backdrop_def,
        rule keepsD [OF keeps_number(2) _ d(1)], simp add: c0_def)
  moreover have "aside e = aside s \<and> node_label e = node_label s"
    by (rule keepsD [OF keeps_aside(2) _ e(1)]) (simp add: s0_def aside_def)
  ultimately show ?thesis using client server d(2,4) e(2,4,9,10) by blast
qed

text \<open>A timed phase of the client takes what its body takes, and succeeds.\<close>

lemma timed_phase_takes:
  assumes "takes body f (c\<lparr>tick_pos := Suc (tick_pos c)\<rparr>) () d" and "clocks_ok c" and "clocks_ok d"
  shows "\<exists>n. takes (timed_phase lib tag body rec) f c True
    (d\<lparr>tick_pos := Suc (tick_pos d), c_metrics := rec n (c_metrics d)\<rparr>)"
proof -
  let ?t0 = "fl (of_int (ticks c (tick_pos c)) / 1000000000)"
  obtain n where n: "bnd pc_seconds (\<lambda>t. bnd (lift (duration_us ?t0 t)) (\<lambda>d. set_metrics (rec d))) d
    = (Inr (), d\<lparr>tick_pos := Suc (tick_pos d), c_metrics := rec n (c_metrics d)\<rparr>)"
    using timed_tail [OF assms(2,3)] by blast
  define d' where "d' = d\<lparr>tick_pos := Suc (tick_pos d), c_metrics := rec n (c_metrics d)\<rparr>"
  have "takes (timed_phase lib tag body rec) f c True d'"
    unfolding timed_phase_def
  proof (rule takes_blind_bnd(1))
    show "rx_blind pc_seconds" by (rule blind_intro)
    show "pc_seconds c = (Inr ?t0, c\<lparr>tick_pos := Suc (tick_pos c)\<rparr>)" by (rule pc_seconds_eq)
  qed (rule takes_bnd_blind(3) [where w = "()" and u = d'], rule takes_bnd_blind(2) [OF assms(1)],
      (intro blind_intro | simp add: n d'_def)+)
  then show ?thesis unfolding d'_def by blast
qed

end
