(* ===== verification/Whole_Session.thy ===== *)
theory Whole_Session
  imports Pc_Dialogue
begin

text \<open>
  A whole session between \<open>run_client\<close> of \<open>pc_client.py\<close> and \<open>NodeSession.run\<close> of
  \<open>auth_service.py\<close>, each end receiving exactly what the other one sends.
\<close>

section \<open>The logout\<close>

lemma p5_flat:
  assumes "aead_ok L" and "joined sid si k g c"
  shows "flat_payload (p5_req L sid si k c)"
  using assms(2)
  by (simp add: gcm_out_nonce(1) [OF assms(1)] flat_payload_def p5_req_def p5_plain_def joined_def
      del: safe_str_simps)

lemma pc_recv_end:
  assumes "live s" and "rx s = []" and "rx_end s = EndOfStream"
  shows "pc_recv_msg s = (Inl (Raised ConnectionKind ''Connection closed''), s)"
  using recv_loop_stream [OF assms(1), of "[]" 4 "''Connection closed''"] assms(2,3)
  by (simp add: pc_recv_msg_def bnd_Inl)

text \<open>
  The client waits for the answer to its logout with the next message of the stream: there is none
  and the connection has ended, or the last setpoint is still there, which it takes for the answer
  and passes over.
\<close>

lemma pc_recv_rest:
  assumes io: "\<not> sock_closed c" "rx_end c = EndOfStream" and z: "concat z = P" "[] \<notin> set z"
    and P: "P = [] \<or> (\<exists>sp. is_double sp \<and> P = pw (setpoint_msg sp))"
  shows "bnd pc_recv_msg (\<lambda>m. bnd (lift (get_or ''type'' PNone m)) (\<lambda>ty.
      if ty = PStr ''logout_res'' then p5_logout_finalize L m else ret ())) (c\<lparr>rx := z\<rparr>)
    = (if P = [] then Inl (Raised ConnectionKind ''Connection closed'') else Inr (), c\<lparr>rx := []\<rparr>)"
proof (cases "P = []")
  case True
  then have "z = []" using z by (cases z) auto
  then have "live (c\<lparr>rx := z\<rparr>)" "rx (c\<lparr>rx := z\<rparr>) = []" "rx_end (c\<lparr>rx := z\<rparr>) = EndOfStream"
    using io by (simp_all add: live_def)
  from pc_recv_end [OF this] show ?thesis using True \<open>z = []\<close> by (simp add: bnd_Inl)
next
  case False
  then obtain sp where sp: "is_double sp" "P = pw (setpoint_msg sp)" using P by blast
  then have "live (c\<lparr>rx := z\<rparr>)" "avail (c\<lparr>rx := z\<rparr>) = pw (setpoint_msg sp) @ []"
    using io z by (simp_all add: live_def)
  then obtain y where
    r: "pc_recv_msg (c\<lparr>rx := z\<rparr>) = (Inr (view_payload (setpoint_msg sp)), c\<lparr>rx := z\<rparr>\<lparr>rx := y\<rparr>)"
    and y: "concat y = []" "[] \<notin> set y"
    by (rule recv_light [OF setpoint_light [OF sp(1)]])
  have "y = []" using y by (cases y) auto
  then have "pc_recv_msg (c\<lparr>rx := z\<rparr>) = (Inr (PDict (setpoint_msg sp)), c\<lparr>rx := []\<rparr>)"
    using r unfolding setpoint_view by simp
  then show ?thesis
    using False by (simp add: bnd_Inr [where m = pc_recv_msg] setpoint_type del: get_or.simps)
qed

definition logout_errors :: "bytes \<Rightarrow> string list" where
  "logout_errors P = (if P = [] then [''P5: Connection closed''] else [])"

lemma logout_client:
  assumes L: "aead_ok L" and c: "joined sid si k g c" and clk: "clocks_ok c" and io: "open_tx c" "rx_end c = EndOfStream"
    and P: "P = [] \<or> (\<exists>sp. is_double sp \<and> P = pw (setpoint_msg sp))"
  shows "\<exists>d. (\<forall>z. concat z = P \<and> [] \<notin> set z \<longrightarrow> client_logout L lib (c\<lparr>rx := z\<rparr>) = (Inr (), d))
    \<and> tx d = tx c @ [pw (p5_req L sid si k c)] \<and> c_PRV_bl d = Some g
    \<and> p4_done (c_metrics d) = p4_done (c_metrics c) \<and> p4_latencies (c_metrics d) = p4_latencies (c_metrics c)
    \<and> pc_errors (c_metrics d) = pc_errors (c_metrics c) @ logout_errors P"
proof -
  define c0 where "c0 = c\<lparr>tick_pos := Suc (tick_pos c)\<rparr>"
  have c0: "joined sid si k g c0" "clock_ok c0"
    using c clock_bound [OF clk] by (simp_all add: c0_def joined_def clock_ok_def)
  have req: "p5_req L sid si k c0 = p5_req L sid si k c"
    by (simp add: p5_req_def p5_plain_def c0_def clock_bytes_def draw_def)
  obtain d where d: "p5_logout_initiate L c0 = (Inr (p5_req L sid si k c), d)" "tx d = tx c"
    "c_metrics d = c_metrics c" "c_PRV_bl d = Some g" "open_tx d" "rx_end d = EndOfStream"
    using p5_client_side [OF L c0] io c unfolding req by (auto simp: c0_def open_tx_def joined_def)
  have "backdrop d = backdrop c" by (rule keepsD [OF keeps_backdrop(4) _ d(1)]) (simp add: c0_def backdrop_def)
  then have clkd: "clocks_ok d" using clk by (simp add: clocks_ok_def backdrop_def)
  define d1 where "d1 = d\<lparr>tx := tx c @ [pw (p5_req L sid si k c)]\<rparr>"
  have d1: "\<not> sock_closed d1" "rx_end d1 = EndOfStream" using d(5,6) by (simp_all add: d1_def open_tx_def)
  let ?t0 = "fl (of_int (ticks c (tick_pos c)) / 1000000000)"
  define f :: "int \<Rightarrow> pc_metrics \<Rightarrow> pc_metrics" where "f = (\<lambda>n m. m\<lparr>p5_duration_us := n\<rparr>)"
  have "clocks_ok (d1\<lparr>rx := []\<rparr>)" using clkd by (simp add: d1_def clocks_ok_def)
  from timed_tail [OF clk this, of "tick_pos c" f] obtain n where
    n: "bnd pc_seconds (\<lambda>t. bnd (lift (duration_us ?t0 t)) (\<lambda>d. set_metrics (f d))) (d1\<lparr>rx := []\<rparr>)
      = (Inr (), d1\<lparr>rx := [], tick_pos := Suc (tick_pos d1), c_metrics := f n (c_metrics d1)\<rparr>)" by auto
  define e where "e = (if P = [] then d1\<lparr>rx := [], c_metrics := (c_metrics d1)
      \<lparr>pc_errors := pc_errors (c_metrics d1) @ [''P5: Connection closed'']\<rparr>\<rparr>
    else d1\<lparr>rx := [], tick_pos := Suc (tick_pos d1), c_metrics := f n (c_metrics d1)\<rparr>)"
  have "client_logout L lib (c\<lparr>rx := z\<rparr>) = (Inr (), e)" if z: "concat z = P" "[] \<notin> set z" for z
  proof -
    have init: "p5_logout_initiate L (c0\<lparr>rx := z\<rparr>) = (Inr (p5_req L sid si k c), d\<lparr>rx := z\<rparr>)"
      by (rule rx_blindD [OF blind_initiator(8) d(1)])
    have send: "pc_send_msg (p5_req L sid si k c) (d\<lparr>rx := z\<rparr>) = (Inr (), d1\<lparr>rx := z\<rparr>)"
      using pc_send_flat [OF p5_flat [OF L c], of "d\<lparr>rx := z\<rparr>"] d(2,5) by (simp add: d1_def open_tx_def)
    have p5: "client_p5 L (c0\<lparr>rx := z\<rparr>)
        = (if P = [] then Inl (Raised ConnectionKind ''Connection closed'') else Inr (), d1\<lparr>rx := []\<rparr>)"
      using pc_recv_rest [OF d1 z P, of L] init send
      by (simp only: client_p5_def bnd_Inr [where m = "p5_logout_initiate L", OF init] seq_Inr [where m = "pc_send_msg p" for p, OF send])
    have start: "pc_seconds (c\<lparr>rx := z\<rparr>) = (Inr ?t0, c0\<lparr>rx := z\<rparr>)" by (simp add: pc_seconds_eq c0_def)
    show ?thesis
    proof (cases "P = []")
      case True
      then show ?thesis
        using p5 by (simp add: client_logout_def bnd_Inr [where m = pc_seconds, OF start] try_except_def seq_Inl pc_fail_def is_exception_def
            set_metrics_def e_def)
    next
      case False
      then show ?thesis
        using p5 n by (simp add: client_logout_def bnd_Inr [where m = pc_seconds, OF start] try_except_def
            seq_Inr [where m = "client_p5 L"] e_def f_def)
    qed
  qed
  then show ?thesis
    using d(3,4) by (intro exI [of _ e]) (simp add: e_def d1_def f_def logout_errors_def)
qed

lemma logout_server:
  assumes L: "aead_ok L" and c: "joined sid si k g c" and st: "served sid si k g s" and io: "open_tx s"
  shows "\<exists>t. takes (loop_turn L lib) (pw (p5_req L sid si k c)) s True t \<and> tx t = tx s \<and> \<not> session_active t
    \<and> PRV_bl t = Some g \<and> audit_chain t = audit_chain s \<and> trust_score t = trust_score s \<and> data_st t = data_st s"
proof -
  obtain t where t: "handle_p5 L lib (PDict (p5_req L sid si k c)) s = (Inr (), t)" "tx t = tx s" "\<not> session_active t"
    "PRV_bl t = Some g" "audit_chain t = audit_chain s" "trust_score t = trust_score s" "data_st t = data_st s"
    using p5_server_side [OF L c st, of lib] st unfolding served_def by auto
  have view: "view_payload (p5_req L sid si k c) = PDict (p5_req L sid si k c)"
    by (rule view_clean) (simp add: clean_payload_def p5_req_def BYTES_FIELDS_def)
  have ty: "get_or ''type'' PNone (PDict (p5_req L sid si k c)) = Inr (PStr ''logout_req'')"
    by (simp add: p5_req_def)
  have "takes recv_msg (pw (p5_req L sid si k c)) s (PDict (p5_req L sid si k c)) s"
    using takes_recv [OF p5_flat [OF L c], of s] io unfolding view by (simp add: open_tx_def)
  then have "takes (loop_turn L lib) (pw (p5_req L sid si k c)) s True t"
    unfolding loop_turn_def
    by (rule takes_bnd_blind(1)) (intro blind_intro blind_p4 blind_p5,
      simp add: ty t(1) seq_Inr [where m = "handle_p5 L lib p" for p] del: get_or.simps)
  then show ?thesis using t(2-7) by blast
qed

section \<open>The session\<close>

lemma server_run_takes:
  assumes hello: "takes recv_msg f1 s m s" "get_or ''type'' PNone m = Inr (PStr ''rot_hello'')" "run_p2 lib m s = (Inr True, u)"
    and init: "takes recv_msg f2 u m' u" "get_or ''type'' PNone m' = Inr (PStr ''ses_init'')" "takes (run_p3 L lib m') f3 u True v"
    and data: "takes (run_data_loop L lib) f4 v () t"
  shows "takes (run_session L lib) (f1 @ f2 @ f3 @ f4) s () t"
proof -
  have "takes (run_body L lib) (f1 @ f2 @ f3 @ f4) s () t"
    unfolding run_body_def
    by (rule takes_bnd [OF hello(1)], rule takes_blind_bnd(1) [where w = "PStr ''rot_hello''" and u = s])
      (simp_all add: hello(2) blind_intro del: get_or.simps,
       rule takes_blind_bnd(1) [OF blind_p2 hello(3)], simp,
       rule takes_bnd [OF init(1)], rule takes_blind_bnd(1) [where w = "PStr ''ses_init''" and u = u],
       simp_all add: init(2) blind_intro del: get_or.simps,
       rule takes_bnd [OF init(3)], simp add: data)
  then show ?thesis unfolding run_session_def by (rule takes_try)
qed

text \<open>The two phases of the handshake, timed as the client times them.\<close>

lemma p2_timed:
  assumes reg: "registered salt c s" and io: "open_tx c" "open_tx s" and clk: "clocks_ok c"
  shows "\<exists>d e m cf sf k g.
      takes (timed_phase lib ''P2: '' (client_p2 pr salt) (\<lambda>d m. m\<lparr>p2_duration_us := d\<rparr>)) sf c True d
    \<and> takes recv_msg cf s m s \<and> get_or ''type'' PNone m = Inr (PStr ''rot_hello'') \<and> run_p2 lib' m s = (Inr True, e)
    \<and> tx d = tx c @ [cf] \<and> tx e = tx s @ [sf] \<and> open_tx d \<and> open_tx e \<and> after_p2 d e k g
    \<and> clocks_ok d \<and> wall d = wall c \<and> c_M_num d = c_M_num c \<and> progress 0 c s d e
    \<and> aside e = aside s \<and> node_label e = client_label c s"
proof -
  define c0 where "c0 = c\<lparr>tick_pos := Suc (tick_pos c)\<rparr>"
  have c0: "registered salt c0 s" "open_tx c0" "client_label c0 s = client_label c s" "backdrop c0 = backdrop c"
    "c_M_num c0 = c_M_num c" "tx c0 = tx c"
    using reg io(1) by (simp_all add: c0_def registered_def open_tx_def client_label_def backdrop_def cong: option.case_cong)
  from p2_meets [OF c0(1,2) io(2), of pr lib'] obtain d e m cf sf k g where
    x: "takes (client_p2 pr salt) sf c0 () d" "takes recv_msg cf s m s"
      "get_or ''type'' PNone m = Inr (PStr ''rot_hello'')" "run_p2 lib' m s = (Inr True, e)"
      "tx d = tx c @ [cf]" "tx e = tx s @ [sf]" "open_tx d" "open_tx e" "after_p2 d e k g"
      "backdrop d = backdrop c" "c_M_num d = c_M_num c" "aside e = aside s" "node_label e = client_label c s"
    unfolding c0(3-6) by blast
  have clkd: "clocks_ok d" using clk x(10) by (simp add: clocks_ok_def backdrop_def)
  obtain n where t: "takes (timed_phase lib ''P2: '' (client_p2 pr salt) (\<lambda>d m. m\<lparr>p2_duration_us := d\<rparr>)) sf c True
      (d\<lparr>tick_pos := Suc (tick_pos d), c_metrics := (c_metrics d)\<lparr>p2_duration_us := n\<rparr>\<rparr>)"
    using timed_phase_takes [OF x(1) [unfolded c0_def] clk clkd] by blast
  define d' where "d' = d\<lparr>tick_pos := Suc (tick_pos d), c_metrics := (c_metrics d)\<lparr>p2_duration_us := n\<rparr>\<rparr>"
  have "tx d' = tx c @ [cf]" "open_tx d'" "after_p2 d' e k g" "clocks_ok d'" "wall d' = wall c" "c_M_num d' = c_M_num c" "progress 0 c s d' e"
    using x clkd
    by (simp_all add: d'_def open_tx_def after_p2_def clocks_ok_def progress_def backdrop_def aside_def)
  then show ?thesis using t [folded d'_def] x(2-4,6,8,12,13) by blast
qed

lemma p3_timed:
  assumes L: "aead_ok L" and st: "after_p2 c s k g" and clk: "clocks_ok c" and io: "open_tx c" "open_tx s"
  shows "\<exists>d e m cf cf' sf sf'.
      takes (timed_phase lib ''P3: '' (client_p3 L pr) (\<lambda>d m. m\<lparr>p3_duration_us := d\<rparr>)) (sf @ sf') c True d
    \<and> takes recv_msg cf s m s \<and> get_or ''type'' PNone m = Inr (PStr ''ses_init'') \<and> takes (run_p3 L lib' m) cf' s True e
    \<and> tx d = tx c @ [cf, cf'] \<and> tx e = tx s @ [sf, sf'] \<and> open_tx d \<and> open_tx e
    \<and> in_step d e \<and> session_active e \<and> trust_score e = TRUST_START
    \<and> clocks_ok d \<and> wall d = wall c \<and> c_M_num d = c_M_num c \<and> progress 0 c s d e \<and> aside e = aside s \<and> node_label e = node_label s"
proof -
  define c0 where "c0 = c\<lparr>tick_pos := Suc (tick_pos c)\<rparr>"
  have c0: "after_p2 c0 s k g" "clocks_ok c0" "open_tx c0" "backdrop c0 = backdrop c" "c_M_num c0 = c_M_num c" "tx c0 = tx c"
    using st clk io(1) by (simp_all add: c0_def after_p2_def clocks_ok_def open_tx_def backdrop_def)
  from p3_meets [OF L c0(1-3) io(2), of pr lib'] obtain d e m cf cf' sf sf' where
    x: "takes (client_p3 L pr) (sf @ sf') c0 () d" "takes recv_msg cf s m s"
      "get_or ''type'' PNone m = Inr (PStr ''ses_init'')" "takes (run_p3 L lib' m) cf' s True e"
      "tx d = tx c @ [cf, cf']" "tx e = tx s @ [sf, sf']" "open_tx d" "open_tx e"
      "in_step d e" "session_active e" "trust_score e = TRUST_START"
      "backdrop d = backdrop c" "c_M_num d = c_M_num c" "aside e = aside s" "node_label e = node_label s"
    unfolding c0(4-6) by blast
  have clkd: "clocks_ok d" using clk x(12) by (simp add: clocks_ok_def backdrop_def)
  obtain n where t: "takes (timed_phase lib ''P3: '' (client_p3 L pr) (\<lambda>d m. m\<lparr>p3_duration_us := d\<rparr>)) (sf @ sf') c True
      (d\<lparr>tick_pos := Suc (tick_pos d), c_metrics := (c_metrics d)\<lparr>p3_duration_us := n\<rparr>\<rparr>)"
    using timed_phase_takes [OF x(1) [unfolded c0_def] clk clkd] by blast
  define d' where "d' = d\<lparr>tick_pos := Suc (tick_pos d), c_metrics := (c_metrics d)\<lparr>p3_duration_us := n\<rparr>\<rparr>"
  have "tx d' = tx c @ [cf, cf']" "open_tx d'" "in_step d' e" "clocks_ok d'" "wall d' = wall c" "c_M_num d' = c_M_num c" "progress 0 c s d' e"
    using x clkd
    by (simp_all add: d'_def open_tx_def in_step_def clocks_ok_def progress_def backdrop_def aside_def)
  then show ?thesis using t [folded d'_def] x(2-4,6,8,10,11,14,15) by blast
qed

text \<open>
  The handshake of the two runs: what is left of the client's run is its loop and its logout, what is
  left of the responder's is its loop.
\<close>

definition client_rest ::
  "cryptolib \<Rightarrow> (exc_kind \<Rightarrow> string) \<Rightarrow> (nat \<Rightarrow> bool) \<Rightarrow> (nat \<Rightarrow> pyfloat) \<Rightarrow> nat \<Rightarrow> pc_metrics client" where
  "client_rest L lib pr gauss n =
     seq (p4_loop L lib pr gauss [0..<n]) (seq (client_logout L lib) (seq sock_close (gets c_metrics)))"

text \<open>What must hold of the responder's store and coordinator when the session begins.\<close>

definition favourable :: "(nat \<Rightarrow> pyfloat) \<Rightarrow> nat \<Rightarrow> string \<Rightarrow> data_store \<Rightarrow> ems \<Rightarrow> bool" where
  "favourable gauss n lbl d e \<longleftrightarrow> undisputed gauss [0..<n] lbl d
     \<and> (case get_setpoint lbl e of None \<Rightarrow> True | Some sp \<Rightarrow> is_double sp)"

lemma favourableI: "undisputed gauss [0..<n] lbl d \<Longrightarrow> ems_ok e \<Longrightarrow> favourable gauss n lbl d e"
  using get_setpoint_ok [of e lbl] by (auto simp: favourable_def setpoint_ok_def split: option.split)

lemma handshake_meets:
  assumes L: "aead_ok L" and reg: "registered salt c s" and io: "open_tx c" "open_tx s"
    and clk: "clocks_ok c" and calm: "favourable gauss n (client_label c s) (data_st s) (coord s)"
    and n: "c_M_num c = 0" "n < 2 ^ 32"
  shows "\<exists>d e cs ss. (\<forall>x q. concat x = concat ss @ q \<longrightarrow> [] \<notin> set x \<longrightarrow> (\<exists>z.
        client_session L lib pr gauss salt n (c\<lparr>rx := x\<rparr>) = client_rest L lib pr gauss n (d\<lparr>rx := z\<rparr>)
        \<and> concat z = q \<and> [] \<notin> set z))
    \<and> (\<forall>f t. takes (run_data_loop L lib') f e () t \<longrightarrow> takes (run_session L lib') (concat cs @ f) s () t)
    \<and> tx d = tx c @ cs \<and> tx e = tx s @ ss \<and> linked gauss n d e \<and> progress 0 c s d e
    \<and> c_M_num d = 0 \<and> wall d = wall c \<and> scene e = (client_label c s, coord s, wall s) \<and> data_st e = data_st s"
proof -
  from p2_timed [OF reg io clk, of lib pr lib'] obtain d2 e1 m cf sf k g where
    p2: "takes (timed_phase lib ''P2: '' (client_p2 pr salt) (\<lambda>d m. m\<lparr>p2_duration_us := d\<rparr>)) sf c True d2"
      "takes recv_msg cf s m s" "get_or ''type'' PNone m = Inr (PStr ''rot_hello'')" "run_p2 lib' m s = (Inr True, e1)"
      "tx d2 = tx c @ [cf]" "tx e1 = tx s @ [sf]" "open_tx d2" "open_tx e1" "after_p2 d2 e1 k g"
      "clocks_ok d2" "c_M_num d2 = c_M_num c" "progress 0 c s d2 e1" "aside e1 = aside s" "node_label e1 = client_label c s"
      "wall d2 = wall c"
    by blast
  from p3_timed [OF L p2(9,10,7,8), of lib pr lib'] obtain d5 e m' cf1 cf2 sf1 sf2 where
    p3: "takes (timed_phase lib ''P3: '' (client_p3 L pr) (\<lambda>d m. m\<lparr>p3_duration_us := d\<rparr>)) (sf1 @ sf2) d2 True d5"
      "takes recv_msg cf1 e1 m' e1" "get_or ''type'' PNone m' = Inr (PStr ''ses_init'')" "takes (run_p3 L lib' m') cf2 e1 True e"
      "tx d5 = tx d2 @ [cf1, cf2]" "tx e = tx e1 @ [sf1, sf2]" "open_tx d5" "open_tx e"
      "in_step d5 e" "session_active e" "trust_score e = TRUST_START"
      "clocks_ok d5" "c_M_num d5 = c_M_num d2" "progress 0 d2 e1 d5 e" "aside e = aside e1" "node_label e = node_label e1"
      "wall d5 = wall d2"
    by blast
  define total where "total = (\<lambda>m. m\<lparr>handshake_total_us := p2_duration_us m + p3_duration_us m\<rparr> :: pc_metrics)"
  define d where "d = d5\<lparr>c_active := True, c_metrics := total (c_metrics d5)\<rparr>"
  have client: "\<exists>z. client_session L lib pr gauss salt n (c\<lparr>rx := x\<rparr>) = client_rest L lib pr gauss n (d\<lparr>rx := z\<rparr>)
      \<and> concat z = q \<and> [] \<notin> set z" if x: "concat x = concat [sf, sf1, sf2] @ q" "[] \<notin> set x" for x q
  proof -
    obtain y where y: "timed_phase lib ''P2: '' (client_p2 pr salt) (\<lambda>d m. m\<lparr>p2_duration_us := d\<rparr>) (c\<lparr>rx := x\<rparr>)
        = (Inr True, d2\<lparr>rx := y\<rparr>)" "concat y = (sf1 @ sf2) @ q" "[] \<notin> set y"
      using p2(1) x unfolding takes_def by force
    then obtain z where z: "timed_phase lib ''P3: '' (client_p3 L pr) (\<lambda>d m. m\<lparr>p3_duration_us := d\<rparr>) (d2\<lparr>rx := y\<rparr>)
        = (Inr True, d5\<lparr>rx := z\<rparr>)" "concat z = q" "[] \<notin> set z"
      using p3(1) unfolding takes_def by blast
    have "d\<lparr>rx := z\<rparr> = d5\<lparr>rx := z, c_active := True, c_metrics := total (c_metrics d5)\<rparr>" by (simp add: d_def)
    then show ?thesis
      using y(1) z by (intro exI [of _ z]) (simp add: client_session_def bnd_Inr [where m = "timed_phase a b p q" for a b p q]
        set_metrics_def client_rest_def total_def)
  qed
  have "linked gauss n d e"
    using p3 p2(11,13,14) calm n
    by (simp add: linked_def d_def in_step_def open_tx_def calm_def aside_def clocks_ok_def favourable_def)
  moreover have "progress 0 c s d e"
    using progress_trans [OF p2(12) p3(14)] by (simp add: progress_def d_def total_def)
  moreover have "takes (run_session L lib') (concat [cf, cf1, cf2] @ f) s () t" if "takes (run_data_loop L lib') f e () t" for f t
    using server_run_takes [OF p2(2-4) p3(2-4) that] by simp
  moreover have "c_M_num d = 0" "wall d = wall c" "scene e = (client_label c s, coord s, wall s)" "data_st e = data_st s"
    using p2(11,13-15) p3(13,15-17) n(1) by (simp_all add: d_def scene_def aside_def)
  ultimately show ?thesis
    using client p2(5,6) p3(5,6)
    by (intro exI [of _ d] exI [of _ e] exI [of _ "[cf, cf1, cf2]"] exI [of _ "[sf, sf1, sf2]"]) (simp add: d_def)
qed

text \<open>The end of both runs, from the states the data phase leaves.\<close>

lemma logout_meets:
  assumes L: "aead_ok L" and link: "linked gauss 0 c s" and stop: "rx_end c = EndOfStream"
    and P: "P = [] \<or> P = advice (node_label s) (coord s)"
  shows "\<exists>d t cf. (\<forall>z. concat z = concat P \<and> [] \<notin> set z \<longrightarrow> client_logout L lib (c\<lparr>rx := z\<rparr>) = (Inr (), d))
    \<and> takes (run_data_loop L lib') cf s () t
    \<and> tx d = tx c @ [cf] \<and> tx t = tx s \<and> c_PRV_bl d = PRV_bl t \<and> \<not> session_active t
    \<and> trust_score t = TRUST_START \<and> audit_chain t = audit_chain s \<and> data_st t = data_st s
    \<and> p4_done (c_metrics d) = p4_done (c_metrics c) \<and> p4_latencies (c_metrics d) = p4_latencies (c_metrics c)
    \<and> pc_errors (c_metrics d) = pc_errors (c_metrics c) @ logout_errors (concat P)"
proof -
  obtain sid si k g where st: "joined sid si k g c" "served sid si k g s"
    using link by (auto simp: linked_def in_step_iff)
  note l = link [unfolded linked_def]
  have c: "clocks_ok c" "open_tx c" and s: "open_tx s" "calm s" using l by simp_all
  have "concat P = [] \<or> (\<exists>sp. is_double sp \<and> concat P = pw (setpoint_msg sp))"
    using P s(2) by (auto simp: advice_def calm_def split: option.splits)
  note client = logout_client [OF L st(1) c stop this, of lib]
  from logout_server [OF L st s(1), of lib'] obtain t where t: "takes (loop_turn L lib') (pw (p5_req L sid si k c)) s True t"
    "tx t = tx s" "\<not> session_active t" "PRV_bl t = Some g" "audit_chain t = audit_chain s" "trust_score t = trust_score s"
    "data_st t = data_st s" by blast
  have "takes (run_data_loop L lib') (pw (p5_req L sid si k c)) s () t"
    by (rule takes_loop_stop [OF t(1)]) (use s(2) in \<open>simp add: calm_def\<close>)
  with client t(2-7) s(2) show ?thesis unfolding calm_def by force
qed

text \<open>The setpoint frame that is left on the client's stream when the last reading is answered.\<close>

definition leftover :: "nat \<Rightarrow> string \<Rightarrow> ems \<Rightarrow> bytes" where
  "leftover n lbl e = (if n = 0 then [] else concat (advice lbl e))"

lemma session_meets:
  assumes L: "aead_ok L" and reg: "registered salt c s" and io: "open_tx c" "open_tx s" and stop: "rx_end c = EndOfStream"
    and clk: "clocks_ok c" and calm: "favourable gauss n (client_label c s) (data_st s) (coord s)"
    and n: "c_M_num c = 0" "n < 2 ^ 32"
  shows "\<exists>d t cs ss es. (\<forall>x. concat x = concat ss \<and> [] \<notin> set x \<longrightarrow>
        client_session L lib pr gauss salt n (c\<lparr>rx := x\<rparr>) = (Inr (c_metrics d), d))
    \<and> takes (run_session L lib') (concat cs) s () t
    \<and> tx d = tx c @ cs \<and> tx t = tx s @ ss
    \<and> p4_done (c_metrics d) = p4_done (c_metrics c) + int n
    \<and> length (p4_latencies (c_metrics d)) = length (p4_latencies (c_metrics c)) + n
    \<and> pc_errors (c_metrics d) = pc_errors (c_metrics c) @ logout_errors (leftover n (client_label c s) (coord s))
    \<and> length (audit_chain t) = length (audit_chain s) + n
    \<and> c_PRV_bl d = PRV_bl t \<and> \<not> session_active t \<and> trust_score t = TRUST_START
    \<and> map fst es = [0..<n] \<and> list_all (timed (wall c) (wall s)) es
    \<and> data_st t = fold (deliver (client_label c s) gauss) es (data_st s)"
proof -
  from handshake_meets [OF L reg io clk calm n, of lib pr lib'] obtain d1 e1 cs1 ss1 where
    hs: "\<And>x q. concat x = concat ss1 @ q \<Longrightarrow> [] \<notin> set x \<Longrightarrow> \<exists>z.
        client_session L lib pr gauss salt n (c\<lparr>rx := x\<rparr>) = client_rest L lib pr gauss n (d1\<lparr>rx := z\<rparr>)
        \<and> concat z = q \<and> [] \<notin> set z"
      "\<And>f t. takes (run_data_loop L lib') f e1 () t \<Longrightarrow> takes (run_session L lib') (concat cs1 @ f) s () t"
      "tx d1 = tx c @ cs1" "tx e1 = tx s @ ss1" "linked gauss n d1 e1" "progress 0 c s d1 e1"
      "c_M_num d1 = int 0" "wall d1 = wall c" "scene e1 = (client_label c s, coord s, wall s)" "data_st e1 = data_st s"
    by auto
  have e1: "node_label e1 = client_label c s" "coord e1 = coord s" "wall e1 = wall s" using hs(9) by (simp_all add: scene_def)
  define A where "A = (if n = 0 then [] else advice (node_label e1) (coord e1))"
  from data_phase [OF L hs(5,7), of "[]" lib pr lib'] obtain d2 e2 cs2 ss2 f es where
    p4: "takes (p4_loop L lib pr gauss [0..<n]) f d1 () d2" "concat ss2 = f @ concat A"
      "\<And>f v t. takes (run_data_loop L lib') f e2 v t \<Longrightarrow> takes (run_data_loop L lib') (concat cs2 @ f) e1 v t"
      "tx d2 = tx d1 @ cs2" "tx e2 = tx e1 @ ss2" "linked gauss 0 d2 e2" "progress n d1 e1 d2 e2"
      "map fst es = [0..<n]" "list_all (timed (wall c) (wall s)) es" "scene e2 = scene e1"
      "data_st e2 = fold (deliver (client_label c s) gauss) es (data_st s)"
    unfolding A_def e1 hs(8,10) add_0 concat.simps append_Nil by blast
  have "A = [] \<or> A = advice (node_label e2) (coord e2)" using p4(10) by (auto simp: A_def scene_def)
  have pr: "progress n c s d2 e2" using progress_trans [OF hs(6) p4(7)] by simp
  then have "rx_end d2 = EndOfStream" using stop by (simp add: progress_def)
  from logout_meets [OF L p4(6) this \<open>A = [] \<or> _\<close>, of lib lib'] obtain d3 t cf where
    p5: "\<And>z. concat z = concat A \<Longrightarrow> [] \<notin> set z \<Longrightarrow> client_logout L lib (d2\<lparr>rx := z\<rparr>) = (Inr (), d3)"
      "takes (run_data_loop L lib') cf e2 () t"
      "tx d3 = tx d2 @ [cf]" "tx t = tx e2" "c_PRV_bl d3 = PRV_bl t" "\<not> session_active t" "trust_score t = TRUST_START"
      "audit_chain t = audit_chain e2" "data_st t = data_st e2" "p4_done (c_metrics d3) = p4_done (c_metrics d2)"
      "p4_latencies (c_metrics d3) = p4_latencies (c_metrics d2)"
      "pc_errors (c_metrics d3) = pc_errors (c_metrics d2) @ logout_errors (concat A)" by blast
  define d where "d = d3\<lparr>sock_closed := True\<rparr>"
  have "client_session L lib pr gauss salt n (c\<lparr>rx := x\<rparr>) = (Inr (c_metrics d), d)"
    if x: "concat x = concat (ss1 @ ss2)" "[] \<notin> set x" for x
  proof -
    obtain z where z: "client_session L lib pr gauss salt n (c\<lparr>rx := x\<rparr>) = client_rest L lib pr gauss n (d1\<lparr>rx := z\<rparr>)"
      "concat z = concat ss2" "[] \<notin> set z" using hs(1) x by force
    obtain y where y: "p4_loop L lib pr gauss [0..<n] (d1\<lparr>rx := z\<rparr>) = (Inr (), d2\<lparr>rx := y\<rparr>)"
      "concat y = concat A" "[] \<notin> set y" using p4(1,2) z(2,3) unfolding takes_def by metis
    show ?thesis
      unfolding z(1) client_rest_def using y(1) p5(1) [OF y(2,3)]
      by (simp add: seq_Inr [where m = "p4_loop L lib pr gauss [0..<n]"] seq_Inr [where m = "client_logout L lib"]
          sock_close_def d_def)
  qed
  moreover have "takes (run_session L lib') (concat (cs1 @ cs2 @ [cf])) s () t"
    using hs(2) [OF p4(3) [OF p5(2)]] by simp
  moreover have "concat A = leftover n (client_label c s) (coord s)" by (simp add: A_def leftover_def e1)
  ultimately show ?thesis
    using pr p5(3-12) p4(4,5,8,9,11) hs(3,4)
    by (intro exI [of _ d] exI [of _ t] exI [of _ "cs1 @ cs2 @ [cf]"] exI [of _ "ss1 @ ss2"] exI [of _ es])
      (simp add: d_def progress_def)
qed

lemma whole_session:
  assumes "aead_ok L"
    and "map_of reg (hexlify nid) = Some en" and "entry_salt en = Some h" and "unhexlify h = Inr salt"
    and "length nid \<le> 1000" and "length sid \<le> 1000"
    and "open_tx a" and "rx_end a = EndOfStream" and "clocks_ok a" and "open_tx b"
    and "lbl = (case entry_label en of None \<Rightarrow> take 8 (hexlify nid) | Some l \<Rightarrow> l)"
    and "undisputed gauss [0..<n] lbl dst" and "ems_ok em"
    and "n < 2 ^ 32"
  shows "\<exists>fa fb m c s es.
      (\<forall>x. concat x = concat fa \<and> [] \<notin> set x \<longrightarrow>
         run_client L lib pr gauss True (a\<lparr>rx := x\<rparr>) nid key salt n = (Inr (Some m), c))
    \<and> (\<forall>y. concat y = concat fb \<and> [] \<notin> set y \<longrightarrow>
         run_session L lib' (new_session (b\<lparr>rx := y\<rparr>) reg sid skey dst em) = (Inr (), s))
    \<and> tx c = tx a @ fb \<and> tx s = tx b @ fa
    \<and> map fst es = [0..<n] \<and> list_all (timed (wall a) (wall b)) es
    \<and> data_st s = fold (\<lambda>(i, ms, now). store_record now lbl (stored_reading lbl gauss i ms)) es dst
    \<and> p4_done m = int n \<and> length (p4_latencies m) = n \<and> pc_errors m = logout_errors (leftover n lbl em)
    \<and> length (audit_chain s) = n \<and> c_PRV_bl c = PRV_bl s
    \<and> \<not> session_active s \<and> trust_score s = TRUST_START"
proof -
  let ?c = "new_client a nid key" and ?s = "new_session b reg sid skey dst em"
  have c: "?c\<lparr>rx := x\<rparr> = new_client (a\<lparr>rx := x\<rparr>) nid key" for x by (simp add: new_client_def io.extend_def)
  have s: "?s\<lparr>rx := x\<rparr> = new_session (b\<lparr>rx := x\<rparr>) reg sid skey dst em" for x by (simp add: new_session_def io.extend_def)
  have lbl: "client_label ?c ?s = lbl"
    and reg: "registered salt ?c ?s"
    using assms(2-6,11) by (simp_all add: client_label_def registered_def new_client_def new_session_def io.extend_def
        cong: option.case_cong)
  have io: "open_tx ?c" "open_tx ?s" "rx_end ?c = EndOfStream" "clocks_ok ?c" "c_M_num ?c = 0"
    "favourable gauss n (client_label ?c ?s) (data_st ?s) (coord ?s)"
    using assms(7-10) favourableI [OF assms(12,13)] unfolding lbl
    by (simp_all add: new_client_def new_session_def io.extend_def open_tx_def clocks_ok_def)
  obtain d t cs ss es where x:
    "\<And>x. concat x = concat ss \<Longrightarrow> [] \<notin> set x \<Longrightarrow>
      client_session L lib pr gauss salt n (?c\<lparr>rx := x\<rparr>) = (Inr (c_metrics d), d)"
    "takes (run_session L lib') (concat cs) ?s () t" "tx d = tx ?c @ cs" "tx t = tx ?s @ ss"
    "p4_done (c_metrics d) = p4_done (c_metrics ?c) + int n"
    "length (p4_latencies (c_metrics d)) = length (p4_latencies (c_metrics ?c)) + n"
    "pc_errors (c_metrics d) = pc_errors (c_metrics ?c) @ logout_errors (leftover n lbl (coord ?s))"
    "length (audit_chain t) = length (audit_chain ?s) + n"
    "c_PRV_bl d = PRV_bl t" "\<not> session_active t" "trust_score t = TRUST_START"
    "map fst es = [0..<n]" "list_all (timed (wall ?c) (wall ?s)) es"
    "data_st t = fold (deliver lbl gauss) es (data_st ?s)"
    using session_meets [OF assms(1) reg io(1-4,6,5) assms(14), of lib pr lib'] unfolding lbl by blast
  have "run_client L lib pr gauss True (a\<lparr>rx := x\<rparr>) nid key salt n = (Inr (Some (c_metrics d)), d)"
    if "concat x = concat ss" "[] \<notin> set x" for x
  proof -
    have "(new_client (a\<lparr>rx := x\<rparr>) nid key)\<lparr>c_ID := nid, c_key := key\<rparr> = ?c\<lparr>rx := x\<rparr>"
      by (simp add: new_client_def io.extend_def)
    then show ?thesis using x(1) [OF that] by (simp add: run_client_def Let_def p1_provision_def bnd_Inr)
  qed
  moreover have "run_session L lib' (new_session (b\<lparr>rx := y\<rparr>) reg sid skey dst em) = (Inr (), t\<lparr>rx := []\<rparr>)"
    if "concat y = concat cs" "[] \<notin> set y" for y
    using takes_all [OF x(2) that] unfolding s .
  moreover have "wall ?c = wall a" "wall ?s = wall b" by (simp_all add: new_client_def new_session_def io.extend_def)
  ultimately show ?thesis
    using x(3-14)
    by (intro exI [of _ ss] exI [of _ cs] exI [of _ "c_metrics d"] exI [of _ d] exI [of _ "t\<lparr>rx := []\<rparr>"] exI [of _ es])
      (simp add: new_client_def new_session_def io.extend_def pc_no_metrics_def deliver_def)
qed

text \<open>
  C1: a whole session, end to end. The node is registered with the salt the client uses, the
  voltages it will report are within the threshold of the median of the other nodes (or there are
  too few of them for a median), the coordinator is in a state it can be in, both connections take
  what is sent, and the client's clocks stay in range. Then there are two lists of frames such that
  the client, receiving the first in any segmentation, sends exactly the second, and the responder,
  receiving the second in any segmentation, sends exactly the first. Whatever the generator draws,
  all \<open>n\<close> readings arrive: the responder's store is the old one with the \<open>n\<close> readings recorded in
  order, every field as it was generated, under the node's label, numbered from 1 and with full
  trust; the client counts \<open>n\<close> messages and \<open>n\<close> latencies, the audit chain has \<open>n\<close> entries and both ends
  have the same chain head. The responder refuses the logout; the client notices only when no
  setpoint is left on its stream to be taken for the answer.
\<close>

theorem session_end_to_end:
  assumes "aead_ok L"
    and "map_of reg (hexlify nid) = Some en" and "entry_salt en = Some h" and "unhexlify h = Inr salt"
    and "length nid \<le> 1000" and "length sid \<le> 1000"
    and "open_tx a" and "rx_end a = EndOfStream" and "clocks_ok a" and "open_tx b"
    and "lbl = (case entry_label en of None \<Rightarrow> take 8 (hexlify nid) | Some l \<Rightarrow> l)"
    and "undisputed gauss [0..<n] lbl dst" and "ems_ok em"
    and "n < 2 ^ 32"
  shows "\<exists>fa fb m c s es.
      (\<forall>x. concat x = concat fa \<and> [] \<notin> set x \<longrightarrow>
         run_client L lib pr gauss True (a\<lparr>rx := x\<rparr>) nid key salt n = (Inr (Some m), c))
    \<and> (\<forall>y. concat y = concat fb \<and> [] \<notin> set y \<longrightarrow>
         run_session L lib' (new_session (b\<lparr>rx := y\<rparr>) reg sid skey dst em) = (Inr (), s))
    \<and> tx c = tx a @ fb \<and> tx s = tx b @ fa
    \<and> map fst es = [0..<n] \<and> list_all (timed (wall a) (wall b)) es
    \<and> data_st s = fold (\<lambda>(i, ms, now). store_record now lbl (stored_reading lbl gauss i ms)) es dst
    \<and> p4_done m = int n \<and> length (p4_latencies m) = n \<and> pc_errors m = logout_errors (leftover n lbl em)
    \<and> length (audit_chain s) = n \<and> c_PRV_bl c = PRV_bl s
    \<and> \<not> session_active s \<and> trust_score s = TRUST_START"
  by (rule whole_session [OF assms])

text \<open>
  A session of three readings with a node that was given a setpoint of 40 W, in a store where two other
  nodes report 17.5 V: the generator draws 1/4 for the noise of the node's voltages.
\<close>

definition demo_store :: data_store where
  "demo_store = store_record 1 ''n3'' [(''V_bus'', PFloat (Fin (35 / 2)))]
     (store_record 0 ''n2'' [(''V_bus'', PFloat (Fin (35 / 2)))] (new_store 5))"

definition demo_gauss :: "nat \<Rightarrow> pyfloat" where
  "demo_gauss k = Fin (if k mod 5 = 0 then 1 / 4 else 0)"

lemma demo_exact: "rnd 17 = 17" "rnd 18 = 18" "rnd (35 / 2) = 35 / 2" "rnd (71 / 4) = 71 / 4" "rnd (1 / 2) = 1 / 2" "rnd (1 / 4) = 1 / 4"
  using rnd_exact [of 35 "-1"] rnd_exact [of 71 "-2"] rnd_exact [of 1 "-1"] rnd_exact [of 1 "-2"]
  by (simp_all add: rnd_numeral power_int_minus)

lemma agrees_in_range:
  assumes "in_range (- (1 / 2)) (1 / 2) (fsub x m)"
  shows "agrees (Some m) (PFloat x)"
proof -
  obtain r where r: "fsub x m = Fin r" "- (1 / 2) \<le> r" "r \<le> 1 / 2" using assms by (rule in_rangeE)
  have "in_range (1 / 2) 1 (fl (80 / 100))" by (intro fl_in_range) (simp_all add: demo_exact)
  then obtain t where t: "fl (80 / 100) = Fin t" "1 / 2 \<le> t" by (rule in_rangeE)
  show ?thesis
    using r t by (simp add: agrees_def py_sub_def py_abs_def num_binop_def float_op_def num_lt_def exact_def V_BUS_ANOMALY_THRESHOLD_def)
qed

lemma demo_undisputed: "undisputed demo_gauss [0..<3] ''n1'' demo_store"
proof -
  have "agrees (Some (Fin (35 / 2))) (field ''V_bus'' PNone (sensor_fields demo_gauss i 0))" if i: "i < 3" for i
  proof -
    have "in_range 17 (35 / 2) (fl (17141 / 1000))" by (rule fl_in_range) (simp_all add: demo_exact)
    then obtain a where a: "fl (17141 / 1000) = Fin a" "17 \<le> a" "a \<le> 35 / 2" by (rule in_rangeE)
    then have "in_range 17 (71 / 4) (fl (a + 1 / 4))" by (intro fl_in_range) (simp_all add: demo_exact)
    then obtain b where b: "fl (a + 1 / 4) = Fin b" "17 \<le> b" "b \<le> 71 / 4" by (rule in_rangeE)
    have "in_range 0 (1 / 4) (fl (of_nat i / 4000))" using i by (intro fl_in_range) (simp_all add: demo_exact)
    then obtain c where c: "fl (of_nat i / 4000) = Fin c" "0 \<le> c" "c \<le> 1 / 4" by (rule in_rangeE)
    have "in_range (of_int 17) (of_int 18) (fl (b + c))" using b c by (intro fl_in_range) (simp_all add: demo_exact)
    then have "in_range (of_int 17) (of_int 18) (fround 3 (fl (b + c)))"
      by (rule fround_in_range) (simp_all add: demo_exact)
    then obtain d where d: "fround 3 (fl (b + c)) = Fin d" "17 \<le> d" "d \<le> 18" by (auto elim: in_rangeE)
    have "field ''V_bus'' PNone (sensor_fields demo_gauss i 0) = PFloat (fround 3 (fl (b + c)))"
      by (simp add: sensor_fields_def Let_def field_def demo_gauss_def ratio_def a b c)
    moreover have "in_range (- (1 / 2)) (1 / 2) (fl (d - 35 / 2))" using d by (intro fl_in_range) (simp_all add: demo_exact)
    ultimately show ?thesis using agrees_in_range [of "Fin d" "Fin (35 / 2)"] by (simp add: d(1) fsub_def)
  qed
  moreover have "get_median_v_bus (Some ''n1'') demo_store = Inr (Some (Fin (35 / 2)))" by code_simp
  ultimately show ?thesis by (simp add: undisputed_def)
qed

lemma session_end_to_end_witness:
  "\<exists>fa fb m c s es.
      (\<forall>x. concat x = concat fa \<and> [] \<notin> set x \<longrightarrow>
         run_client ref_lib (\<lambda>_. []) (\<lambda>_. False) demo_gauss True (blank_io\<lparr>rx := x\<rparr>)
           (replicate 16 9) (replicate 32 8) (replicate 16 7) 3 = (Inr (Some m), c))
    \<and> (\<forall>y. concat y = concat fb \<and> [] \<notin> set y \<longrightarrow>
         run_session ref_lib (\<lambda>_. []) (new_session (blank_io\<lparr>rx := y\<rparr>)
             [(hexlify (replicate 16 9), \<lparr>entry_salt = Some (hexlify (replicate 16 7)), entry_label = Some ''n1''\<rparr>)]
             (replicate 16 1) (replicate 32 2) demo_store (set_manual_setpoint 0 ''n1'' (Fin 40) new_ems)) = (Inr (), s))
    \<and> tx c = tx blank_io @ fb \<and> tx s = tx blank_io @ fa
    \<and> map fst es = [0..<3] \<and> list_all (timed (wall blank_io) (wall blank_io)) es
    \<and> data_st s = fold (\<lambda>(i, ms, now). store_record now ''n1''
        (stored_reading ''n1'' demo_gauss i ms)) es demo_store
    \<and> p4_done m = int 3 \<and> length (p4_latencies m) = 3
    \<and> pc_errors m = logout_errors (leftover 3 ''n1'' (set_manual_setpoint 0 ''n1'' (Fin 40) new_ems))
    \<and> length (audit_chain s) = 3 \<and> c_PRV_bl c = PRV_bl s
    \<and> \<not> session_active s \<and> trust_score s = TRUST_START"
  by (rule session_end_to_end [OF aead_ok_ref_lib, where h = "hexlify (replicate 16 7)"
      and en = "\<lparr>entry_salt = Some (hexlify (replicate 16 7)), entry_label = Some ''n1''\<rparr>"])
    (simp_all add: open_tx_def clocks_ok_def blank_io_def demo_undisputed ems_ok_manual ems_ok_new)

end
