(* ===== verification/Session_Steps.thy ===== *)
theory Session_Steps
  imports Handshake_Laws Sensor_Laws
begin

text \<open>
  \<open>NodeSession.run\<close> cut where its thread waits for a message: a stage says what is awaited, a
  step receives and handles one message. Iterating the steps without interference is the run of
  \<open>Node_Session\<close>; the server interleaves them.
\<close>

section \<open>Steps\<close>

datatype stage = AtHello | AtInit | AtData | Ended

definition expect :: "string \<Rightarrow> string \<Rightarrow> (pyval \<Rightarrow> bool handler) \<Rightarrow> stage \<Rightarrow> stage handler" where
  "expect ty wrong phase after =
     bnd recv_msg (\<lambda>msg.
     bnd (lift (get_or ''type'' PNone msg)) (\<lambda>t.
     if t \<noteq> PStr ty then
       bnd (lift (rbind (get_or ''type'' (PStr ''?'') msg) as_str)) (\<lambda>t.
       seq (send_error (wrong @ t)) (ret Ended))
     else bnd (phase msg) (\<lambda>ok. ret (if ok then after else Ended))))"

definition data_step :: "cryptolib \<Rightarrow> lib_text \<Rightarrow> stage handler" where
  "data_step L lib =
     bnd (gets session_active) (\<lambda>active.
     if active then
       try_except (bnd (loop_turn L lib) (\<lambda>stop. ret (if stop then Ended else AtData)))
         (\<lambda>e. if is_timeout_error e then ret Ended else raise e)
     else ret Ended)"

fun stage_body :: "cryptolib \<Rightarrow> lib_text \<Rightarrow> stage \<Rightarrow> stage handler" where
  "stage_body L lib AtHello = expect ''rot_hello'' ''Expected rot_hello, got: '' (run_p2 lib) AtInit"
| "stage_body L lib AtInit = expect ''ses_init'' ''Expected ses_init, got: '' (run_p3 L lib) AtData"
| "stage_body L lib AtData = data_step L lib"
| "stage_body L lib Ended = ret Ended"

definition session_caught :: "lib_text \<Rightarrow> exc \<Rightarrow> unit handler" where
  "session_caught lib e =
     (if is_connection_error e then ret ()
      else if is_exception e then modify (add_error (exc_str lib e)) else raise e)"

definition session_step :: "cryptolib \<Rightarrow> lib_text \<Rightarrow> stage \<Rightarrow> stage handler" where
  "session_step L lib st = try_except (stage_body L lib st) (\<lambda>e. seq (session_caught lib e) (ret Ended))"

section \<open>Every step that continues takes bytes off the stream\<close>

abbreviation rest_le :: "nat \<Rightarrow> node_session \<Rightarrow> bool" where
  "rest_le n s \<equiv> length (avail s) \<le> n"

lemma keeps_rest_recv: "keeps (rest_le n) recv_msg"
  by (rule keepsI) (use msg.recv_rx le_trans in blast)

lemma keeps_rest_p2: "keeps (rest_le n) (run_p2 lib m)"
  unfolding run_p2_def p2_body_def phase_failed_def Let_def split_def
  by (intro keeps_intro keeps_modify) (simp_all add: add_error_def)

lemma keeps_rest_p3: "keeps (rest_le n) (run_p3 L lib m)"
  unfolding run_p3_def p3_body_def p3_reply_def p3_finish_def phase_failed_def Let_def split_def
  by (intro keeps_bnd keeps_seq keeps_try_except keeps_rest_recv keeps_if keeps_intro keeps_modify)
    (simp_all add: add_error_def)

lemma expect_stage: "expect ty wrong phase after s = (Inr st, t) \<Longrightarrow> st = Ended \<or> st = after"
  by (auto simp: expect_def bnd_eq_Inr_iff seq_eq_Inr_iff lift_def split: if_splits)

lemma expect_takes:
  assumes "expect ty wrong phase after s = (Inr st, t)" and "st \<noteq> Ended" and "\<And>n m. keeps (rest_le n) (phase m)"
  shows "length (avail t) < length (avail s)"
proof -
  obtain m u where r: "recv_msg s = (Inr m, u)" and k: "bnd (lift (get_or ''type'' PNone m)) (\<lambda>t.
      if t \<noteq> PStr ty then bnd (lift (rbind (get_or ''type'' (PStr ''?'') m) as_str)) (\<lambda>t.
        seq (send_error (wrong @ t)) (ret Ended))
      else bnd (phase m) (\<lambda>ok. ret (if ok then after else Ended))) u = (Inr st, t)"
    using assms(1) unfolding expect_def bnd_eq_Inr_iff by blast
  obtain ok where "phase m u = (Inr ok, t)"
    using k assms(2) by (auto simp: bnd_eq_Inr_iff seq_eq_Inr_iff lift_def split: if_splits)
  with assms(3) [of "length (avail u)" m] have "length (avail t) \<le> length (avail u)"
    by (metis keepsD order_refl)
  then show ?thesis using msg.recv_takes [OF r] by simp
qed

lemma stage_takes: "stage_body L lib st s = (Inr st', t) \<Longrightarrow> st' \<noteq> Ended \<Longrightarrow> length (avail t) < length (avail s)"
proof (cases st)
  case AtData
  assume "stage_body L lib st s = (Inr st', t)" and "st' \<noteq> Ended"
  then have "loop_turn L lib s = (Inr False, t)"
    using AtData by (auto simp: data_step_def try_except_def bnd_def split: if_splits prod.splits sum.splits)
  then show ?thesis by (rule loop_turn_takes)
qed (auto intro: expect_takes keeps_rest_p2 keeps_rest_p3)

lemma step_cases:
  "session_step L lib st s = (case stage_body L lib st s of
     (Inl e, t) \<Rightarrow> (case session_caught lib e t of (Inl x, u) \<Rightarrow> (Inl x, u) | (Inr _, u) \<Rightarrow> (Inr Ended, u))
   | (Inr st', t) \<Rightarrow> (Inr st', t))"
  by (auto simp: session_step_def try_except_def seq_Inl seq_Inr split: prod.splits sum.splits)

lemma step_takes: "session_step L lib st s = (Inr st', t) \<Longrightarrow> st' \<noteq> Ended \<Longrightarrow> length (avail t) < length (avail s)"
  using stage_takes by (auto simp: step_cases split: prod.splits sum.splits)

section \<open>A run is the iteration of its steps\<close>

function run_stages :: "cryptolib \<Rightarrow> lib_text \<Rightarrow> stage \<Rightarrow> unit handler" where
  "run_stages L lib st s =
     (case session_step L lib st s of
        (Inl e, t) \<Rightarrow> (Inl e, t)
      | (Inr st', t) \<Rightarrow> if st' = Ended then (Inr (), t) else run_stages L lib st' t)"
  by pat_completeness auto
termination
  by (relation "measure (\<lambda>(L, lib, st, s). length (avail s))") (auto dest: step_takes [OF sym])

declare run_stages.simps [simp del]

lemma run_stages_eq:
  "run_stages L lib st s = (case stage_body L lib st s of
     (Inl e, t) \<Rightarrow> session_caught lib e t
   | (Inr st', t) \<Rightarrow> if st' = Ended then (Inr (), t) else run_stages L lib st' t)"
  by (subst run_stages.simps) (auto simp: step_cases split: prod.splits sum.splits)

lemma try_bnd:
  "try_except (bnd m k) h s = (case m s of (Inl e, t) \<Rightarrow> h e t | (Inr x, t) \<Rightarrow> try_except (k x) h t)"
  by (auto simp: try_except_def bnd_def split: prod.splits sum.splits)

lemma data_stages: "try_except (run_data_loop L lib) (session_caught lib) s = run_stages L lib AtData s"
proof (induction L lib s rule: run_data_loop.induct)
  case (1 L lib s)
  show ?case
  proof (cases "session_active s")
    case False
    then show ?thesis
      by (simp add: run_stages_eq [of L lib AtData s] data_step_def try_except_def run_data_loop.simps [of L lib s])
  next
    case True
    obtain q u where q: "loop_turn L lib s = (q, u)" by fastforce
    show ?thesis
      using True q "1.IH" [OF True q [symmetric]]
      by (cases q) (auto simp: run_stages_eq [of L lib AtData s] data_step_def try_except_def bnd_def
          run_data_loop.simps [of L lib s] split: if_splits)
  qed
qed

lemma expect_run:
  assumes "after \<noteq> Ended"
  shows "try_except
     (bnd recv_msg (\<lambda>msg. bnd (lift (get_or ''type'' PNone msg)) (\<lambda>t.
        if t \<noteq> PStr ty then bnd (lift (rbind (get_or ''type'' (PStr ''?'') msg) as_str)) (\<lambda>t. send_error (wrong @ t))
        else bnd (phase msg) (\<lambda>ok. if \<not> ok then ret () else rest)))) h s
   = (case expect ty wrong phase after s of
        (Inl e, t) \<Rightarrow> h e t
      | (Inr st, t) \<Rightarrow> if st = Ended then (Inr (), t) else try_except rest h t)"
proof -
  obtain q u where q: "recv_msg s = (q, u)" by fastforce
  show ?thesis
  proof (cases q)
    case (Inl e)
    then show ?thesis using q by (simp add: expect_def bnd_Inl try_except_def)
  next
    case (Inr m)
    note m = bnd_Inr [where m = recv_msg, OF q [unfolded Inr]]
    show ?thesis
    proof (cases "get_or ''type'' PNone m")
      case (Inl e)
      then show ?thesis by (simp add: expect_def m try_except_def del: get_or.simps)
    next
      case ty: (Inr t)
      consider "t = PStr ty" | e where "t \<noteq> PStr ty" "rbind (get_or ''type'' (PStr ''?'') m) as_str = Inl e"
        | x where "t \<noteq> PStr ty" "rbind (get_or ''type'' (PStr ''?'') m) as_str = Inr x"
        by (cases "rbind (get_or ''type'' (PStr ''?'') m) as_str") blast+
      then show ?thesis
      proof cases
        case 1
        obtain r v where r: "phase m u = (r, v)" by fastforce
        then show ?thesis using ty 1 assms
          by (cases r) (simp_all add: expect_def m try_except_def bnd_Inl [where m = "phase m"]
            bnd_Inr [where m = "phase m"] del: get_or.simps)
      next
        case (2 e)
        then show ?thesis using ty by (simp add: expect_def m try_except_def del: get_or.simps)
      next
        case (3 x)
        obtain v where "send_error (wrong @ x) u = (Inr (), v)" using send_error_returns by blast
        then show ?thesis using ty 3
          by (simp add: expect_def m try_except_def seq_Inr [where m = "send_error y" for y] del: get_or.simps)
      qed
    qed
  qed
qed

text \<open>
  A run of a session is the iteration of its steps: receiving and handling one message at a time,
  and stopping where a step says so or an exception ends it, does what \<open>NodeSession.run\<close> does, on every
  input and every surroundings.
\<close>

theorem session_is_its_steps: "run_session L lib s = run_stages L lib AtHello s"
proof -
  have init: "try_except (bnd recv_msg (\<lambda>msg. bnd (lift (get_or ''type'' PNone msg)) (\<lambda>ty.
      if ty \<noteq> PStr ''ses_init'' then bnd (lift (rbind (get_or ''type'' (PStr ''?'') msg) as_str)) (\<lambda>t.
        send_error (''Expected ses_init, got: '' @ t))
      else bnd (run_p3 L lib msg) (\<lambda>ok. if \<not> ok then ret () else run_data_loop L lib)))) (session_caught lib) t
    = run_stages L lib AtInit t" for t
    unfolding expect_run [where after = AtData, simplified] data_stages run_stages_eq [of L lib AtInit t]
    by (auto split: prod.splits sum.splits dest: expect_stage)
  have "run_session L lib s = try_except (run_body L lib) (session_caught lib) s"
    by (simp add: run_session_def session_caught_def [abs_def])
  then show ?thesis
    unfolding run_body_def expect_run [where after = AtInit and phase = "run_p2 lib", simplified] init run_stages_eq [of L lib AtHello s]
    by (auto split: prod.splits sum.splits dest: expect_stage)
qed

end
