(* ===== verification/Server.thy ===== *)
theory Server
  imports Session_Steps Pytext Rot_Service
begin

text \<open>
  \<open>smg_primary_server/server.py\<close>: loading the configuration, the identity, and \<open>SMGServer\<close> with
  its threads. A state holds what the threads share (data store, coordinator, list of sessions) and
  the threads themselves: the sessions of \<open>Session_Steps\<close>, the update loop and the status loop. The
  step relation interleaves them in any order. Its grain: handling one message is one step, the
  update loop reads the store in one step and writes its setpoints in a later one, the status loop
  makes its report in one step. Listening, sleeping, printing and logging are left out; any
  connection may be accepted at any time while the server runs.
\<close>

section \<open>Configuration and identity\<close>

definition load_config :: "files \<Rightarrow> string \<Rightarrow> exc + pyval" where
  "load_config fs path = read_json fs path"

definition load_registry :: "files \<Rightarrow> string \<Rightarrow> exc + pyval" where
  "load_registry fs path = read_json fs path"

definition unhex_value :: "pyval \<Rightarrow> exc + bytes" where
  "unhex_value v = rbind (as_str v) unhexlify"

definition load_or_generate_server_identity :: "pyval \<Rightarrow> ('z io_scheme, bytes \<times> bytes) py" where
  "load_or_generate_server_identity config =
     bnd (lift (get_or ''server_id'' PNone config)) (\<lambda>id_hex.
     bnd (lift (get_or ''server_key'' PNone config)) (\<lambda>key_hex.
     if py_true id_hex \<and> py_true key_hex then
       bnd (lift (unhex_value id_hex)) (\<lambda>sid.
       bnd (lift (unhex_value key_hex)) (\<lambda>key. ret (sid, key)))
     else
       bnd (urandom 16) (\<lambda>server_id.
       bnd (urandom 32) (\<lambda>server_key. ret (server_id, server_key)))))"

text \<open>
  The sessions look entries up by hexadecimal key and read their label and salt as strings; entries
  and fields of other types are not seen by this view.
\<close>

definition str_field :: "string \<Rightarrow> (string \<times> pyval) list \<Rightarrow> string option" where
  "str_field k e = (case map_of e k of Some (PStr s) \<Rightarrow> Some s | _ \<Rightarrow> None)"

definition registry_view :: "pyval \<Rightarrow> (string, node_entry) pydict" where
  "registry_view reg = (case reg of
     PDict d \<Rightarrow> [(k, \<lparr>entry_salt = str_field ''node_salt'' e, entry_label = str_field ''label'' e\<rparr>).
                  (k, PDict e) \<leftarrow> d]
   | _ \<Rightarrow> [])"

section \<open>The server\<close>

record smg_server =
  srv_host :: pyval
  srv_port :: pyval
  srv_registry :: pyval
  srv_id :: bytes
  srv_key :: bytes
  srv_data :: data_store
  srv_ems :: ems
  srv_sessions :: "nat list"
  srv_running :: bool
  srv_threads :: "(nat, stage \<times> node_session) pydict"
  srv_next :: nat
  srv_snapshot :: "data_store option"
  srv_status_alive :: bool

definition new_server :: "pyval \<Rightarrow> pyval \<Rightarrow> ('z io_scheme, smg_server) py" where
  "new_server config reg =
     bnd (lift (get_or ''server_ip'' (PStr ''0.0.0.0'') config)) (\<lambda>host.
     bnd (lift (get_or ''server_port'' (PInt 5000) config)) (\<lambda>port.
     bnd (load_or_generate_server_identity config) (\<lambda>(sid, key).
     bnd (lift (py_len reg)) (\<lambda>_.
     ret \<lparr>srv_host = host, srv_port = port, srv_registry = reg, srv_id = sid, srv_key = key,
          srv_data = new_store MAX_READINGS_PER_NODE, srv_ems = new_ems, srv_sessions = [],
          srv_running = False, srv_threads = [], srv_next = 0, srv_snapshot = None,
          srv_status_alive = False\<rparr>))))"

text \<open>\<open>main\<close>: a missing file ends the process with status 1; the keys that do not start with an
  underscore are counted.\<close>

definition node_key_count :: "pyval \<Rightarrow> exc + nat" where
  "node_key_count reg = (case reg of
     PDict d \<Rightarrow> Inr (length (filter (\<lambda>(k, v). take 1 k \<noteq> ''_'') d))
   | PList vs \<Rightarrow> rbind (rmap (\<lambda>v. case v of PStr s \<Rightarrow> Inr s | _ \<Rightarrow> Inl attribute_error) vs) (\<lambda>ks.
       Inr (length (filter (\<lambda>k. take 1 k \<noteq> ''_'') ks)))
   | PStr s \<Rightarrow> Inr (length (filter (\<lambda>c. c \<noteq> 95) (utf8_cps (map of_char s))))
   | _ \<Rightarrow> Inl type_error)"

definition or_exit :: "exc + 'a \<Rightarrow> exc + 'a" where
  "or_exit r = (case r of
     Inl e \<Rightarrow> if exc_kind_of e = FileNotFoundKind then Inl (Raised SystemExitKind ''1'') else Inl e
   | Inr x \<Rightarrow> Inr x)"

definition server_main :: "files \<Rightarrow> string \<Rightarrow> string \<Rightarrow> ('z io_scheme, smg_server) py" where
  "server_main fs config_path registry_path =
     bnd (lift (or_exit (load_config fs config_path))) (\<lambda>config.
     bnd (lift (or_exit (load_registry fs registry_path))) (\<lambda>reg.
     bnd (lift (node_key_count reg)) (\<lambda>_. new_server config reg)))"

section \<open>What the threads do\<close>

text \<open>\<open>run\<close> up to its loop, and a connection: \<open>_handle_client\<close> starts in a thread of its own.\<close>

definition server_run :: "smg_server \<Rightarrow> smg_server" where
  "server_run srv = srv\<lparr>srv_running := True, srv_status_alive := True\<rparr>"

definition accept_client :: "io \<Rightarrow> smg_server \<Rightarrow> smg_server" where
  "accept_client conn srv =
     (let i = srv_next srv;
          session = new_session conn (registry_view (srv_registry srv)) (srv_id srv) (srv_key srv)
                      (srv_data srv) (srv_ems srv)
      in srv\<lparr>srv_next := Suc i, srv_threads := dict_set i (AtHello, session) (srv_threads srv),
             srv_sessions := srv_sessions srv @ [i]\<rparr>)"

text \<open>The \<open>finally\<close> of \<open>_handle_client\<close>.\<close>

definition client_done :: "nat \<Rightarrow> node_session \<Rightarrow> smg_server \<Rightarrow> smg_server" where
  "client_done i s srv = srv\<lparr>srv_threads := dict_set i (Ended, s\<lparr>sock_closed := True\<rparr>) (srv_threads srv),
     srv_sessions := remove1 i (srv_sessions srv)\<rparr>"

text \<open>One message of session \<open>i\<close>, on the shared objects.\<close>

definition client_turn :: "cryptolib \<Rightarrow> lib_text \<Rightarrow> nat \<Rightarrow> stage \<Rightarrow> node_session \<Rightarrow> smg_server \<Rightarrow> smg_server" where
  "client_turn L lib i st s srv =
     (case session_step L lib st (s\<lparr>data_st := srv_data srv, coord := srv_ems srv\<rparr>) of (r, t) \<Rightarrow>
        let srv' = srv\<lparr>srv_data := data_st t, srv_ems := coord t\<rparr> in
        (case r of
           Inl e \<Rightarrow> client_done i t srv'
         | Inr st' \<Rightarrow> if st' = Ended then client_done i t srv'
                    else srv'\<lparr>srv_threads := dict_set i (st', t) (srv_threads srv')\<rparr>))"

text \<open>\<open>_ems_update_loop\<close>: the update reads the store once, and writes later; an exception is logged.\<close>

definition ems_read :: "smg_server \<Rightarrow> smg_server" where
  "ems_read srv = srv\<lparr>srv_snapshot := Some (srv_data srv)\<rparr>"

definition ems_write :: "rat \<Rightarrow> data_store \<Rightarrow> smg_server \<Rightarrow> smg_server" where
  "ems_write now seen srv = srv\<lparr>srv_ems := snd (ems_update now seen (srv_ems srv)), srv_snapshot := None\<rparr>"

text \<open>\<open>_status_loop\<close>: what it logs, or the exception that ends its thread.\<close>

type_synonym status = "nat \<times> pyval \<times> pyval \<times> (string \<times> nat \<times> pyfloat) list"

definition status_report :: "rat \<Rightarrow> smg_server \<Rightarrow> exc + status option" where
  "status_report now srv =
     (let nodes = get_all_nodes (srv_data srv) in
      if nodes = [] then Inr None
      else rbind (aggregate_power now (srv_data srv)) (\<lambda>agg.
        Inr (Some (length nodes, field ''total_P_gen'' PNone agg, field ''total_P_bus'' PNone agg,
          map (\<lambda>node. (node, get_record_count node (srv_data srv),
             (case get_setpoint node (srv_ems srv) of None \<Rightarrow> Fin 0 | Some sp \<Rightarrow> sp))) nodes))))"

definition status_pass :: "rat \<Rightarrow> smg_server \<Rightarrow> smg_server" where
  "status_pass now srv = (case status_report now srv of
     Inl e \<Rightarrow> srv\<lparr>srv_status_alive := False\<rparr> | Inr _ \<Rightarrow> srv)"

definition server_stop :: "smg_server \<Rightarrow> smg_server" where
  "server_stop srv = srv\<lparr>srv_running := False\<rparr>"

definition server_summary :: "smg_server \<Rightarrow> (string, nat \<times> pyval) pydict \<times> (string, (string, pyfloat) pydict) pydict" where
  "server_summary srv = (store_summary (srv_data srv), ems_summary (srv_ems srv))"

section \<open>The interleaving\<close>

text \<open>The loops test \<open>_running\<close> before they sleep, so one pass of each may still follow a stop.\<close>

inductive server_step :: "cryptolib \<Rightarrow> lib_text \<Rightarrow> smg_server \<Rightarrow> smg_server \<Rightarrow> bool" for L lib where
  accept: "srv_running srv \<Longrightarrow> server_step L lib srv (accept_client conn srv)"
| turn: "map_of (srv_threads srv) i = Some (st, s) \<Longrightarrow> st \<noteq> Ended \<Longrightarrow>
     server_step L lib srv (client_turn L lib i st s srv)"
| update_reads: "srv_snapshot srv = None \<Longrightarrow> server_step L lib srv (ems_read srv)"
| update_writes: "srv_snapshot srv = Some seen \<Longrightarrow> server_step L lib srv (ems_write now seen srv)"
| status: "srv_status_alive srv \<Longrightarrow> server_step L lib srv (status_pass now srv)"
| stop: "server_step L lib srv (server_stop srv)"

inductive serving :: "cryptolib \<Rightarrow> lib_text \<Rightarrow> smg_server \<Rightarrow> smg_server \<Rightarrow> bool" for L lib where
  start: "serving L lib srv (server_run srv)"
| step: "serving L lib srv srv' \<Longrightarrow> server_step L lib srv' srv'' \<Longrightarrow> serving L lib srv srv''"

inductive_cases server_stepE: "server_step L lib srv srv'"

end
