(* ===== verification/Server_Laws.thy ===== *)
theory Server_Laws
  imports Server
begin

text \<open>
  What holds in every state the server can reach, whatever arrives and however its threads are
  interleaved: the setpoints and the trust values in the data store, the trust of active sessions,
  and that a session that has ended is off the list with its socket closed.
\<close>

section \<open>A step of one session\<close>

fun stage_ok :: "stage \<Rightarrow> node_session \<Rightarrow> bool" where
  "stage_ok AtData s \<longleftrightarrow> consecutive_anomalies s < V_BUS_ANOMALY_WINDOW
     \<and> (session_active s \<longrightarrow> trust_score s \<in> {TRUST_START, TRUST_MID})"
| "stage_ok Ended s \<longleftrightarrow> sock_closed s"
| "stage_ok st s \<longleftrightarrow> \<not> session_active s \<and> consecutive_anomalies s = 0"

definition shared :: "node_session \<Rightarrow> data_store \<times> ems" where
  "shared s = (data_st s, coord s)"

abbreviation unauth :: "data_store \<times> ems \<Rightarrow> node_session \<Rightarrow> bool" where
  "unauth d s \<equiv> shared s = d \<and> \<not> session_active s \<and> consecutive_anomalies s = 0"

lemma keeps_unauth_p2: "keeps (unauth d) (run_p2 lib m)"
  unfolding run_p2_def p2_body_def phase_failed_def Let_def split_def shared_def
  by (intro keeps_intro keeps_modify) (simp_all add: add_error_def)

lemma keeps_shared_p3: "keeps (\<lambda>s. shared s = d) (run_p3 L lib m)"
  unfolding run_p3_def p3_body_def p3_reply_def p3_finish_def phase_failed_def Let_def split_def shared_def
  by (intro keeps_intro keeps_modify msg.keeps_recv) (simp_all add: add_error_def)

lemma keeps_expect:
  assumes "\<And>m. keeps P (phase m)" and "\<And>s x y. P s \<Longrightarrow> P (s\<lparr>tx := x, tx_left := y\<rparr>)"
    and "\<And>s c. P s \<Longrightarrow> P (s\<lparr>rx := c\<rparr>)"
  shows "keeps P (expect ty wrong phase after)"
  unfolding expect_def by (intro keeps_intro msg.keeps_recv assms)

lemma keeps_shared_caught: "keeps (\<lambda>s. shared s = d) (session_caught lib e)"
  unfolding session_caught_def shared_def by (intro keeps_intro keeps_modify) (simp_all add: add_error_def)

lemma expect_ok:
  assumes "expect ty wrong phase after s = (Inr st, t)" and "st \<noteq> Ended"
  shows "st = after \<and> (\<exists>m u. phase m u = (Inr True, t))"
  using assms by (auto simp: expect_def bnd_eq_Inr_iff seq_eq_Inr_iff lift_def split: if_splits)

lemma body_keeps:
  assumes "stage_ok st s" and "st \<noteq> Ended" and "trusted_store (data_st s)" and "stage_body L lib st s = (r, t)"
  shows "trusted_store (data_st t) \<and> coord t = coord s \<and> (case r of Inl e \<Rightarrow> True | Inr st' \<Rightarrow> st' = Ended \<or> stage_ok st' t)"
proof (cases st)
  case AtHello
  have "keeps (unauth (shared s)) (stage_body L lib st)"
    unfolding AtHello stage_body.simps by (rule keeps_expect [OF keeps_unauth_p2]) (simp_all add: shared_def)
  from keepsD [OF this _ assms(4)] assms(1) AtHello have t: "unauth (shared s) t" by simp
  have "st' = Ended \<or> stage_ok st' t" if "r = Inr st'" for st'
    using assms(4) that t AtHello by (cases "st' = Ended") (auto dest: expect_ok)
  then show ?thesis using t assms(3) by (cases r) (simp_all add: shared_def)
next
  case AtInit
  have "keeps (\<lambda>u. shared u = shared s) (stage_body L lib st)"
    unfolding AtInit stage_body.simps by (rule keeps_expect [OF keeps_shared_p3]) (simp_all add: shared_def)
  from keepsD [OF this _ assms(4)] have t: "shared t = shared s" by simp
  have "st' = Ended \<or> stage_ok st' t" if "r = Inr st'" for st'
    using expect_ok [of _ _ _ AtData s st' t] run_p3_True [of L lib _ _ t] assms(4) that AtInit
    by (cases "st' = Ended") (fastforce simp: V_BUS_ANOMALY_WINDOW_def)+
  then show ?thesis using t assms(3) by (cases r) (simp_all add: shared_def)
next
  case AtData
  show ?thesis
  proof (cases "session_active s")
    case False
    then show ?thesis using assms(3,4) AtData by (auto simp: data_step_def)
  next
    case True
    have good: "active_good s" using assms(1,3) AtData by (simp add: active_good_def)
    obtain q u where q: "loop_turn L lib s = (q, u)" by fastforce
    have t: "t = u" and r: "r = Inr AtData \<longrightarrow> q = Inr False" "\<And>st'. r = Inr st' \<Longrightarrow> st' \<in> {Ended, AtData}"
      using assms(4) AtData True q
      by (auto simp: data_step_def try_except_def bnd_def split: sum.splits if_splits)
    have "trusted_store (data_st u)" by (rule loop_turn_trusted [OF q good True])
    moreover have "coord u = coord s" by (rule keepsD [OF keeps_coord_turn refl q])
    moreover have "stage_ok AtData u" if "q = Inr False"
      using loop_turn_good [OF q good True] that by (simp add: active_good_def)
    ultimately show ?thesis using r t by (cases r) auto
  qed
qed (use assms(2) in simp)

lemma step_keeps:
  assumes "stage_ok st s" and "st \<noteq> Ended" and "trusted_store (data_st s)" and "session_step L lib st s = (r, t)"
  shows "trusted_store (data_st t) \<and> coord t = coord s \<and> (case r of Inl e \<Rightarrow> True | Inr st' \<Rightarrow> st' = Ended \<or> stage_ok st' t)"
proof -
  obtain q u where q: "stage_body L lib st s = (q, u)" by fastforce
  note b = body_keeps [OF assms(1-3) q]
  show ?thesis
  proof (cases q)
    case (Inl e)
    obtain x v where x: "session_caught lib e u = (x, v)" by fastforce
    have "shared v = shared u" by (rule keepsD [OF keeps_shared_caught refl x])
    then show ?thesis using b assms(4) q Inl x by (cases x) (auto simp: step_cases shared_def)
  qed (use b assms(4) q in \<open>auto simp: step_cases\<close>)
qed

section \<open>The invariant of the server\<close>

definition threads_ok :: "smg_server \<Rightarrow> bool" where
  "threads_ok srv \<longleftrightarrow> (\<forall>i st s. map_of (srv_threads srv) i = Some (st, s) \<longrightarrow> stage_ok st s)"

definition sessions_ok :: "smg_server \<Rightarrow> bool" where
  \<comment> \<open>the list has exactly the sessions whose thread has not ended, each once\<close>
  "sessions_ok srv \<longleftrightarrow> distinct (srv_sessions srv) \<and> (\<forall>i. i \<in> set (srv_sessions srv) \<longleftrightarrow>
     (\<exists>st s. map_of (srv_threads srv) i = Some (st, s) \<and> st \<noteq> Ended))
     \<and> (\<forall>i \<in> dom (map_of (srv_threads srv)). i < srv_next srv)"

definition server_ok :: "smg_server \<Rightarrow> bool" where
  "server_ok srv \<longleftrightarrow> ems_ok (srv_ems srv) \<and> trusted_store (srv_data srv)
     \<and> (\<forall>d. srv_snapshot srv = Some d \<longrightarrow> trusted_store d) \<and> threads_ok srv \<and> sessions_ok srv"

lemma new_session_unauth: "\<not> session_active (new_session c reg i k d e)" "consecutive_anomalies (new_session c reg i k d e) = 0"
  by (simp_all add: new_session_def io.extend_def)

lemma threads_set: "threads_ok srv \<Longrightarrow> stage_ok st s \<Longrightarrow> threads_ok (srv\<lparr>srv_threads := dict_set i (st, s) (srv_threads srv)\<rparr>)"
  by (simp add: threads_ok_def)

lemma sessions_accept: "sessions_ok srv \<Longrightarrow> sessions_ok (accept_client conn srv)"
  unfolding sessions_ok_def accept_client_def Let_def by (fastforce simp: dom_def less_Suc_eq)

lemma sessions_done:
  "sessions_ok srv \<Longrightarrow> sessions_ok (client_done i s srv)"
  if "map_of (srv_threads srv) i = Some x"
  using that unfolding sessions_ok_def client_done_def by (auto simp: dom_def)

lemma turn_ok:
  assumes ok: "server_ok srv" and i: "map_of (srv_threads srv) i = Some (st, s)" and st: "st \<noteq> Ended"
  shows "server_ok (client_turn L lib i st s srv)"
proof -
  define u where "u = s\<lparr>data_st := srv_data srv, coord := srv_ems srv\<rparr>"
  have "stage_ok st s" using ok i by (simp add: server_ok_def threads_ok_def)
  then have u: "stage_ok st u" "trusted_store (data_st u)"
    using ok by (cases st; simp add: u_def; fail) (use ok in \<open>simp add: server_ok_def u_def\<close>)
  obtain r t where r: "session_step L lib st u = (r, t)" by fastforce
  have t: "trusted_store (data_st t)" "coord t = srv_ems srv"
    "case r of Inl e \<Rightarrow> True | Inr st' \<Rightarrow> st' = Ended \<or> stage_ok st' t"
    using step_keeps [OF u(1) st u(2) r] by (simp_all add: u_def)
  define v where "v = srv\<lparr>srv_data := data_st t, srv_ems := coord t\<rparr>"
  have v: "server_ok v" "map_of (srv_threads v) i = Some (st, s)"
    using ok t i by (simp_all add: server_ok_def threads_ok_def sessions_ok_def v_def)
  have d: "server_ok (client_done i t v)"
    using v(1) sessions_done [OF v(2), of t] threads_set [of v Ended "t\<lparr>sock_closed := True\<rparr>" i]
    by (simp add: server_ok_def client_done_def threads_ok_def)
  have c: "server_ok (v\<lparr>srv_threads := dict_set i (st', t) (srv_threads v)\<rparr>)" if "st' \<noteq> Ended" "stage_ok st' t" for st'
    using v that st threads_set [of v st' t i] by (auto simp: server_ok_def sessions_ok_def dom_def)
  show ?thesis
    using r t(3) c d by (cases r) (auto simp: client_turn_def Let_def simp flip: u_def v_def)
qed

lemma server_step_ok: "server_step L lib srv srv' \<Longrightarrow> server_ok srv \<Longrightarrow> server_ok srv'"
proof (induction rule: server_step.induct)
  case (accept srv conn)
  have "threads_ok (accept_client conn srv)"
    using accept(2) by (simp add: server_ok_def threads_ok_def accept_client_def Let_def new_session_unauth)
  then show ?case using accept(2) sessions_accept [of srv conn]
    by (simp add: server_ok_def) (simp add: accept_client_def Let_def)
next
  case (update_writes srv seen now)
  obtain r e where e: "ems_update now seen (srv_ems srv) = (r, e)" by fastforce
  have "ems_ok e" by (rule keepsD [OF keeps_ems_update _ e]) (use update_writes in \<open>simp add: server_ok_def\<close>)
  then show ?case using update_writes e by (simp add: server_ok_def ems_write_def threads_ok_def sessions_ok_def)
next
  case (status srv now)
  then show ?case
    by (auto simp: status_pass_def server_ok_def threads_ok_def sessions_ok_def split: sum.splits)
next
  case (turn srv i st s)
  then show ?case by (simp add: turn_ok)
qed (auto simp: server_ok_def ems_read_def server_stop_def threads_ok_def sessions_ok_def)

lemma new_server_ok: "new_server config reg io = (Inr srv, io') \<Longrightarrow> server_ok (server_run srv)"
  by (auto simp: new_server_def bnd_eq_Inr_iff lift_def split_def server_run_def server_ok_def ems_ok_new
      trusted_store_def new_store_def threads_ok_def sessions_ok_def)

lemma serving_ok: "serving L lib srv0 srv \<Longrightarrow> new_server config reg io = (Inr srv0, io') \<Longrightarrow> server_ok srv"
proof (induction rule: serving.induct)
  case (start srv)
  then show ?case by (rule new_server_ok)
next
  case (step srv0 srv' srv'')
  then show ?case using server_step_ok by blast
qed

end
