(* ===== verification/Server_Props.thy ===== *)
theory Server_Props
  imports Server_Laws
begin

text \<open>The properties of the server as a whole, over the invariant of \<open>Server_Laws\<close>.\<close>

section \<open>What a turn may write\<close>

definition others_keep :: "string \<Rightarrow> data_store \<Rightarrow> ems \<Rightarrow> node_session \<Rightarrow> bool" where
  \<comment> \<open>the store differs from \<open>d\<close> at most in what it holds under the session's label, the coordinator is \<open>e\<close>\<close>
  "others_keep n d e s \<longleftrightarrow> node_label s = n \<and> coord s = e \<and> max_readings (data_st s) = max_readings d \<and> (\<forall>m. m \<noteq> n \<longrightarrow>
     get_latest m (data_st s) = get_latest m d \<and> get_record_count m (data_st s) = get_record_count m d
     \<and> map_of (buffers (data_st s)) m = map_of (buffers d) m)"

lemma others_keep_record: "others_keep n d e s \<Longrightarrow> others_keep n d e (s\<lparr>data_st := store_record now (node_label s) r (data_st s)\<rparr>)"
  by (simp add: others_keep_def store_record_def get_latest_def get_record_count_def Let_def)

lemma keeps_others_turn: "keeps (others_keep n d e) (loop_turn L lib)"
  unfolding loop_turn_def p4_parts p5_parts
  by (intro keeps_intro keeps_modify msg.keeps_recv others_keep_record)
    (simp_all add: others_keep_def state_updates split: trust_event.splits)

lemma keeps_others_data: "keeps (others_keep n d e) (session_step L lib AtData)"
  unfolding session_step_def stage_body.simps data_step_def session_caught_def
  by (intro keeps_intro keeps_modify keeps_others_turn) (simp_all add: others_keep_def add_error_def)

lemma keeps_shared_handshake:
  assumes "st \<noteq> AtData"
  shows "keeps (\<lambda>s. shared s = d) (session_step L lib st)"
proof -
  have p2: "keeps (\<lambda>s. shared s = d) (run_p2 lib m)" for m
    unfolding run_p2_def p2_body_def phase_failed_def Let_def split_def shared_def
    by (intro keeps_intro keeps_modify) (simp_all add: add_error_def)
  have ex: "keeps (\<lambda>s. shared s = d) (expect ty wrong ph after)" if "\<And>m. keeps (\<lambda>s. shared s = d) (ph m)" for ty wrong ph after
    by (rule keeps_expect [OF that]) (simp_all add: shared_def)
  have "keeps (\<lambda>s. shared s = d) (stage_body L lib st)"
    using assms by (cases st) (simp_all add: ex p2 keeps_shared_p3 keeps_ret)
  then show ?thesis
    unfolding session_step_def by (intro keeps_intro keeps_shared_caught)
qed

text \<open>
  C27: the sessions are isolated. A turn of one session changes no other session and no setpoint, and
  changes the data store at most under that session's own label: of every other label the ring buffer,
  with it everything \<open>get_recent\<close> answers, the latest reading and the counter stay as they are. It
  does so only in the data phase: during the handshake the whole store stays as it is.
\<close>

theorem turn_isolated:
  assumes "map_of (srv_threads srv) i = Some (st, s)"
  shows "(\<forall>j. j \<noteq> i \<longrightarrow> map_of (srv_threads (client_turn L lib i st s srv)) j = map_of (srv_threads srv) j)
    \<and> (\<forall>m. m \<noteq> node_label s \<longrightarrow>
         map_of (buffers (srv_data (client_turn L lib i st s srv))) m = map_of (buffers (srv_data srv)) m
         \<and> (\<forall>k. get_recent m k (srv_data (client_turn L lib i st s srv)) = get_recent m k (srv_data srv))
         \<and> get_latest m (srv_data (client_turn L lib i st s srv)) = get_latest m (srv_data srv)
         \<and> get_record_count m (srv_data (client_turn L lib i st s srv)) = get_record_count m (srv_data srv))
    \<and> max_readings (srv_data (client_turn L lib i st s srv)) = max_readings (srv_data srv)
    \<and> srv_ems (client_turn L lib i st s srv) = srv_ems srv
    \<and> (st \<noteq> AtData \<longrightarrow> srv_data (client_turn L lib i st s srv) = srv_data srv)"
proof -
  define u where "u = s\<lparr>data_st := srv_data srv, coord := srv_ems srv\<rparr>"
  obtain r t where r: "session_step L lib st u = (r, t)" by fastforce
  have ems: "srv_ems (client_turn L lib i st s srv) = coord t"
    using r by (auto simp: client_turn_def client_done_def Let_def simp flip: u_def split: sum.splits)
  have ct: "srv_data (client_turn L lib i st s srv) = data_st t"
    "j \<noteq> i \<Longrightarrow> map_of (srv_threads (client_turn L lib i st s srv)) j = map_of (srv_threads srv) j" for j
    using r by (auto simp: client_turn_def client_done_def Let_def simp flip: u_def split: sum.splits)
  show ?thesis
  proof (cases "st = AtData")
    case True
    have "others_keep (node_label s) (srv_data srv) (srv_ems srv) u" by (simp add: others_keep_def u_def)
    from keepsD [OF keeps_others_data this r [unfolded True]] show ?thesis
      using ct ems True by (simp add: others_keep_def get_recent_def)
  next
    case False
    from keepsD [OF keeps_shared_handshake [OF False] refl r] show ?thesis
      using ct ems by (simp add: shared_def u_def)
  qed
qed

section \<open>Concrete states\<close>

definition demo_srv :: smg_server where
  "demo_srv = \<lparr>srv_host = PStr ''0.0.0.0'', srv_port = PInt 5000, srv_registry = PDict [], srv_id = replicate 16 0,
     srv_key = replicate 32 0, srv_data = new_store MAX_READINGS_PER_NODE, srv_ems = new_ems, srv_sessions = [],
     srv_running = False, srv_threads = [], srv_next = 0, srv_snapshot = None, srv_status_alive = False\<rparr>"

lemma demo_new_server: "\<exists>io'. new_server (PDict []) (PDict []) blank_io = (Inr demo_srv, io')"
proof -
  have "map (\<lambda>_. 0 :: byte) [0..<n] = replicate n 0" for n by (simp add: map_replicate_const)
  then show ?thesis
    by (simp add: new_server_def load_or_generate_server_identity_def urandom_def bnd_def demo_srv_def blank_io_def)
qed

lemma demo_serving: "serving ref_lib (\<lambda>_. ''error'') demo_srv (accept_client blank_io (server_run demo_srv))"
  by (rule serving.step [OF serving.start accept]) (simp add: server_run_def)

lemma turn_isolated_witness:
  "\<exists>s. map_of (srv_threads (accept_client blank_io (server_run demo_srv))) 0 = Some (AtHello, s)
     \<and> srv_data (client_turn ref_lib (\<lambda>_. ''error'') 0 AtHello s (accept_client blank_io (server_run demo_srv)))
       = srv_data (accept_client blank_io (server_run demo_srv))"
proof -
  have "map_of (srv_threads (accept_client blank_io (server_run demo_srv))) 0 = Some (AtHello, s)
      \<Longrightarrow> ?thesis" for s
    using turn_isolated [of "accept_client blank_io (server_run demo_srv)" 0 AtHello s] by blast
  then show ?thesis by (simp add: accept_client_def Let_def server_run_def demo_srv_def)
qed

section \<open>The invariant\<close>

text \<open>
  C25: whatever the clients send, however many connect, and however the threads are interleaved, in
  every state the server reaches: each setpoint that a session would hand out lies between 0 and 100 W,
  every latest reading in the store carries a trust score of 0.8, 0.4 or 0, and every session that is
  active in its data phase has trust 0.8 or 0.4.
\<close>

theorem server_invariant:
  assumes "new_server config reg conn = (Inr srv0, conn')" and "serving L lib srv0 srv"
  shows "(\<forall>n sp. get_setpoint n (srv_ems srv) = Some sp \<longrightarrow> in_range 0 100 sp)
    \<and> (\<forall>r \<in> snd ` set (latest (srv_data srv)). \<exists>x \<in> {TRUST_START, TRUST_MID, Fin 0}.
          map_of r ''trust_score'' = Some (PFloat x))
    \<and> (\<forall>i s. map_of (srv_threads srv) i = Some (AtData, s) \<longrightarrow> session_active s \<longrightarrow>
          trust_score s \<in> {TRUST_START, TRUST_MID})"
proof -
  have ok: "server_ok srv" by (rule serving_ok [OF assms(2,1)])
  then have "\<forall>i st s. map_of (srv_threads srv) i = Some (st, s) \<longrightarrow> stage_ok st s"
    by (simp add: server_ok_def threads_ok_def)
  then have "\<forall>i s. map_of (srv_threads srv) i = Some (AtData, s) \<longrightarrow> session_active s \<longrightarrow>
      trust_score s \<in> {TRUST_START, TRUST_MID}"
    by (meson stage_ok.simps(1))
  moreover have "\<forall>n sp. get_setpoint n (srv_ems srv) = Some sp \<longrightarrow> in_range 0 100 sp"
    using ok by (auto simp: server_ok_def setpoint_ok_def dest: get_setpoint_ok)
  moreover have "trusted_store (srv_data srv)" using ok by (simp add: server_ok_def)
  ultimately show ?thesis unfolding trusted_store_def trust_levels_def by (intro conjI)
qed

lemma server_invariant_witness:
  "case get_setpoint ''NODE'' (srv_ems (accept_client blank_io (server_run demo_srv))) of
     None \<Rightarrow> True | Some sp \<Rightarrow> in_range 0 100 sp"
proof -
  obtain io' where "new_server (PDict []) (PDict []) blank_io = (Inr demo_srv, io')" using demo_new_server ..
  from server_invariant [OF this demo_serving] show ?thesis by (auto split: option.split)
qed

text \<open>
  C26: the server's list of sessions is exact in every reachable state: it holds, once each, exactly
  the sessions whose thread has not ended, and a session whose thread has ended has its socket closed,
  whether it returned or an exception escaped from it.
\<close>

theorem server_sessions_exact:
  assumes "new_server config reg conn = (Inr srv0, conn')" and "serving L lib srv0 srv"
  shows "distinct (srv_sessions srv)
    \<and> set (srv_sessions srv) = {i. \<exists>st s. map_of (srv_threads srv) i = Some (st, s) \<and> st \<noteq> Ended}
    \<and> (\<forall>i s. map_of (srv_threads srv) i = Some (Ended, s) \<longrightarrow> sock_closed s)"
proof -
  have ok: "server_ok srv" by (rule serving_ok [OF assms(2,1)])
  then have "\<forall>i st s. map_of (srv_threads srv) i = Some (st, s) \<longrightarrow> stage_ok st s"
    by (simp add: server_ok_def threads_ok_def)
  then have "\<forall>i s. map_of (srv_threads srv) i = Some (Ended, s) \<longrightarrow> sock_closed s"
    by (meson stage_ok.simps(2))
  moreover have "distinct (srv_sessions srv)"
    "set (srv_sessions srv) = {i. \<exists>st s. map_of (srv_threads srv) i = Some (st, s) \<and> st \<noteq> Ended}"
    using ok by (auto simp: server_ok_def sessions_ok_def)
  ultimately show ?thesis by blast
qed

lemma server_sessions_exact_witness:
  "distinct (srv_sessions (accept_client blank_io (server_run demo_srv)))
   \<and> set (srv_sessions (accept_client blank_io (server_run demo_srv)))
     = {i. \<exists>st s. map_of (srv_threads (accept_client blank_io (server_run demo_srv))) i = Some (st, s) \<and> st \<noteq> Ended}"
proof -
  obtain io' where "new_server (PDict []) (PDict []) blank_io = (Inr demo_srv, io')" using demo_new_server ..
  from server_sessions_exact [OF this demo_serving] show ?thesis by blast
qed

section \<open>Progress\<close>

text \<open>
  A run of the server in which session \<open>i\<close> takes \<open>n\<close> turns; every other step leaves it as it is.
\<close>

inductive turns_of :: "cryptolib \<Rightarrow> lib_text \<Rightarrow> nat \<Rightarrow> nat \<Rightarrow> smg_server \<Rightarrow> smg_server \<Rightarrow> bool" for L lib i where
  idle: "turns_of L lib i 0 srv srv"
| own: "map_of (srv_threads srv) i = Some (st, s) \<Longrightarrow> st \<noteq> Ended \<Longrightarrow>
     turns_of L lib i n (client_turn L lib i st s srv) srv' \<Longrightarrow> turns_of L lib i (Suc n) srv srv'"
| other: "server_step L lib srv srv1 \<Longrightarrow> map_of (srv_threads srv1) i = map_of (srv_threads srv) i \<Longrightarrow>
     turns_of L lib i n srv1 srv' \<Longrightarrow> turns_of L lib i n srv srv'"

fun turns_left :: "stage \<times> node_session \<Rightarrow> nat" where
  "turns_left (st, s) = (if st = Ended then 0 else Suc (length (avail s)))"

lemma client_turn_left:
  assumes "st \<noteq> Ended"
  shows "\<exists>th. map_of (srv_threads (client_turn L lib i st s srv)) i = Some th \<and> turns_left th < turns_left (st, s)"
proof -
  define u where "u = s\<lparr>data_st := srv_data srv, coord := srv_ems srv\<rparr>"
  obtain r t where r: "session_step L lib st u = (r, t)" by fastforce
  have "length (avail t) < length (avail s)" if "r = Inr st'" "st' \<noteq> Ended" for st'
    using step_takes [of L lib st u st' t] r that by (simp add: u_def)
  then show ?thesis
    using assms r by (auto simp: client_turn_def client_done_def Let_def simp flip: u_def split: sum.splits)
qed

lemma turns_bounded:
  "turns_of L lib i n srv srv' \<Longrightarrow> map_of (srv_threads srv) i = Some th \<Longrightarrow>
   \<exists>th'. map_of (srv_threads srv') i = Some th' \<and> n + turns_left th' \<le> turns_left th"
proof (induction arbitrary: th rule: turns_of.induct)
  case (own srv st s n srv')
  obtain th1 where th1: "map_of (srv_threads (client_turn L lib i st s srv)) i = Some th1"
    "turns_left th1 < turns_left (st, s)"
    using client_turn_left [OF own(2)] by blast
  from own.IH [OF th1(1)] th1(2) own(1) own.prems show ?case by fastforce
qed auto

text \<open>
  C28: no session can stay for ever. However the server interleaves it with everything else, a session
  with \<open>k\<close> bytes still to be received takes at most \<open>k + 1\<close> further turns, and after that many its thread
  has ended (and then, by the property before, its socket is closed and it is off the list).
\<close>

theorem session_turns_bounded:
  assumes "turns_of L lib i n srv srv'" and "map_of (srv_threads srv) i = Some (st, s)"
  shows "n \<le> length (avail s) + 1
    \<and> (n = length (avail s) + 1 \<longrightarrow> (\<exists>t. map_of (srv_threads srv') i = Some (Ended, t)))"
proof -
  obtain st' t where t: "map_of (srv_threads srv') i = Some (st', t)" "n + turns_left (st', t) \<le> turns_left (st, s)"
    using turns_bounded [OF assms] by (metis surj_pair)
  then show ?thesis by (auto split: if_splits)
qed

lemma session_turns_bounded_witness:
  "\<exists>s t. map_of (srv_threads (accept_client blank_io (server_run demo_srv))) 0 = Some (AtHello, s)
     \<and> map_of (srv_threads (client_turn ref_lib (\<lambda>_. ''error'') 0 AtHello s (accept_client blank_io (server_run demo_srv)))) 0
         = Some (Ended, t)"
proof -
  obtain s where s: "map_of (srv_threads (accept_client blank_io (server_run demo_srv))) 0 = Some (AtHello, s)"
    and r: "avail s = []"
    by (simp add: accept_client_def Let_def server_run_def demo_srv_def new_session_def io.extend_def)
  have "turns_of ref_lib (\<lambda>_. ''error'') 0 (Suc 0) (accept_client blank_io (server_run demo_srv))
      (client_turn ref_lib (\<lambda>_. ''error'') 0 AtHello s (accept_client blank_io (server_run demo_srv)))"
    by (rule own [OF s _ idle]) simp
  from session_turns_bounded [OF this s] s r show ?thesis by auto
qed

end
