(* ===== verification/Json_Pretty.thy ===== *)
theory Json_Pretty
  imports Json
begin

text \<open>
  \<open>json.dump(v, f, indent=2)\<close>, with or without \<open>sort_keys=True\<close>: one member or item per line,
  indented by two spaces a level, keys in the order of their code points. \<open>loads\<close> reads back what it
  wrote, with the keys sorted.
\<close>

section \<open>Writing\<close>

definition nl :: "nat \<Rightarrow> string" where
  "nl l = CHR 0x0A # replicate (2 * l) (CHR '' '')"

fun pretty :: "nat \<Rightarrow> pyval \<Rightarrow> exc + string"
and pretty_items :: "nat \<Rightarrow> pyval list \<Rightarrow> exc + string"
and pretty_members :: "nat \<Rightarrow> (string \<times> pyval) list \<Rightarrow> exc + string" where
  "pretty l (PList vs) = (if vs = [] then Inr ''[]''
     else rbind (pretty_items (Suc l) vs) (\<lambda>t. Inr (''['' @ t @ nl l @ '']'')))"
| "pretty l (PDict d) = (if d = [] then Inr ''{}''
     else rbind (pretty_members (Suc l) d) (\<lambda>t. Inr (''{'' @ t @ nl l @ ''}'')))"
| "pretty l v = dumps v"
| "pretty_items l [] = Inr []"
| "pretty_items l (v # vs) = rbind (pretty l v) (\<lambda>t.
     if vs = [] then Inr (nl l @ t) else rbind (pretty_items l vs) (\<lambda>u. Inr (nl l @ t @ '','' @ u)))"
| "pretty_members l [] = Inr []"
| "pretty_members l ((k, v) # d) = rbind (pretty l v) (\<lambda>t.
     if d = [] then Inr (nl l @ json_str k @ '': '' @ t)
     else rbind (pretty_members l d) (\<lambda>u. Inr (nl l @ json_str k @ '': '' @ t @ '','' @ u)))"

fun str_le :: "string \<Rightarrow> string \<Rightarrow> bool" where
  "str_le [] t = True"
| "str_le (c # s) [] = False"
| "str_le (c # s) (d # t) = ((of_char c :: nat) < of_char d \<or> c = d \<and> str_le s t)"

fun insert_member :: "string \<times> pyval \<Rightarrow> (string \<times> pyval) list \<Rightarrow> (string \<times> pyval) list" where
  "insert_member m [] = [m]"
| "insert_member m (n # d) = (if str_le (fst m) (fst n) then m # n # d else n # insert_member m d)"

fun sort_keys :: "pyval \<Rightarrow> pyval"
and sort_items :: "pyval list \<Rightarrow> pyval list"
and sort_members :: "(string \<times> pyval) list \<Rightarrow> (string \<times> pyval) list" where
  "sort_keys (PList vs) = PList (sort_items vs)"
| "sort_keys (PDict d) = PDict (sort_members d)"
| "sort_keys v = v"
| "sort_items [] = []"
| "sort_items (v # vs) = sort_keys v # sort_items vs"
| "sort_members [] = []"
| "sort_members ((k, v) # d) = insert_member (k, sort_keys v) (sort_members d)"

definition dump_sorted :: "pyval \<Rightarrow> exc + string" where
  "dump_sorted v = pretty 0 (sort_keys v)"

section \<open>Reading back\<close>

lemma skip_nl [simp]: "skip_ws (nl l @ t) = skip_ws t"
proof -
  have "dropWhile json_ws (replicate n (CHR '' '') @ t) = dropWhile json_ws t" for n
    by (induction n) (simp_all add: json_ws_def)
  then show ?thesis by (simp add: skip_ws_def nl_def json_ws_def)
qed

lemma delim_nl [simp]: "json_delim (nl l @ t)" "json_delim (CHR '','' # t)"
  by (simp_all add: json_delim_def nl_def)

lemma length_nl [simp]: "length (nl l) = Suc (2 * l)"
  by (simp add: nl_def)

lemma pretty_lead: "pretty l v = Inr t \<Longrightarrow> json_plain v \<Longrightarrow> \<exists>c u. t = c # u \<and> json_lead c"
proof (cases v)
  case (PList vs)
  moreover assume "pretty l v = Inr t"
  ultimately show ?thesis by (auto simp: rbind_Inr_iff json_lead_def json_ws_def split: if_splits)
next
  case (PDict d)
  moreover assume "pretty l v = Inr t"
  ultimately show ?thesis by (auto simp: rbind_Inr_iff json_lead_def json_ws_def split: if_splits)
qed (use dumps_lead [of v t] in simp_all)

lemma pretty_scalar:
  assumes "dumps v = Inr t" and "json_plain v" and "json_delim r" and "2 * length t < n"
  shows "jval n (t @ r) = Inr (v, r)"
  by (rule jval_dumps [OF assms])

lemma reads_pretty:
  shows "pretty l v = Inr t \<Longrightarrow> json_plain v \<Longrightarrow> json_delim r \<Longrightarrow> 2 * length t < n \<Longrightarrow> jval n (t @ r) = Inr (v, r)"
    and "pretty_items l vs = Inr u \<Longrightarrow> json_plain_items vs \<Longrightarrow> vs \<noteq> [] \<Longrightarrow> 2 * length u < m
      \<Longrightarrow> jitems (Suc m) (skip_ws (u @ nl j @ CHR '']'' # r)) = Inr (vs, r)"
    and "pretty_members l d = Inr w \<Longrightarrow> json_plain_members d \<Longrightarrow> d \<noteq> [] \<Longrightarrow> distinct (dict_keys (acc @ d))
      \<Longrightarrow> 2 * length w < k \<Longrightarrow> jmembers (Suc k) acc (skip_ws (w @ nl j @ CHR ''}'' # r)) = Inr (acc @ d, r)"
proof (induction l v and l vs and l d arbitrary: t r n and u r m j and w r k acc j
    rule: pretty_pretty_items_pretty_members.induct)
  case (1 l vs)
  show ?case
  proof (cases "vs = []")
    case True
    then show ?thesis using "1.prems" by (cases n) (auto simp: jval_bracket)
  next
    case False
    then obtain x where x: "pretty_items (Suc l) vs = Inr x" "t = ''['' @ x @ nl l @ '']''"
      using "1.prems"(1) by (auto simp: rbind_Inr_iff)
    obtain n' where n: "n = Suc (Suc n')" using "1.prems"(4) x by (cases n; cases "n - 1") auto
    have "2 * length x < n'" using "1.prems"(4) x n by simp
    then have it: "jitems (Suc n') (skip_ws (x @ nl l @ CHR '']'' # r)) = Inr (vs, r)"
      using "1.IH" x(1) "1.prems"(2) False by simp
    moreover have "take 1 (skip_ws (x @ nl l @ CHR '']'' # r)) \<noteq> '']''"
    proof
      assume b: "take 1 (skip_ws (x @ nl l @ CHR '']'' # r)) = '']''"
      obtain v vs' y where "pretty (Suc l) v = Inr y" "json_plain v" "\<exists>z. x = nl (Suc l) @ y @ z"
        using x(1) False "1.prems"(2) by (cases vs) (auto simp: rbind_Inr_iff split: if_splits)
      with pretty_lead [of "Suc l" v y] b show False
        by (auto simp: skip_ws_lead) (auto simp: json_lead_def)
    qed
    ultimately show ?thesis using x n by (simp add: jval_bracket)
  qed
next
  case (2 l d)
  show ?case
  proof (cases "d = []")
    case True
    then show ?thesis using "2.prems" by (cases n) (auto simp: jval_brace)
  next
    case False
    then obtain x where x: "pretty_members (Suc l) d = Inr x" "t = ''{'' @ x @ nl l @ ''}''"
      using "2.prems"(1) by (auto simp: rbind_Inr_iff)
    obtain n' where n: "n = Suc (Suc n')" using "2.prems"(4) x by (cases n; cases "n - 1") auto
    have "2 * length x < n'" using "2.prems"(4) x n by simp
    then have "jmembers (Suc n') [] (skip_ws (x @ nl l @ CHR ''}'' # r)) = Inr (d, r)"
      using "2.IH" [OF False x(1), of "[]"] "2.prems"(2) False by simp
    moreover obtain z where "x = nl (Suc l) @ CHR 0x22 # z"
      using x(1) False by (cases d) (auto simp: rbind_Inr_iff json_str_def split: if_splits)
    ultimately show ?thesis using x n by (simp add: jval_brace)
  qed
next
  case (5 l v vs)
  then obtain x where x: "pretty l v = Inr x" by (auto simp: rbind_Inr_iff)
  note lead = pretty_lead [OF x]
  show ?case
  proof (cases "vs = []")
    case True
    then have u: "u = nl l @ x" using 5 x by simp
    have "jval m (x @ nl j @ CHR '']'' # r) = Inr (v, nl j @ CHR '']'' # r)"
      using 5 x u by simp
    then show ?thesis using True u lead "5.prems"(2) by (simp add: jitems.simps(2) lead_skip_append)
  next
    case False
    then obtain y where y: "pretty_items l vs = Inr y" "u = nl l @ x @ '','' @ y"
      using 5 x by (auto simp: rbind_Inr_iff)
    have "jval m (x @ CHR '','' # y @ nl j @ CHR '']'' # r) = Inr (v, CHR '','' # y @ nl j @ CHR '']'' # r)"
      using 5 x y by simp
    moreover obtain m' where m: "m = Suc m'" using 5 by (cases m) auto
    moreover have "jitems (Suc m') (skip_ws (y @ nl j @ CHR '']'' # r)) = Inr (vs, r)"
      using "5.IH"(2) [OF False y(1)] "5.prems" False y m by simp
    ultimately show ?thesis using y lead "5.prems"(2) by (simp add: jitems.simps(2) lead_skip_append)
  qed
next
  case (7 l q v d)
  then obtain x where x: "pretty l v = Inr x" by (auto simp: rbind_Inr_iff)
  obtain s where s: "json_str q = CHR 0x22 # s" "\<forall>r. jstring (s @ r) = Inr (q, r)"
    using jstring_json_str "7.prems"(2) by auto
  have lead: "\<exists>c z. x = c # z \<and> json_lead c" using pretty_lead [OF x] "7.prems"(2) by simp
  have fresh: "dict_set q v acc = acc @ [(q, v)]" using "7.prems"(4) by (intro dict_set_fresh) auto
  show ?case
  proof (cases "d = []")
    case True
    then have w: "w = nl l @ json_str q @ '': '' @ x" using 7 x by simp
    have "jval k (x @ nl j @ CHR ''}'' # r) = Inr (v, nl j @ CHR ''}'' # r)"
      using 7 x w by simp
    then show ?thesis using True w s lead fresh by (simp add: jmembers.simps(2) skip_ws_space lead_skip_append)
  next
    case False
    then obtain y where y: "pretty_members l d = Inr y" "w = nl l @ json_str q @ '': '' @ x @ '','' @ y"
      using 7 x by (auto simp: rbind_Inr_iff)
    have "jval k (x @ CHR '','' # y @ nl j @ CHR ''}'' # r) = Inr (v, CHR '','' # y @ nl j @ CHR ''}'' # r)"
      using 7 x y by simp
    moreover obtain k' where k: "k = Suc k'" using 7 by (cases k) auto
    moreover have "jmembers (Suc k') (acc @ [(q, v)]) (skip_ws (y @ nl j @ CHR ''}'' # r)) = Inr ((acc @ [(q, v)]) @ d, r)"
      using "7.IH"(2) [OF False y(1), of "acc @ [(q, v)]"] "7.prems" False y k by simp
    ultimately show ?thesis using y s lead fresh by (simp add: jmembers.simps(2) skip_ws_space lead_skip_append)
  qed
qed (simp_all add: pretty_scalar)

section \<open>Sorted keys\<close>

lemma map_of_insert: "k \<notin> fst ` set d \<Longrightarrow> map_of (insert_member (k, v) d) = (map_of d)(k \<mapsto> v)"
  by (induction d) (auto simp: fun_eq_iff)

lemma keys_insert: "fst ` set (insert_member m d) = insert (fst m) (fst ` set d)"
  by (induction d) auto

lemma dict_ok_Cons: "dict_ok (a # d) \<longleftrightarrow> fst a \<notin> fst ` set d \<and> dict_ok d"
  by (simp only: list.map distinct.simps set_map)

lemma ok_insert: "dict_ok d \<Longrightarrow> k \<notin> fst ` set d \<Longrightarrow> dict_ok (insert_member (k, v) d)"
proof (induction d)
  case (Cons a d)
  then have d: "fst a \<notin> fst ` set d" "dict_ok d" and m: "k \<noteq> fst a" "k \<notin> fst ` set d"
    unfolding dict_ok_Cons by auto
  then have "dict_ok (a # insert_member (k, v) d)" "dict_ok ((k, v) # a # d)"
    unfolding dict_ok_Cons keys_insert using Cons.IH by auto
  then show ?case by (cases "str_le k (fst a)") (simp_all only: insert_member.simps if_True if_False fst_conv)
qed simp

lemma plain_insert: "json_plain_members (insert_member (k, v) d) \<longleftrightarrow> ascii k \<and> json_plain v \<and> json_plain_members d"
  by (induction d rule: list.induct; force)

lemma keys_sort_members: "fst ` set (sort_members d) = fst ` set d"
proof (induction d)
  case (Cons m d)
  then show ?case by (cases m) (simp add: keys_insert)
qed simp

lemma map_of_sort_members: "dict_ok d \<Longrightarrow> map_of (sort_members d) k = map_option sort_keys (map_of d k)"
proof (induction d)
  case (Cons m d)
  then show ?case by (cases m) (simp add: map_of_insert keys_sort_members)
qed simp

lemma dict_ok_sort_members: "dict_ok d \<Longrightarrow> dict_ok (sort_members d)"
proof (induction d)
  case (Cons m d)
  then show ?case by (cases m) (simp add: ok_insert keys_sort_members)
qed simp

lemma plain_sort: "json_plain v \<Longrightarrow> json_plain (sort_keys v)"
  and plain_sort_items: "json_plain_items vs \<Longrightarrow> json_plain_items (sort_items vs)"
  and plain_sort_members: "json_plain_members d \<Longrightarrow> json_plain_members (sort_members d)"
  by (induction v and vs and d rule: sort_keys_sort_items_sort_members.induct)
    (auto simp: plain_insert dict_ok_sort_members)

lemma pretty_plain: "json_plain v \<Longrightarrow> \<exists>t. pretty l v = Inr t"
  and pretty_items_plain: "json_plain_items vs \<Longrightarrow> \<exists>t. pretty_items l vs = Inr t"
  and pretty_members_plain: "json_plain_members d \<Longrightarrow> \<exists>t. pretty_members l d = Inr t"
  by (induction l v and l vs and l d rule: pretty_pretty_items_pretty_members.induct) auto

text \<open>What was dumped, followed by a newline, is read back with sorted keys.\<close>

lemma loads_pretty:
  assumes "pretty 0 v = Inr t" and "json_plain v"
  shows "loads (t @ [CHR 0x0A]) = Inr v"
proof -
  have nl0: "[CHR 0x0A] = nl 0 @ []" by (simp add: nl_def)
  have "jval (2 * length (t @ [CHR 0x0A]) + 2) (t @ [CHR 0x0A]) = Inr (v, [CHR 0x0A])"
    by (rule reads_pretty(1) [OF assms]) (simp_all add: json_delim_def)
  moreover have "skip_ws [CHR 0x0A] = []" unfolding nl0 skip_nl by simp
  ultimately show ?thesis
    using lead_skip_append [OF pretty_lead [OF assms], of "[CHR 0x0A]"] by (simp add: loads_def)
qed

lemma loads_dump_sorted:
  assumes "json_plain v"
  shows "\<exists>t. dump_sorted v = Inr t \<and> loads (t @ [CHR 0x0A]) = Inr (sort_keys v)"
proof -
  obtain t where "pretty 0 (sort_keys v) = Inr t" using pretty_plain plain_sort [OF assms] by blast
  then show ?thesis using loads_pretty plain_sort [OF assms] by (auto simp: dump_sorted_def)
qed

end
