(* ===== verification/Tool_Host.thy ===== *)
theory Tool_Host
  imports Json_Pretty Pytext Rot_Service
begin

text \<open>
  What the command-line tools work on: a file system (texts of files, existing directories), the
  two output streams, and the operating system's randomness. Files and directories are known by
  the text of their path, in the POSIX form; \<open>open(p, "w")\<close> needs the directory of \<open>p\<close>. The calls of
  \<open>os\<close> and \<open>os.path\<close> that the tools make, string lengths and slices in code points, and \<open>argparse\<close>'s
  way to refuse the arguments. The parsed arguments are each tool's input.
\<close>

record host = io +
  host_fs :: files
  host_dirs :: "string list"
  stdout :: "string list"
  stderr :: "string list"

type_synonym 'a tool = "(host, 'a) py"

section \<open>Text\<close>

definition str_len :: "string \<Rightarrow> nat" where
  "str_len s = length (utf8_cps (map of_char s))"

definition str_take :: "nat \<Rightarrow> string \<Rightarrow> string" where
  \<comment> \<open>\<open>s[:n]\<close>\<close>
  "str_take n s = concat (map utf8_encode (take n (utf8_cps (map of_char s))))"

text \<open>An argument that is \<open>None\<close> or empty is false.\<close>

definition given :: "string option \<Rightarrow> bool" where
  "given a \<longleftrightarrow> (case a of None \<Rightarrow> False | Some s \<Rightarrow> s \<noteq> [])"

definition or_default :: "string option \<Rightarrow> string \<Rightarrow> string" where
  "or_default a d = (case a of None \<Rightarrow> d | Some s \<Rightarrow> if s = [] then d else s)"

definition py_print :: "string \<Rightarrow> unit tool" where
  "py_print line = modify (\<lambda>h. h\<lparr>stdout := stdout h @ [line]\<rparr>)"

definition print_err :: "string \<Rightarrow> unit tool" where
  "print_err line = modify (\<lambda>h. h\<lparr>stderr := stderr h @ [line]\<rparr>)"

fun print_lines :: "string list \<Rightarrow> unit tool" where
  "print_lines [] = ret ()"
| "print_lines (l # ls) = seq (py_print l) (print_lines ls)"

definition sys_exit :: "nat \<Rightarrow> 'a tool" where
  "sys_exit n = raise (Raised SystemExitKind (int_str (int n)))"

definition ap_error :: "string \<Rightarrow> 'a tool" where
  \<comment> \<open>\<open>ap.error(message)\<close>: the message after the usage, and status 2\<close>
  "ap_error message = seq (print_err message) (sys_exit 2)"

section \<open>Paths\<close>

definition path_join :: "string \<Rightarrow> string \<Rightarrow> string" where
  "path_join a b =
     (if take 1 b = ''/'' then b
      else if a = [] \<or> last a = CHR ''/'' then a @ b else a @ ''/'' @ b)"

definition rstrip_slash :: "string \<Rightarrow> string" where
  "rstrip_slash p = rev (dropWhile (\<lambda>c. c = CHR ''/'') (rev p))"

definition dirname :: "string \<Rightarrow> string" where
  "dirname p = (let head = rev (dropWhile (\<lambda>c. c \<noteq> CHR ''/'') (rev p))
     in if rstrip_slash head = [] then head else rstrip_slash head)"

definition is_dir :: "host \<Rightarrow> string \<Rightarrow> bool" where
  "is_dir h p \<longleftrightarrow> p \<in> set (host_dirs h) \<or> p \<noteq> [] \<and> rstrip_slash p = []"

definition path_exists :: "host \<Rightarrow> string \<Rightarrow> bool" where
  "path_exists h p \<longleftrightarrow> host_fs h p \<noteq> None \<or> is_dir h p"

text \<open>The directory a new entry \<open>p\<close> goes to; the working directory always exists.\<close>

definition parent_error :: "host \<Rightarrow> string \<Rightarrow> exc option" where
  "parent_error h p =
     (if p = [] then Some (LibRaised FileNotFoundKind)
      else if dirname p = [] \<or> is_dir h (dirname p) then None
      else if host_fs h (dirname p) \<noteq> None then Some (LibRaised OSKind)
      else Some (LibRaised FileNotFoundKind))"

definition os_mkdir :: "string \<Rightarrow> unit tool" where
  "os_mkdir p = (\<lambda>h. case parent_error h p of
     Some e \<Rightarrow> (Inl e, h)
   | None \<Rightarrow> if path_exists h p then (Inl (LibRaised OSKind), h)
             else (Inr (), h\<lparr>host_dirs := p # host_dirs h\<rparr>))"

text \<open>\<open>os.makedirs(p, exist_ok=True)\<close>, for a path without a trailing slash, as \<open>dirname\<close> gives it.\<close>

function makedirs :: "string \<Rightarrow> unit tool" where
  "makedirs p h =
     (let head = dirname p;
          (r, h') = (if head \<noteq> [] \<and> length head < length p \<and> \<not> path_exists h head
                     then makedirs head h else (Inr (), h)) in
      case r of
        Inl e \<Rightarrow> (Inl e, h')
      | Inr _ \<Rightarrow> if is_dir h' p then (Inr (), h') else os_mkdir p h')"
  by pat_completeness auto
termination
  by (relation "measure (\<lambda>(p, h). length p)") auto

declare makedirs.simps [simp del]

section \<open>Files\<close>

definition isfile :: "string \<Rightarrow> bool tool" where
  "isfile p = gets (\<lambda>h. host_fs h p \<noteq> None)"

definition json_load :: "string \<Rightarrow> pyval tool" where
  "json_load p = getr (\<lambda>h. read_json (host_fs h) p)"

definition open_w :: "string \<Rightarrow> unit tool" where
  \<comment> \<open>creates the file or empties it\<close>
  "open_w p = (\<lambda>h. if is_dir h p then (Inl (LibRaised OSKind), h)
     else case parent_error h p of
       Some e \<Rightarrow> (Inl e, h)
     | None \<Rightarrow> (Inr (), h\<lparr>host_fs := (host_fs h)(p \<mapsto> [])\<rparr>))"

definition file_write :: "string \<Rightarrow> string \<Rightarrow> unit tool" where
  "file_write p text = modify (\<lambda>h. h\<lparr>host_fs := (host_fs h)(p \<mapsto>
     (case host_fs h p of None \<Rightarrow> text | Some old \<Rightarrow> old @ text))\<rparr>)"

definition token_hex :: "nat \<Rightarrow> string tool" where
  "token_hex n = bnd (urandom n) (\<lambda>b. ret (hexlify b))"

section \<open>Laws\<close>

definition can_write :: "host \<Rightarrow> string \<Rightarrow> bool" where
  "can_write h p \<longleftrightarrow> \<not> is_dir h p \<and> parent_error h p = None"

lemma can_write_iff:
  "can_write h p \<longleftrightarrow> p \<noteq> [] \<and> \<not> is_dir h p \<and> (dirname p = [] \<or> is_dir h (dirname p))"
  by (auto simp: can_write_def parent_error_def)

lemma open_w_ok: "can_write h p \<Longrightarrow> open_w p h = (Inr (), h\<lparr>host_fs := (host_fs h)(p \<mapsto> [])\<rparr>)"
  by (simp add: can_write_def open_w_def)

lemma seq_open_w: "can_write h p \<Longrightarrow> seq (open_w p) k h = k (h\<lparr>host_fs := (host_fs h)(p \<mapsto> [])\<rparr>)"
  by (simp add: seq_def bnd_def open_w_ok)

lemma open_w_refused: "\<not> can_write h p \<Longrightarrow> \<exists>e. open_w p h = (Inl e, h)"
  by (auto simp: can_write_def open_w_def split: option.split)

lemma seq_print [simp]: "seq (py_print l) k h = k (h\<lparr>stdout := stdout h @ [l]\<rparr>)"
  by (simp add: py_print_def)

lemma seq_write [simp]: "seq (file_write p t) k h = k (h\<lparr>host_fs := (host_fs h)(p \<mapsto>
    (case host_fs h p of None \<Rightarrow> t | Some old \<Rightarrow> old @ t))\<rparr>)"
  by (simp add: file_write_def)

lemma file_write_eq: "file_write p t h = (Inr (), h\<lparr>host_fs := (host_fs h)(p \<mapsto>
    (case host_fs h p of None \<Rightarrow> t | Some old \<Rightarrow> old @ t))\<rparr>)"
  by (simp add: file_write_def modify_def)

text \<open>A file that receives one indented dump holds the value.\<close>

lemma pretty_read_back:
  assumes "json_plain v" and "can_write h path"
  shows "\<exists>t. seq (open_w path) (bnd (lift (pretty 0 v)) (\<lambda>text. file_write path text)) h
      = (Inr (), h\<lparr>host_fs := (host_fs h)(path \<mapsto> t)\<rparr>) \<and> loads t = Inr v"
proof -
  obtain t where t: "pretty 0 v = Inr t" using pretty_plain [OF assms(1)] by blast
  have "jval (2 * length t + 2) (t @ []) = Inr (v, [])"
    by (rule reads_pretty(1) [OF t assms(1)]) (simp_all add: json_delim_def)
  then have "loads t = Inr v"
    using lead_skip_append [OF pretty_lead [OF t assms(1)], of "[]"] by (simp add: loads_def skip_ws_def)
  then show ?thesis using t by (auto simp: seq_open_w [OF assms(2)] file_write_eq)
qed

lemma print_lines_eq: "print_lines ls h = (Inr (), h\<lparr>stdout := stdout h @ ls\<rparr>)"
  by (induction ls arbitrary: h) (simp_all add: ret_def)

text \<open>On ASCII text the code points are the characters.\<close>

lemma str_len_ascii: "ascii s \<Longrightarrow> str_len s = length s"
  by (simp add: str_len_def utf8_cps_ascii)

lemma str_take_ascii:
  assumes "ascii s"
  shows "str_take n s = take n s"
proof -
  have "concat (map utf8_encode (map of_char t)) = t" if "ascii t" for t :: string
    using that by (induction t) (auto simp: utf8_encode_def)
  moreover have "ascii (take n s)" using assms by (auto simp: ascii_def dest: in_set_takeD)
  ultimately show ?thesis by (simp add: str_take_def utf8_cps_ascii [OF assms] take_map)
qed

lemma given_Some [simp]: "given (Some s) \<longleftrightarrow> s \<noteq> []" "\<not> given None"
  by (simp_all add: given_def)

lemma or_default_simps [simp]: "or_default None d = d" "or_default (Some s) d = (if s = [] then d else s)"
  by (simp_all add: or_default_def)

text \<open>A bare file name has no directory.\<close>

lemma dirname_bare: "CHR ''/'' \<notin> set p \<Longrightarrow> dirname p = []"
proof -
  assume "CHR ''/'' \<notin> set p"
  then have "dropWhile (\<lambda>c. c \<noteq> CHR ''/'') (rev p) = []" by (auto simp: dropWhile_eq_Nil_conv)
  then show ?thesis by (simp only: dirname_def rstrip_slash_def Let_def rev.simps dropWhile.simps simp_thms if_True)
qed

lemma makedirs_empty: "host_dirs h = ds \<Longrightarrow> [] \<notin> set ds \<Longrightarrow> makedirs [] h = (Inl (LibRaised FileNotFoundKind), h)"
  by (simp add: makedirs.simps [of "[]"] dirname_bare is_dir_def os_mkdir_def parent_error_def)

lemma makedirs_there: "is_dir h p \<Longrightarrow> path_exists h (dirname p) \<or> dirname p = [] \<Longrightarrow> makedirs p h = (Inr (), h)"
  by (auto simp: makedirs.simps [of p])

end
