(* ===== verification/Register_Tool.thy ===== *)
theory Register_Tool
  imports Tool_Host Rot_Laws
begin

text \<open>
  \<open>smg_primary_server/tools/register_puf_node.py\<close>: the tool that adds a device to the registry of
  the root-of-trust service, lists the registry and removes entries. \<open>pr\<close> is the interpreter's
  Unicode table (see \<open>Pytext\<close>). A registry read from JSON holds no bytes, so writing it back does not
  fail half way.
\<close>

definition ROT_PUBKEY_HEX_LEN :: nat where "ROT_PUBKEY_HEX_LEN = 65 * 2"

record register_args =
  arg_registry :: string
  arg_server_identity :: string
  arg_id_a :: "string option"
  arg_pk_a :: "string option"
  arg_label :: "string option"
  arg_shs_b :: "string option"
  arg_remove :: "string option"
  arg_list :: bool

section \<open>The registry file\<close>

definition load :: "string \<Rightarrow> pyval tool" where
  "load path = bnd (isfile path) (\<lambda>found. if \<not> found then ret (PDict []) else json_load path)"

definition save :: "string \<Rightarrow> pyval \<Rightarrow> unit tool" where
  "save path registry =
     seq (open_w path)
     (bnd (lift (dump_sorted registry)) (\<lambda>text.
     seq (file_write path text)
     (file_write path [CHR 0x0A])))"

definition read_id_b :: "string \<Rightarrow> pyval tool" where
  "read_id_b path = bnd (isfile path) (\<lambda>found. if \<not> found then ret PNone
     else bnd (json_load path) (\<lambda>v. lift (get_or ''id_b'' PNone v)))"

section \<open>Listing and removing\<close>

text \<open>\<open>v[:16]\<close>\<close>

fun head16 :: "pyval \<Rightarrow> exc + pyval" where
  "head16 (PStr s) = Inr (PStr (str_take 16 s))"
| "head16 (PList vs) = Inr (PList (take 16 vs))"
| "head16 (PBytes b) = Inr (PBytes (take 16 b))"
| "head16 _ = Inl type_error"

definition list_line :: "(nat \<Rightarrow> bool) \<Rightarrow> string \<Rightarrow> pyval \<Rightarrow> exc + string" where
  "list_line pr id_a_hex entry =
     rbind (get_or ''label'' (PStr ''?'') entry) (\<lambda>label.
     rbind (rbind (get_or ''pk_a'' (PStr ''?'') entry) head16) (\<lambda>pk.
     rbind (rbind (get_or ''shs_b'' (PStr ''?'') entry) head16) (\<lambda>shs.
     Inr (id_a_hex @ ''  label='' @ py_str pr label @ ''  pk_a='' @ py_str pr pk @ ''...  shs_b=''
       @ py_str pr shs @ ''...''))))"

fun list_entries :: "(nat \<Rightarrow> bool) \<Rightarrow> (string \<times> pyval) list \<Rightarrow> unit tool" where
  "list_entries pr [] = ret ()"
| "list_entries pr ((k, entry) # d) =
     bnd (lift (list_line pr k entry)) (\<lambda>line. seq (py_print line) (list_entries pr d))"

definition list_registry :: "(nat \<Rightarrow> bool) \<Rightarrow> pyval \<Rightarrow> unit tool" where
  "list_registry pr registry =
     seq (if \<not> py_true registry then py_print ''(empty registry)'' else ret ())
     (case registry of PDict d \<Rightarrow> list_entries pr d | _ \<Rightarrow> raise attribute_error)"

text \<open>\<open>k in registry\<close> of a dict, a list or a string; and \<open>del registry[k]\<close>.\<close>

fun py_contains :: "string \<Rightarrow> pyval \<Rightarrow> exc + bool" where
  "py_contains k (PDict d) = Inr (map_of d k \<noteq> None)"
| "py_contains k (PList vs) = Inr (PStr k \<in> set vs)"
| "py_contains k (PStr s) = Inr (\<exists>i \<in> set [0..<Suc (length s)]. take (length k) (drop i s) = k)"
| "py_contains k _ = Inl type_error"

fun del_item :: "string \<Rightarrow> pyval \<Rightarrow> exc + pyval" where
  "del_item k (PDict d) = (if map_of d k = None then Inl (key_error k) else Inr (PDict (dict_del k d)))"
| "del_item k _ = Inl type_error"

definition remove_entry :: "string \<Rightarrow> string \<Rightarrow> pyval \<Rightarrow> unit tool" where
  "remove_entry path id_a registry =
     bnd (lift (py_contains id_a registry)) (\<lambda>found.
     if found then
       bnd (lift (del_item id_a registry)) (\<lambda>registry'.
       seq (save path registry')
       (py_print (''Removed '' @ id_a)))
     else py_print (''Not found: '' @ id_a))"

section \<open>Registering\<close>

definition node_registration :: "string \<Rightarrow> string \<Rightarrow> string \<Rightarrow> pyval" where
  "node_registration pk_a shs_b label =
     PDict [(''pk_a'', PStr pk_a), (''shs_b'', PStr shs_b), (''label'', PStr label)]"

definition choose_verifier :: "string option \<Rightarrow> string tool" where
  "choose_verifier a =
     (if given a then
        (if str_len (the a) \<noteq> ROT_DIGEST_LEN * 2 then ap_error ''--shs-b must be 64 hex chars (32 bytes)''
         else ret (the a))
      else token_hex ROT_DIGEST_LEN)"

definition next_step_lines :: "(nat \<Rightarrow> bool) \<Rightarrow> pyval \<Rightarrow> string \<Rightarrow> string \<Rightarrow> string list" where
  "next_step_lines pr id_b_hex shs_b_hex label =
     ['''',
      ''Next: pin this node's own V_B (shs_b) into its NVS image. Run on the device-side'',
      ''host (smg_puf_rot_node/tools/):''] @
     (if py_true id_b_hex then
        [''  python provision_server_ref.py --id-b '' @ py_str pr id_b_hex @ '' --shs-b '' @ shs_b_hex
           @ '' --out-bin '' @ label @ ''_server_ref_nvs.bin'']
      else
        [''  python provision_server_ref.py   # establishes id_b first, if not done yet'',
         ''  python provision_server_ref.py --id-b <id_b from above> --shs-b '' @ shs_b_hex
           @ '' --out-bin '' @ label @ ''_server_ref_nvs.bin''])"

definition register_node :: "(nat \<Rightarrow> bool) \<Rightarrow> register_args \<Rightarrow> pyval \<Rightarrow> unit tool" where
  "register_node pr args registry =
     (if \<not> given (arg_id_a args) \<or> \<not> given (arg_pk_a args)
      then ap_error ''--id-a and --pk-a are required (or use --list / --remove)''
      else
        let id_a = the (arg_id_a args); pk_a = the (arg_pk_a args);
            label = or_default (arg_label args) (str_take 8 id_a) in
        if str_len id_a \<noteq> 32 then ap_error ''--id-a must be 32 hex chars (16 bytes)''
        else if str_len pk_a \<noteq> ROT_PUBKEY_HEX_LEN \<or> str_take 2 pk_a \<noteq> ''04''
        then ap_error ''--pk-a must be 130 hex chars (65-byte uncompressed SECP256R1 point, starting with 04)''
        else
        bnd (choose_verifier (arg_shs_b args)) (\<lambda>shs_b_hex.
        bnd (lift (set_item id_a (node_registration pk_a shs_b_hex label) registry)) (\<lambda>registry'.
        seq (save (arg_registry args) registry')
        (seq (py_print (''Registered '' @ id_a @ '' -> label='' @ label @ '', pk_a='' @ str_take 16 pk_a
                @ ''..., shs_b='' @ str_take 16 shs_b_hex @ ''...''))
        (seq (py_print (''Wrote: '' @ arg_registry args))
        (bnd (read_id_b (arg_server_identity args)) (\<lambda>id_b_hex.
         print_lines (next_step_lines pr id_b_hex shs_b_hex label))))))))"

definition register_main :: "(nat \<Rightarrow> bool) \<Rightarrow> register_args \<Rightarrow> unit tool" where
  "register_main pr args =
     bnd (load (arg_registry args)) (\<lambda>registry.
     if arg_list args then list_registry pr registry
     else if given (arg_remove args) then remove_entry (arg_registry args) (the (arg_remove args)) registry
     else register_node pr args registry)"

section \<open>The registry file and the service\<close>

text \<open>What the service loads is what the tool loads.\<close>

lemma load_is_service: "load path h = (load_node_registry (host_fs h) path, h)"
  by (simp add: load_def isfile_def json_load_def load_node_registry_def ret_def bnd_gets bnd_getr getr_def)

lemma save_ok:
  assumes "can_write h path" and "json_plain v"
  shows "\<exists>t. save path v h = (Inr (), h\<lparr>host_fs := (host_fs h)(path \<mapsto> t)\<rparr>)
    \<and> loads t = Inr (sort_keys v)"
proof -
  obtain t where t: "dump_sorted v = Inr t" "loads (t @ [CHR 0x0A]) = Inr (sort_keys v)"
    using loads_dump_sorted [OF assms(2)] by blast
  then show ?thesis
    by (intro exI [of _ "t @ [CHR 0x0A]"])
      (simp add: save_def open_w_ok [OF assms(1)] seq_Inr file_write_eq)
qed

lemma save_loads:
  assumes "save path v h = (Inr (), h')" and "can_write h path" and "json_plain v"
  shows "load_node_registry (host_fs h') path = Inr (sort_keys v)"
  using save_ok [OF assms(2,3)] assms(1) by (auto simp: load_node_registry_def read_json_def)

lemma sort_registration: "sort_keys (node_registration p s l)
    = PDict [(''label'', PStr l), (''pk_a'', PStr p), (''shs_b'', PStr s)]"
  unfolding node_registration_def by code_simp

end
