(* ===== verification/Csv.thy ===== *)
theory Csv
  imports Prelude
begin

text \<open>
  \<open>csv.writer(f).writerow(fields)\<close> with the default dialect: fields separated by commas, a field that
  holds a comma, a double quote or a line break put in double quotes with its quotes doubled, and
  every row ended by CR LF. \<open>csv_read\<close> is the reader of that format; it gives back what was written.
\<close>

section \<open>Writing\<close>

definition csv_special :: "char \<Rightarrow> bool" where
  "csv_special c \<longleftrightarrow> c \<in> {CHR '','', CHR 0x22, CHR 0x0D, CHR 0x0A}"

fun double_quotes :: "string \<Rightarrow> string" where
  "double_quotes [] = []"
| "double_quotes (c # s) = (if c = CHR 0x22 then [c, c] else [c]) @ double_quotes s"

definition csv_field :: "string \<Rightarrow> string" where
  "csv_field s = (if list_ex csv_special s then [CHR 0x22] @ double_quotes s @ [CHR 0x22] else s)"

fun csv_fields :: "string list \<Rightarrow> string" where
  "csv_fields [] = []"
| "csv_fields [s] = csv_field s"
| "csv_fields (s # t # ss) = csv_field s @ '','' @ csv_fields (t # ss)"

definition csv_row :: "string list \<Rightarrow> string" where
  \<comment> \<open>a row of one empty field is quoted, so that it is not an empty line\<close>
  "csv_row fs = (if fs = [''''] then [CHR 0x22, CHR 0x22] else csv_fields fs) @ [CHR 0x0D, CHR 0x0A]"

definition csv_text :: "string list list \<Rightarrow> string" where
  "csv_text rows = concat (map csv_row rows)"

section \<open>Reading\<close>

datatype csv_mode = AtStart | Unquoted | Quoted | QuoteSeen

fun csv_read :: "csv_mode \<Rightarrow> string \<Rightarrow> string list \<Rightarrow> string \<Rightarrow> string list list" where
  \<comment> \<open>the field and the row read so far, each reversed\<close>
  "csv_read m f r [] = (if m = AtStart \<and> r = [] then [] else [rev (rev f # r)])"
| "csv_read Quoted f r (c # s) =
     (if c = CHR 0x22 then csv_read QuoteSeen f r s else csv_read Quoted (c # f) r s)"
| "csv_read m f r (c # s) =
     (if c = CHR 0x22 \<and> m = AtStart then csv_read Quoted f r s
      else if c = CHR 0x22 \<and> m = QuoteSeen then csv_read Quoted (c # f) r s
      else if c = CHR '','' then csv_read AtStart [] (rev f # r) s
      else if c = CHR 0x0D then csv_read m f r s
      else if c = CHR 0x0A then rev (rev f # r) # csv_read AtStart [] [] s
      else csv_read Unquoted (c # f) r s)"

definition csv_parse :: "string \<Rightarrow> string list list" where
  "csv_parse s = csv_read AtStart [] [] s"

lemma read_quoted:
  "csv_read Quoted f r (double_quotes s @ CHR 0x22 # t) = csv_read QuoteSeen (rev s @ f) r t"
  by (induction s arbitrary: f) auto

lemma read_unquoted:
  "\<not> list_ex csv_special s \<Longrightarrow> s \<noteq> [] \<Longrightarrow> m = AtStart \<or> m = Unquoted \<Longrightarrow>
   csv_read m f r (s @ t) = csv_read Unquoted (rev s @ f) r t"
proof (induction s arbitrary: f m)
  case (Cons c s)
  then have "csv_read m f r ((c # s) @ t) = csv_read Unquoted (c # f) r (s @ t)"
    by (cases m) (simp_all add: csv_special_def)
  also have "\<dots> = csv_read Unquoted (rev (c # s) @ f) r t"
    using Cons by (cases "s = []") simp_all
  finally show ?case .
qed simp

text \<open>After a field the reader stands at the separator with the field complete, in whatever mode.\<close>

lemma read_field: "\<exists>m. m \<noteq> Quoted \<and> csv_read AtStart [] r (csv_field s @ t) = csv_read m (rev s) r t"
proof (cases "list_ex csv_special s")
  case True
  then have "csv_read AtStart [] r (csv_field s @ t) = csv_read QuoteSeen (rev s) r t"
    by (simp add: csv_field_def read_quoted)
  then show ?thesis by blast
next
  case False
  then show ?thesis
  proof (cases "s = []")
    case True
    then show ?thesis by (intro exI [of _ AtStart]) (simp add: csv_field_def)
  next
    case False
    then show ?thesis
      using read_unquoted [OF \<open>\<not> list_ex csv_special s\<close>, of AtStart "[]" r t] \<open>\<not> list_ex csv_special s\<close>
      by (intro exI [of _ Unquoted]) (simp add: csv_field_def)
  qed
qed

lemma read_sep: "m \<noteq> Quoted \<Longrightarrow> csv_read m f r (CHR '','' # t) = csv_read AtStart [] (rev f # r) t"
  and read_end: "m \<noteq> Quoted \<Longrightarrow> csv_read m f r (CHR 0x0D # CHR 0x0A # t) = rev (rev f # r) # csv_read AtStart [] [] t"
  by (cases m; simp)+

lemma read_fields:
  "ss \<noteq> [] \<Longrightarrow> csv_read AtStart [] r (csv_fields ss @ CHR 0x0D # CHR 0x0A # t)
    = (rev r @ ss) # csv_read AtStart [] [] t"
proof (induction ss arbitrary: r rule: csv_fields.induct)
  case (2 s)
  obtain m where "m \<noteq> Quoted" "csv_read AtStart [] r (csv_field s @ CHR 0x0D # CHR 0x0A # t)
      = csv_read m (rev s) r (CHR 0x0D # CHR 0x0A # t)"
    using read_field by blast
  then show ?case by (simp add: read_end)
next
  case (3 s s' ss)
  obtain m where "m \<noteq> Quoted" "csv_read AtStart [] r (csv_field s @ CHR '','' # csv_fields (s' # ss) @ CHR 0x0D # CHR 0x0A # t)
      = csv_read m (rev s) r (CHR '','' # csv_fields (s' # ss) @ CHR 0x0D # CHR 0x0A # t)"
    using read_field by blast
  then show ?case using "3.IH" [of "s # r"] by (simp add: read_sep)
qed simp

lemma read_row: "ss \<noteq> [] \<Longrightarrow> csv_read AtStart [] [] (csv_row ss @ t) = ss # csv_read AtStart [] [] t"
  using read_fields [of ss "[]" t] by (simp add: csv_row_def)

lemma csv_parse_text: "\<forall>ss \<in> set rows. ss \<noteq> [] \<Longrightarrow> csv_parse (csv_text rows) = rows"
  by (induction rows) (simp_all add: csv_parse_def csv_text_def read_row)

end
