(* ===== verification/Provision_Tool.thy ===== *)
theory Provision_Tool
  imports Tool_Host Csv Rot_Laws
begin

text \<open>
  \<open>smg_puf_rot_node/tools/provision_server_ref.py\<close>: the tool that pins the server's identity, the
  node's verifier and, if given, its own identity and WiFi credentials into an image for the
  node's flash, and writes the identity file of the service. What the machine looks like is the
  record \<open>idf_env\<close>; the ESP-IDF generator is the parameter \<open>gen\<close>: a program that, given its
  command line and the files, ends with a status, two texts and new files, or cannot be started.
\<close>

definition PROV_ID_LEN :: nat where "PROV_ID_LEN = 16"
definition PROV_DIGEST_LEN :: nat where "PROV_DIGEST_LEN = 32"
definition NVS_PARTITION_OFFSET :: string where "NVS_PARTITION_OFFSET = ''0x9000''"
definition NVS_PARTITION_SIZE :: int where "NVS_PARTITION_SIZE = 0x50000"

definition backslash :: string where "backslash = [CHR 0x5C]"

definition IDF_PYTHON_CANDIDATES :: "string list" where
  "IDF_PYTHON_CANDIDATES =
     map (\<lambda>v. ''C:'' @ backslash @ ''Espressif'' @ backslash @ ''tools'' @ backslash @ ''python'' @ backslash @ v
       @ backslash @ ''venv'' @ backslash @ ''Scripts'' @ backslash @ ''python.exe'') [''v5.4.2'', ''v6.0.1'']"

record idf_env =
  env_idf_path :: "string option"   \<comment> \<open>\<open>os.environ.get("IDF_PATH")\<close>\<close>
  esp_listing :: "string list option"   \<comment> \<open>\<open>os.listdir\<close> of \<open>C:\esp\<close>, if it is a directory\<close>
  sys_executable :: string
  tmp_dir :: string   \<comment> \<open>what \<open>tempfile.mkdtemp\<close> makes\<close>
  project_root :: string

type_synonym generator = "string list \<Rightarrow> files \<Rightarrow> (exc + int \<times> string \<times> string) \<times> files"

record provision_args =
  parg_id_b :: "string option"
  parg_shs_b :: "string option"
  parg_id_a :: "string option"
  parg_wifi_ssid :: "string option"
  parg_wifi_pass :: "string option"
  parg_out_bin :: string
  parg_server_identity :: string
  parg_idf_python :: "string option"
  parg_keep_csv :: bool

section \<open>Finding the generator\<close>

definition path_joins :: "string \<Rightarrow> string list \<Rightarrow> string" where
  "path_joins a bs = foldl path_join a bs"

definition gen_candidates :: "idf_env \<Rightarrow> string list" where
  "gen_candidates env =
     (if given (env_idf_path env) then [the (env_idf_path env)] else [])
     @ (case esp_listing env of None \<Rightarrow> []
        | Some entries \<Rightarrow> map (\<lambda>e. path_joins (''C:'' @ backslash @ ''esp'') [e, ''esp-idf'']) entries)"

fun first_file :: "files \<Rightarrow> string list \<Rightarrow> string option" where
  "first_file fs [] = None"
| "first_file fs (p # ps) = (if fs p \<noteq> None then Some p else first_file fs ps)"

definition find_nvs_partition_gen :: "idf_env \<Rightarrow> files \<Rightarrow> string option" where
  "find_nvs_partition_gen env fs =
     first_file fs (map (\<lambda>c. path_joins c [''components'', ''nvs_flash'', ''nvs_partition_generator'',
       ''nvs_partition_gen.py'']) (gen_candidates env))"

definition find_idf_python :: "idf_env \<Rightarrow> files \<Rightarrow> string option \<Rightarrow> string" where
  "find_idf_python env fs explicit =
     (if given explicit then the explicit
      else case first_file fs IDF_PYTHON_CANDIDATES of Some c \<Rightarrow> c | None \<Rightarrow> sys_executable env)"

section \<open>The image\<close>

definition nvs_rows :: "string \<Rightarrow> string \<Rightarrow> string option \<Rightarrow> string option \<Rightarrow> string option \<Rightarrow> string list list" where
  "nvs_rows id_b_hex shs_b_hex wifi_ssid wifi_pass id_a_hex =
     [[''key'', ''type'', ''encoding'', ''value''],
      [''rot_identity'', ''namespace'', '''', ''''],
      [''id_b'', ''data'', ''hex2bin'', id_b_hex],
      [''shs_b_ref'', ''data'', ''hex2bin'', shs_b_hex]]
     @ (case id_a_hex of None \<Rightarrow> [] | Some a \<Rightarrow> [[''id_a'', ''data'', ''hex2bin'', a]])
     @ (case (wifi_ssid, wifi_pass) of
          (Some ssid, Some pass) \<Rightarrow>
            [[''wifi_creds'', ''namespace'', '''', ''''], [''ssid'', ''data'', ''string'', ssid],
             [''pass'', ''data'', ''string'', pass]]
        | _ \<Rightarrow> [])"

fun write_rows :: "string \<Rightarrow> string list list \<Rightarrow> unit tool" where
  "write_rows p [] = ret ()"
| "write_rows p (r # rs) = seq (file_write p (csv_row r)) (write_rows p rs)"

definition write_nvs_csv ::
  "string \<Rightarrow> string \<Rightarrow> string \<Rightarrow> string option \<Rightarrow> string option \<Rightarrow> string option \<Rightarrow> unit tool" where
  "write_nvs_csv csv_path id_b_hex shs_b_hex wifi_ssid wifi_pass id_a_hex =
     seq (open_w csv_path) (write_rows csv_path (nvs_rows id_b_hex shs_b_hex wifi_ssid wifi_pass id_a_hex))"

definition generate_nvs_image ::
  "generator \<Rightarrow> string \<Rightarrow> string \<Rightarrow> string \<Rightarrow> string \<Rightarrow> int \<Rightarrow> (int \<times> string \<times> string) tool" where
  "generate_nvs_image gen script idf_python csv_path out_bin sz = (\<lambda>h.
     case gen [idf_python, script, ''generate'', csv_path, out_bin, int_str sz] (host_fs h) of
       (r, fs') \<Rightarrow> (r, h\<lparr>host_fs := fs'\<rparr>))"

section \<open>The tool\<close>

definition provision_refusal :: "provision_args \<Rightarrow> string \<Rightarrow> string \<Rightarrow> string option" where
  \<comment> \<open>the first check of the arguments that fails\<close>
  "provision_refusal args id_b_hex shs_b_hex =
     (if str_len id_b_hex \<noteq> PROV_ID_LEN * 2 then Some ''--id-b must be 32 hex chars (16 bytes)''
      else if str_len shs_b_hex \<noteq> PROV_DIGEST_LEN * 2 then Some ''--shs-b must be 64 hex chars (32 bytes)''
      else if parg_id_a args \<noteq> None \<and> str_len (the (parg_id_a args)) \<noteq> PROV_ID_LEN * 2
      then Some ''--id-a must be 32 hex chars (16 bytes)''
      else if given (parg_wifi_ssid args) \<noteq> given (parg_wifi_pass args)
      then Some ''--wifi-ssid and --wifi-pass must be given together''
      else if given (parg_wifi_ssid args) \<and> length (str_bytes (the (parg_wifi_ssid args))) > 32
      then Some ''--wifi-ssid must fit in 32 bytes (WiFi SSID limit)''
      else if given (parg_wifi_pass args) \<and> length (str_bytes (the (parg_wifi_pass args))) > 64
      then Some ''--wifi-pass must fit in 64 bytes (WPA2 passphrase limit)''
      else None)"

definition or_token :: "string option \<Rightarrow> nat \<Rightarrow> string tool" where
  \<comment> \<open>\<open>a or secrets.token_hex(n)\<close>\<close>
  "or_token a n = (if given a then ret (the a) else token_hex n)"

definition write_identity :: "string \<Rightarrow> string \<Rightarrow> unit tool" where
  "write_identity path id_b_hex =
     seq (makedirs (dirname path))
     (seq (open_w path)
     (bnd (lift (pretty 0 (PDict [(''id_b'', PStr id_b_hex)]))) (\<lambda>text.
     seq (file_write path text)
     (file_write path [CHR 0x0A]))))"

definition shutil_copy :: "string \<Rightarrow> string \<Rightarrow> unit tool" where
  "shutil_copy src dst =
     bnd (getr (\<lambda>h. case host_fs h src of None \<Rightarrow> Inl (LibRaised FileNotFoundKind) | Some t \<Rightarrow> Inr t)) (\<lambda>text.
     seq (open_w dst) (file_write dst text))"

definition getsize :: "string \<Rightarrow> nat tool" where
  "getsize p = getr (\<lambda>h. case host_fs h p of None \<Rightarrow> Inl (LibRaised FileNotFoundKind) | Some t \<Rightarrow> Inr (length t))"

definition keep_csv :: "idf_env \<Rightarrow> provision_args \<Rightarrow> string \<Rightarrow> unit tool" where
  "keep_csv env args csv_path =
     (if parg_keep_csv args then
        let kept = path_join (project_root env) ''server_ref.csv'' in
        seq (shutil_copy csv_path kept) (py_print (''NVS CSV kept at: '' @ kept))
      else ret ())"

definition report_lines :: "provision_args \<Rightarrow> string \<Rightarrow> string \<Rightarrow> nat \<Rightarrow> string list" where
  "report_lines args id_b_hex shs_b_hex n =
     [''Generated NVS partition image: '' @ parg_out_bin args @ '' ('' @ int_str (int n) @ '' bytes)'',
      ''Wrote server identity (id_b only) for RPi4 counterpart: '' @ parg_server_identity args,
      '''',
      ''id_b         = '' @ id_b_hex @ '' (fleet-wide, same for every node)'',
      ''shs_b_ref    = '' @ shs_b_hex @ '' (THIS node's own V_B)'']
     @ (if given (parg_id_a args) then [''id_a         = '' @ the (parg_id_a args) @ '' (THIS node's own ID_A)''] else [])
     @ (if given (parg_wifi_ssid args) then
          [''wifi_ssid    = '' @ the (parg_wifi_ssid args) @ '' (fleet-wide, same for every node)'',
           ''wifi_pass    = <provisioned, not printed>'']
        else
          [''WiFi credentials NOT provisioned in this image -- run again with --wifi-ssid/--wifi-pass (can reuse the same --id-b/--shs-b) before this node can connect, or run a separate pass once and reflash just the NVS image.''])
     @ ['''',
        ''NOT executed (requires a connected ESP32 -- run manually once hardware is'',
        ''available, after erasing/flashing the rest of the firmware as usual):'',
        ''    esptool.py --chip esp32 --port COMx write_flash '' @ NVS_PARTITION_OFFSET @ '' '' @ parg_out_bin args]"

definition provision_finish ::
  "idf_env \<Rightarrow> provision_args \<Rightarrow> string \<Rightarrow> string \<Rightarrow> string \<Rightarrow> int \<times> string \<times> string \<Rightarrow> unit tool" where
  \<comment> \<open>what follows the generator\<close>
  "provision_finish env args id_b_hex shs_b_hex csv_path = (\<lambda>(returncode, out, er).
     if returncode \<noteq> 0 then
       seq (print_err ''ERROR: nvs_partition_gen.py failed:'')
       (seq (print_err out)
       (seq (print_err er)
       (sys_exit 1)))
     else
       seq (write_identity (parg_server_identity args) id_b_hex)
       (seq (keep_csv env args csv_path)
       (bnd (getsize (parg_out_bin args)) (\<lambda>size.
        print_lines (report_lines args id_b_hex shs_b_hex size)))))"

definition provision_main :: "generator \<Rightarrow> idf_env \<Rightarrow> provision_args \<Rightarrow> unit tool" where
  "provision_main gen env args =
     bnd (or_token (parg_id_b args) PROV_ID_LEN) (\<lambda>id_b_hex.
     bnd (or_token (parg_shs_b args) PROV_DIGEST_LEN) (\<lambda>shs_b_hex.
     case provision_refusal args id_b_hex shs_b_hex of
       Some message \<Rightarrow> ap_error message
     | None \<Rightarrow>
       bnd (gets (\<lambda>h. find_nvs_partition_gen env (host_fs h))) (\<lambda>nvs_gen_script.
       case nvs_gen_script of
         None \<Rightarrow>
           seq (print_err (''ERROR: could not find nvs_partition_gen.py under any local ESP-IDF install (checked $IDF_PATH and C:''
                  @ backslash @ ''esp'' @ backslash @ ''*'' @ backslash
                  @ ''esp-idf). Install ESP-IDF or pass IDF_PATH explicitly.''))
           (sys_exit 1)
       | Some script \<Rightarrow>
         bnd (gets (\<lambda>h. find_idf_python env (host_fs h) (parg_idf_python args))) (\<lambda>idf_python.
         let csv_path = path_join (tmp_dir env) ''server_ref.csv'' in
         seq (modify (\<lambda>h. h\<lparr>host_dirs := tmp_dir env # host_dirs h\<rparr>))
         (seq (write_nvs_csv csv_path id_b_hex shs_b_hex (parg_wifi_ssid args) (parg_wifi_pass args) (parg_id_a args))
         (bnd (generate_nvs_image gen script idf_python csv_path (parg_out_bin args) NVS_PARTITION_SIZE)
           (provision_finish env args id_b_hex shs_b_hex csv_path)))))))"

end
