(* ===== verification/Tool_Laws.thy ===== *)
theory Tool_Laws
  imports Register_Tool Provision_Tool Rot_Device
begin

text \<open>
  What the two tools leave in the files: the registry after a registration, the rows handed to the
  ESP-IDF generator, the identity file. Nothing is assumed of the generator in general: \<open>image_built\<close>
  says of one run that it ended with status 0 and wrote the image file and no other.
\<close>

section \<open>Writing files\<close>

lemma is_dir_fs [simp]: "is_dir (h\<lparr>host_fs := f\<rparr>) = is_dir h" "is_dir (h\<lparr>stdout := l\<rparr>) = is_dir h"
  "is_dir (h\<lparr>entropy_pos := n\<rparr>) = is_dir h"
  by (simp_all add: is_dir_def fun_eq_iff)

lemma can_write_fs [simp]: "can_write (h\<lparr>host_fs := f\<rparr>) = can_write h"
  "can_write (h\<lparr>stdout := l\<rparr>) = can_write h" "can_write (h\<lparr>entropy_pos := n\<rparr>) = can_write h"
  by (simp_all add: can_write_iff fun_eq_iff)

lemma is_dir_more: "is_dir h p \<Longrightarrow> is_dir (h\<lparr>host_dirs := d # host_dirs h\<rparr>) p"
  by (auto simp: is_dir_def)

lemma write_rows_eq:
  "host_fs h p = Some t \<Longrightarrow> write_rows p rs h = (Inr (), h\<lparr>host_fs := (host_fs h)(p \<mapsto> t @ csv_text rs)\<rparr>)"
proof (induction rs arbitrary: h t)
  case (Cons r rs)
  let ?h = "h\<lparr>host_fs := (host_fs h)(p \<mapsto> t @ csv_row r)\<rparr>"
  have "write_rows p (r # rs) h = write_rows p rs ?h" using Cons.prems by simp
  also have "\<dots> = (Inr (), ?h\<lparr>host_fs := (host_fs ?h)(p \<mapsto> (t @ csv_row r) @ csv_text rs)\<rparr>)"
    by (rule Cons.IH) simp
  also have "(host_fs ?h)(p \<mapsto> (t @ csv_row r) @ csv_text rs) = (host_fs h)(p \<mapsto> t @ csv_text (r # rs))"
    by (simp add: csv_text_def)
  finally show ?case by simp
next
  case Nil
  then have "(host_fs h)(p \<mapsto> t) = host_fs h" by (simp add: fun_upd_idem)
  then show ?case by (simp add: ret_def csv_text_def)
qed

lemma write_nvs_csv_ok:
  assumes "can_write h p"
  shows "write_nvs_csv p b v ssid pass a h
    = (Inr (), h\<lparr>host_fs := (host_fs h)(p \<mapsto> csv_text (nvs_rows b v ssid pass a))\<rparr>)"
  using write_rows_eq [of "h\<lparr>host_fs := (host_fs h)(p \<mapsto> [])\<rparr>" p "[]"]
  by (simp add: write_nvs_csv_def seq_open_w [OF assms])

lemma nvs_rows_parse: "csv_parse (csv_text (nvs_rows b v ssid pass a)) = nvs_rows b v ssid pass a"
  by (rule csv_parse_text) (auto simp: nvs_rows_def split: option.splits)

text \<open>The identity file reads back as the identity.\<close>

definition dir_ready :: "host \<Rightarrow> string \<Rightarrow> bool" where
  "dir_ready h p \<longleftrightarrow> is_dir h (dirname p)
     \<and> (dirname (dirname p) = [] \<or> is_dir h (dirname (dirname p)))"

lemma write_identity_ok:
  assumes "can_write h p" and "dir_ready h p" and "length idb = 16"
  shows "\<exists>t. write_identity p (hexlify idb) h = (Inr (), h\<lparr>host_fs := (host_fs h)(p \<mapsto> t)\<rparr>)
    \<and> loads t = Inr (PDict [(''id_b'', PStr (hexlify idb))])"
proof -
  let ?v = "PDict [(''id_b'', PStr (hexlify idb))]"
  have plain: "json_plain ?v" by simp
  obtain t where t: "pretty 0 ?v = Inr t" using pretty_plain [OF plain] by blast
  have "makedirs (dirname p) h = (Inr (), h)"
    using assms(2) by (intro makedirs_there) (auto simp: dir_ready_def path_exists_def)
  then show ?thesis
    using t loads_pretty [OF t plain]
    by (intro exI [of _ "t @ [CHR 0x0A]"])
      (simp add: write_identity_def seq_Inr [where m = "makedirs q" for q] seq_open_w [OF assms(1)]
        file_write_eq del: pretty.simps)
qed

lemma write_identity_loads:
  "length idb = 16 \<Longrightarrow> fs p = Some t \<Longrightarrow> loads t = Inr (PDict [(''id_b'', PStr (hexlify idb))]) \<Longrightarrow>
   load_server_identity fs p = Inr idb"
  by (simp add: load_server_identity_def read_json_def hex_to_bin_hexlify ROT_ID_LEN_def)

section \<open>Registering\<close>

definition register_call :: "register_args \<Rightarrow> host \<Rightarrow> bytes \<Rightarrow> bytes \<Rightarrow> bytes \<Rightarrow> bool" where
  \<comment> \<open>a call that registers device \<open>ida\<close> with the uncompressed point \<open>pk\<close> and verifier \<open>shs\<close>\<close>
  "register_call args h ida pk shs \<longleftrightarrow>
     \<not> arg_list args \<and> \<not> given (arg_remove args)
     \<and> arg_id_a args = Some (hexlify ida) \<and> length ida = 16
     \<and> arg_pk_a args = Some (hexlify pk) \<and> length pk = 65 \<and> hd pk = 4
     \<and> (if given (arg_shs_b args) then arg_shs_b args = Some (hexlify shs) \<and> length shs = 32 else shs = draw h 0 32)
     \<and> ascii (or_default (arg_label args) [])"

lemma choose_verifier_ok:
  "register_call args h ida pk shs \<Longrightarrow> \<exists>n. choose_verifier (arg_shs_b args) h = (Inr (hexlify shs), h\<lparr>entropy_pos := n\<rparr>)"
  by (auto simp: register_call_def choose_verifier_def ROT_DIGEST_LEN_def str_len_ascii token_hex_def bnd_urandom
      ret_def intro: exI [of _ "entropy_pos h"] split: if_splits)

lemma read_id_b_state: "\<exists>q. read_id_b p h = (q, h)"
  by (auto simp: read_id_b_def isfile_def json_load_def ret_def getr_def bnd_def lift_def gets_def split: sum.splits)

lemma hexlify_Nil: "hexlify b = [] \<longleftrightarrow> b = []"
  by (cases b) (simp_all add: hex_of_byte_def)

lemma hex_04:
  assumes "length pk = 65" and "hd pk = (4 :: byte)"
  shows "str_take 2 (hexlify pk) = ''04''" "str_len (hexlify pk) = ROT_PUBKEY_HEX_LEN"
proof -
  obtain r where pk: "pk = 4 # r" using assms by (cases pk) auto
  have "hex_of_byte (4 :: byte) = ''04''" by code_simp
  then show "str_take 2 (hexlify pk) = ''04''" using pk by (simp add: str_take_ascii)
  show "str_len (hexlify pk) = ROT_PUBKEY_HEX_LEN" using assms(1) by (simp add: str_len_ascii ROT_PUBKEY_HEX_LEN_def)
qed

lemma ascii_or_default: "ascii (or_default a []) \<Longrightarrow> ascii d \<Longrightarrow> ascii (or_default a d)"
  by (cases a) auto

lemma plain_dict_set:
  "json_plain_members d \<Longrightarrow> ascii k \<Longrightarrow> json_plain v \<Longrightarrow> json_plain_members (dict_set k v d)"
  by (induction k v d rule: dict_set.induct) auto

text \<open>
  The registry after the call; what is printed depends on the identity file, and so does the result,
  which is an exception only if that file does not hold a JSON object.
\<close>

lemma register_main_ok:
  assumes call: "register_call args h ida pk shs"
    and reg: "load_node_registry (host_fs h) (arg_registry args) = Inr (PDict d)" and plain: "json_plain (PDict d)"
    and w: "can_write h (arg_registry args)"
  shows "\<exists>r h' t label. register_main pr args h = (r, h')
    \<and> host_fs h' = (host_fs h)(arg_registry args \<mapsto> t)
    \<and> loads t = Inr (PDict (sort_members (dict_set (hexlify ida) (node_registration (hexlify pk) (hexlify shs) label) d)))
    \<and> dict_ok (dict_set (hexlify ida) (node_registration (hexlify pk) (hexlify shs) label) d)
    \<and> (case fst (read_id_b (arg_server_identity args) h') of Inl e \<Rightarrow> r = Inl e | Inr v \<Rightarrow> r = Inr ())"
proof -
  define label where "label = or_default (arg_label args) (str_take 8 (hexlify ida))"
  define new where "new = dict_set (hexlify ida) (node_registration (hexlify pk) (hexlify shs) label) d"
  obtain n where cv: "choose_verifier (arg_shs_b args) h = (Inr (hexlify shs), h\<lparr>entropy_pos := n\<rparr>)"
    using choose_verifier_ok [OF call] by blast
  have ids: "arg_id_a args = Some (hexlify ida)" "arg_pk_a args = Some (hexlify pk)"
    "str_len (hexlify ida) = 32" and pk: "length pk = 65" "hd pk = 4"
    using call by (auto simp: register_call_def str_len_ascii)
  have "ida \<noteq> []" "pk \<noteq> []" using call by (auto simp: register_call_def)
  then have ne: "hexlify ida \<noteq> []" "hexlify pk \<noteq> []" by (simp_all add: hexlify_Nil)
  have "ascii (str_take 8 (hexlify ida))"
    using ascii_hexlify [of ida] by (auto simp: str_take_ascii ascii_def dest: in_set_takeD)
  moreover have "ascii (or_default (arg_label args) [])" using call by (simp only: register_call_def)
  ultimately have "ascii label" unfolding label_def by (intro ascii_or_default [where d = "str_take 8 s" for s])
  then have pn: "json_plain (PDict new)"
    using plain by (simp add: new_def plain_dict_set node_registration_def)
  obtain t where t: "save (arg_registry args) (PDict new) (h\<lparr>entropy_pos := n\<rparr>)
      = (Inr (), h\<lparr>entropy_pos := n, host_fs := (host_fs h)(arg_registry args \<mapsto> t)\<rparr>)"
    "loads t = Inr (sort_keys (PDict new))"
    using save_ok [of "h\<lparr>entropy_pos := n\<rparr>" "arg_registry args" "PDict new"] w pn by auto
  define h1 where "h1 = h\<lparr>entropy_pos := n, host_fs := (host_fs h)(arg_registry args \<mapsto> t),
    stdout := stdout h @ [''Registered '' @ hexlify ida @ '' -> label='' @ label @ '', pk_a='' @ str_take 16 (hexlify pk)
                @ ''..., shs_b='' @ str_take 16 (hexlify shs) @ ''...'', ''Wrote: '' @ arg_registry args]\<rparr>"
  have main: "register_main pr args h = bnd (read_id_b (arg_server_identity args))
      (\<lambda>v. print_lines (next_step_lines pr v (hexlify shs) label)) h1"
    using call reg ids ne hex_04 [OF pk] cv t(1)
    by (simp add: register_main_def bnd_def load_is_service register_call_def register_node_def Let_def lift_def
        seq_Inr [where m = "save p v" for p v] label_def [symmetric] new_def [symmetric] h1_def)
  obtain q where q: "read_id_b (arg_server_identity args) h1 = (q, h1)" using read_id_b_state by blast
  have same: "read_id_b (arg_server_identity args) (h1\<lparr>stdout := l\<rparr>) = (q, h1\<lparr>stdout := l\<rparr>)" for l
    using q by (auto simp: read_id_b_def isfile_def json_load_def ret_def getr_def bnd_def lift_def gets_def
        split: sum.splits if_splits)
  have fs: "host_fs h1 = (host_fs h)(arg_registry args \<mapsto> t)" by (simp add: h1_def)
  have "\<exists>r h'. register_main pr args h = (r, h') \<and> host_fs h' = host_fs h1
    \<and> (case fst (read_id_b (arg_server_identity args) h') of Inl e \<Rightarrow> r = Inl e | Inr v \<Rightarrow> r = Inr ())"
    using main q same by (cases q) (simp_all add: bnd_def print_lines_eq)
  then obtain r h' where "register_main pr args h = (r, h')" "host_fs h' = (host_fs h)(arg_registry args \<mapsto> t)"
    "case fst (read_id_b (arg_server_identity args) h') of Inl e \<Rightarrow> r = Inl e | Inr v \<Rightarrow> r = Inr ()"
    using fs by auto
  moreover have "loads t = Inr (PDict (sort_members new))" "dict_ok new" using t(2) pn by simp_all
  ultimately show ?thesis unfolding new_def by blast
qed

lemma registered_entry:
  assumes "dict_ok new" and "new = dict_set (hexlify ida) (node_registration (hexlify pk) (hexlify shs) label) d"
    and "length pk = 65" and "length shs = 32"
  shows "\<exists>entry. map_of (sort_members new) (hexlify ida) = Some entry
    \<and> hex_field ''pk_a'' 65 entry = Inr pk \<and> hex_field ''shs_b'' 32 entry = Inr shs"
    and "k \<noteq> hexlify ida \<Longrightarrow> map_of (sort_members new) k = map_option sort_keys (map_of d k)"
  using assms by (simp_all add: map_of_sort_members sort_registration hex_field_def hex_to_bin_hexlify)

section \<open>Provisioning\<close>

definition csv_file :: "idf_env \<Rightarrow> string" where
  "csv_file env = path_join (tmp_dir env) ''server_ref.csv''"

definition with_tmp :: "idf_env \<Rightarrow> host \<Rightarrow> host" where
  "with_tmp env h = h\<lparr>host_dirs := tmp_dir env # host_dirs h\<rparr>"

definition provision_base :: "idf_env \<Rightarrow> provision_args \<Rightarrow> host \<Rightarrow> bytes \<Rightarrow> bytes \<Rightarrow> bool" where
  \<comment> \<open>a call with arguments that pass, on a machine that has the generator\<close>
  "provision_base env args h idb shs \<longleftrightarrow>
     parg_id_b args = Some (hexlify idb) \<and> parg_shs_b args = Some (hexlify shs)
     \<and> provision_refusal args (hexlify idb) (hexlify shs) = None
     \<and> find_nvs_partition_gen env (host_fs h) \<noteq> None \<and> can_write (with_tmp env h) (csv_file env)"

definition provision_call :: "idf_env \<Rightarrow> provision_args \<Rightarrow> host \<Rightarrow> bytes \<Rightarrow> bytes \<Rightarrow> bytes \<Rightarrow> bool" where
  \<comment> \<open>such a call that pins the three values and can write the identity file\<close>
  "provision_call env args h ida idb shs \<longleftrightarrow>
     provision_base env args h idb shs \<and> parg_id_a args = Some (hexlify ida) \<and> \<not> parg_keep_csv args
     \<and> can_write (with_tmp env h) (parg_server_identity args) \<and> dir_ready (with_tmp env h) (parg_server_identity args)
     \<and> parg_out_bin args \<noteq> parg_server_identity args"

definition nvs_csv :: "provision_args \<Rightarrow> string \<Rightarrow> string \<Rightarrow> string" where
  "nvs_csv args id_b_hex shs_b_hex =
     csv_text (nvs_rows id_b_hex shs_b_hex (parg_wifi_ssid args) (parg_wifi_pass args) (parg_id_a args))"

definition gen_command :: "idf_env \<Rightarrow> provision_args \<Rightarrow> files \<Rightarrow> string list" where
  "gen_command env args fs = [find_idf_python env fs (parg_idf_python args), the (find_nvs_partition_gen env fs),
     ''generate'', csv_file env, parg_out_bin args, int_str NVS_PARTITION_SIZE]"

definition image_built :: "generator \<Rightarrow> idf_env \<Rightarrow> provision_args \<Rightarrow> host \<Rightarrow> bytes \<Rightarrow> bytes \<Rightarrow> string \<Rightarrow> bool" where
  \<comment> \<open>the run of the generator in this call succeeds, with the image \<open>img\<close>\<close>
  "image_built gen env args h idb shs img \<longleftrightarrow>
     (let fs = (host_fs h)(csv_file env \<mapsto> nvs_csv args (hexlify idb) (hexlify shs)) in
      \<exists>out er. gen (gen_command env args (host_fs h)) fs = (Inr (0, out, er), fs(parg_out_bin args \<mapsto> img)))"

definition pinned_rows :: "bytes \<Rightarrow> bytes \<Rightarrow> bytes \<Rightarrow> string list list" where
  \<comment> \<open>the rows that pin the server, its verifier and the device's identity, under the firmware's namespace\<close>
  "pinned_rows idb shs ida =
     [[''key'', ''type'', ''encoding'', ''value''], [''rot_identity'', ''namespace'', '''', ''''],
      [''id_b'', ''data'', ''hex2bin'', hexlify idb], [''shs_b_ref'', ''data'', ''hex2bin'', hexlify shs],
      [''id_a'', ''data'', ''hex2bin'', hexlify ida]]"

lemma provision_call_lengths:
  assumes "provision_call env args h ida idb shs"
  shows "length idb = 16" "length shs = 32" "length ida = 16"
    "given (parg_wifi_ssid args) = given (parg_wifi_pass args)"
    "parg_wifi_ssid args = Some s \<Longrightarrow> length s \<le> 32" "parg_wifi_pass args = Some p \<Longrightarrow> length p \<le> 64"
  using assms
  by (auto simp: provision_call_def provision_base_def provision_refusal_def PROV_ID_LEN_def PROV_DIGEST_LEN_def str_len_ascii
      given_def split: if_splits option.splits)

lemma or_token_given: "b \<noteq> [] \<Longrightarrow> bnd (or_token (Some (hexlify b)) m) k h = k (hexlify b) h"
  by (simp add: or_token_def hexlify_Nil bnd_def ret_def)

lemma dir_ready_fs [simp]: "dir_ready (h\<lparr>host_fs := f\<rparr>) = dir_ready h"
  by (simp add: dir_ready_def fun_eq_iff)

text \<open>Up to the generator every such call goes the same way.\<close>

lemma provision_base_lengths:
  "provision_base env args h idb shs \<Longrightarrow> length idb = 16 \<and> length shs = 32"
  by (auto simp: provision_base_def provision_refusal_def PROV_ID_LEN_def PROV_DIGEST_LEN_def str_len_ascii
      split: if_splits)

lemma provision_main_steps:
  assumes call: "provision_base env args h idb shs"
    and gen: "gen (gen_command env args (host_fs h))
        ((host_fs h)(csv_file env \<mapsto> nvs_csv args (hexlify idb) (hexlify shs))) = (Inr res, fs')"
  shows "provision_main gen env args h
    = provision_finish env args (hexlify idb) (hexlify shs) (csv_file env) res ((with_tmp env h)\<lparr>host_fs := fs'\<rparr>)"
proof -
  have ne: "idb \<noteq> []" "shs \<noteq> []" using provision_base_lengths [OF call] by auto
  obtain script where script: "find_nvs_partition_gen env (host_fs h) = Some script"
    using call by (auto simp: provision_base_def)
  define h1 where "h1 = (with_tmp env h)\<lparr>host_fs := (host_fs h)(csv_file env \<mapsto> nvs_csv args (hexlify idb) (hexlify shs))\<rparr>"
  have csv: "write_nvs_csv (csv_file env) (hexlify idb) (hexlify shs) (parg_wifi_ssid args) (parg_wifi_pass args)
      (parg_id_a args) (with_tmp env h) = (Inr (), h1)"
    using write_nvs_csv_ok [of "with_tmp env h" "csv_file env"] call
    by (simp add: provision_base_def h1_def nvs_csv_def with_tmp_def)
  have im: "generate_nvs_image gen script (find_idf_python env (host_fs h) (parg_idf_python args)) (csv_file env)
      (parg_out_bin args) NVS_PARTITION_SIZE h1 = (Inr res, (with_tmp env h)\<lparr>host_fs := fs'\<rparr>)"
    using gen script by (simp add: generate_nvs_image_def h1_def gen_command_def)
  show ?thesis
    using call ne script csv im
    by (simp add: provision_main_def or_token_given provision_base_def Let_def
        csv_file_def [symmetric] with_tmp_def [symmetric] seq_Inr [where m = "write_nvs_csv a b c d e f" for a b c d e f]
        bnd_Inr [where m = "generate_nvs_image a b c d e f" for a b c d e f])
qed

lemma provision_main_ok:
  assumes gen: "image_built gen env args h idb shs img" and call: "provision_call env args h ida idb shs"
  shows "\<exists>h' t. provision_main gen env args h = (Inr (), h')
    \<and> host_fs h' = (host_fs h)(csv_file env \<mapsto> nvs_csv args (hexlify idb) (hexlify shs),
        parg_out_bin args \<mapsto> img, parg_server_identity args \<mapsto> t)
    \<and> host_dirs h' = tmp_dir env # host_dirs h
    \<and> loads t = Inr (PDict [(''id_b'', PStr (hexlify idb))])
    \<and> take 5 (csv_parse (nvs_csv args (hexlify idb) (hexlify shs))) = pinned_rows idb shs ida"
proof -
  have base: "provision_base env args h idb shs" and ida: "parg_id_a args = Some (hexlify ida)"
    using call by (simp_all add: provision_call_def)
  let ?csv = "nvs_csv args (hexlify idb) (hexlify shs)"
  define fs1 where "fs1 = (host_fs h)(csv_file env \<mapsto> ?csv)"
  have parse: "take 5 (csv_parse ?csv) = pinned_rows idb shs ida"
    unfolding nvs_csv_def nvs_rows_parse ida by (simp add: nvs_rows_def pinned_rows_def)
  obtain out er where g: "gen (gen_command env args (host_fs h)) fs1 = (Inr (0, out, er), fs1(parg_out_bin args \<mapsto> img))"
    using gen by (auto simp: image_built_def Let_def fs1_def)
  define h2 where "h2 = (with_tmp env h)\<lparr>host_fs := fs1(parg_out_bin args \<mapsto> img)\<rparr>"
  have w: "can_write h2 (parg_server_identity args)" "dir_ready h2 (parg_server_identity args)"
    using call by (simp_all add: provision_call_def h2_def)
  obtain t where t: "write_identity (parg_server_identity args) (hexlify idb) h2
      = (Inr (), h2\<lparr>host_fs := (host_fs h2)(parg_server_identity args \<mapsto> t)\<rparr>)"
    "loads t = Inr (PDict [(''id_b'', PStr (hexlify idb))])"
    using write_identity_ok [OF w provision_call_lengths(1) [OF call]] by blast
  define h3 where "h3 = h2\<lparr>host_fs := (host_fs h2)(parg_server_identity args \<mapsto> t)\<rparr>"
  have size: "host_fs h3 (parg_out_bin args) = Some img"
    using call by (simp add: h3_def h2_def provision_call_def)
  have fin: "provision_finish env args (hexlify idb) (hexlify shs) (csv_file env) (0, out, er) h2
      = (Inr (), h3\<lparr>stdout := stdout h3 @ report_lines args (hexlify idb) (hexlify shs) (length img)\<rparr>)"
    using t(1) size call
    by (simp add: provision_finish_def seq_Inr [where m = "write_identity q b" for q b] h3_def [symmetric]
        keep_csv_def provision_call_def getsize_def bnd_getr print_lines_eq)
  have main: "provision_main gen env args h = (Inr (), h3\<lparr>stdout := stdout h3
      @ report_lines args (hexlify idb) (hexlify shs) (length img)\<rparr>)"
    using provision_main_steps [where gen = gen, OF base g [unfolded fs1_def]] fin by (simp add: h2_def fs1_def)
  show ?thesis
    unfolding main
    by (intro exI [of _ t] exI conjI parse t(2))
      (rule refl, simp_all add: h3_def h2_def fs1_def with_tmp_def)
qed

text \<open>An identity path without a directory stops the tool after the image has been made.\<close>

lemma provision_bare_path:
  assumes "provision_base env args h idb shs"
    and "gen (gen_command env args (host_fs h))
        ((host_fs h)(csv_file env \<mapsto> nvs_csv args (hexlify idb) (hexlify shs))) = (Inr (0, out, er), fs')"
    and "CHR ''/'' \<notin> set (parg_server_identity args)" and "[] \<notin> set (host_dirs (with_tmp env h))"
  shows "\<exists>h'. provision_main gen env args h = (Inl (LibRaised FileNotFoundKind), h')
    \<and> host_fs h' = fs' \<and> stdout h' = stdout h"
proof -
  let ?h = "(with_tmp env h)\<lparr>host_fs := fs'\<rparr>"
  have "makedirs [] ?h = (Inl (LibRaised FileNotFoundKind), ?h)"
    by (rule makedirs_empty [OF refl]) (use assms(4) in simp)
  then have "write_identity (parg_server_identity args) (hexlify idb) ?h = (Inl (LibRaised FileNotFoundKind), ?h)"
    by (simp add: write_identity_def dirname_bare [OF assms(3)] seq_def bnd_def)
  then show ?thesis
    unfolding provision_main_steps [where gen = gen, OF assms(1,2)]
    by (simp add: provision_finish_def seq_def bnd_def with_tmp_def)
qed

end
