(* ===== verification/Tool_Props.thy ===== *)
theory Tool_Props
  imports Tool_Laws
begin

text \<open>
  Properties of the two command-line tools: together they enrol a device with the service, and the
  provisioning tool fails half way on an identity path without a directory. The parameter of the
  second tool, the ESP-IDF generator, is instantiated by one whose image is the rows themselves.
\<close>

section \<open>A generator and a machine\<close>

definition demo_gen :: generator where
  "demo_gen cmd fs = (case fs (cmd ! 3) of None \<Rightarrow> (Inr (1, [], []), fs)
     | Some t \<Rightarrow> (Inr (0, [], []), fs(cmd ! 4 \<mapsto> t)))"

definition demo_env :: idf_env where
  "demo_env = \<lparr>env_idf_path = Some ''/idf'', esp_listing = None, sys_executable = ''python'', tmp_dir = ''/tmp/p'',
     project_root = ''/rot''\<rparr>"

definition demo_script :: string where
  "demo_script = ''/idf/components/nvs_flash/nvs_partition_generator/nvs_partition_gen.py''"

definition demo_host :: host where
  "demo_host = io.extend blank_io \<lparr>host_fs = [demo_script \<mapsto> ''''], host_dirs = [''/srv''], stdout = [], stderr = []\<rparr>"

definition demo_provision :: "string \<Rightarrow> provision_args" where
  "demo_provision identity = \<lparr>parg_id_b = Some (hexlify (replicate 16 4)), parg_shs_b = Some (hexlify (replicate 32 3)),
     parg_id_a = Some (hexlify (replicate 16 1)), parg_wifi_ssid = None, parg_wifi_pass = None,
     parg_out_bin = ''/srv/out.bin'', parg_server_identity = identity, parg_idf_python = None, parg_keep_csv = False\<rparr>"

definition demo_register :: register_args where
  "demo_register = \<lparr>arg_registry = ''/srv/reg.json'', arg_server_identity = ''/srv/id.json'',
     arg_id_a = Some (hexlify (replicate 16 1)), arg_pk_a = Some (hexlify (ec_public ref_lib (replicate 32 2))),
     arg_label = None, arg_shs_b = Some (hexlify (replicate 32 3)), arg_remove = None, arg_list = False\<rparr>"

lemma demo_paths: "csv_file demo_env = ''/tmp/p/server_ref.csv''" "dirname ''/tmp/p/server_ref.csv'' = ''/tmp/p''"
  "dirname ''/srv/id.json'' = ''/srv''" "dirname ''/srv'' = ''/''" "dirname ''/srv/reg.json'' = ''/srv''"
  "rstrip_slash ''/'' = ''''" "rstrip_slash ''/srv/id.json'' = ''/srv/id.json''"
  "rstrip_slash ''/srv/reg.json'' = ''/srv/reg.json''" "rstrip_slash ''/tmp/p/server_ref.csv'' = ''/tmp/p/server_ref.csv''"
  by code_simp+

lemma demo_find: "find_nvs_partition_gen demo_env (host_fs demo_host) \<noteq> None"
proof -
  have "map (\<lambda>c. path_joins c [''components'', ''nvs_flash'', ''nvs_partition_generator'', ''nvs_partition_gen.py''])
      (gen_candidates demo_env) = [demo_script]"
    by code_simp
  then show ?thesis by (simp only: find_nvs_partition_gen_def) (simp add: demo_host_def io.defs)
qed

lemma demo_refusal:
  "provision_refusal (demo_provision p) (hexlify (replicate 16 4)) (hexlify (replicate 32 3)) = None"
  by (simp add: provision_refusal_def demo_provision_def PROV_ID_LEN_def PROV_DIGEST_LEN_def str_len_ascii)

lemma demo_tmp: "host_dirs (with_tmp demo_env demo_host) = [''/tmp/p'', ''/srv'']"
  by (simp add: with_tmp_def demo_env_def demo_host_def io.defs)

lemma demo_base: "provision_base demo_env (demo_provision p) demo_host (replicate 16 4) (replicate 32 3)"
  unfolding provision_base_def
  using demo_refusal demo_find
  by (simp add: demo_provision_def can_write_iff is_dir_def demo_paths demo_tmp)

lemma demo_call: "provision_call demo_env (demo_provision ''/srv/id.json'') demo_host (replicate 16 1) (replicate 16 4) (replicate 32 3)"
  unfolding provision_call_def
  using demo_base
  by (simp add: demo_provision_def can_write_iff dir_ready_def is_dir_def demo_paths demo_tmp)

lemma demo_built: "image_built demo_gen demo_env (demo_provision p) demo_host idb shs
    (nvs_csv (demo_provision p) (hexlify idb) (hexlify shs))"
  by (simp add: image_built_def demo_gen_def gen_command_def Let_def demo_provision_def)

section \<open>Enrolment\<close>

text \<open>
  C9: the tools and the service fit together. Take a run of the provisioning tool whose generator
  succeeds, then a registration, with the same verifier and on any registry of JSON values. Both
  succeed. The rows the generator was given pin the server's identity, the verifier and the device's
  identity under the firmware's namespace; the service starts with the identity that was provisioned;
  every other entry of the registry is the one that was there (its keys sorted). And a device with that
  identity is enrolled with the sessions of that service, which is what the agreement of the handshake
  needs, exactly if it holds the two pinned values and its key pair is the registered one. So a device
  that flashing the image has made enrol its key anew, as the firmware's documentation warns, is not
  enrolled until its new key is registered.
\<close>

theorem tools_enrol_device:
  assumes gen: "image_built gen env pargs h idb shs img" and call: "provision_call env pargs h ida idb shs"
    and reg_call: "register_call rargs h ida pk shs" and shs: "arg_shs_b rargs = Some (hexlify shs)"
    and reg: "load_node_registry (host_fs h) (arg_registry rargs) = Inr (PDict d)" and plain: "json_plain (PDict d)"
    and w: "can_write (with_tmp env h) (arg_registry rargs)"
    and same: "arg_server_identity rargs = parg_server_identity pargs"
    and paths: "distinct [csv_file env, parg_out_bin pargs, parg_server_identity pargs, arg_registry rargs]"
  shows "\<exists>h1 h2 csv reg. provision_main gen env pargs h = (Inr (), h1) \<and> register_main pr rargs h1 = (Inr (), h2)
    \<and> host_fs h2 (parg_out_bin pargs) = Some img
    \<and> host_fs h2 (csv_file env) = Some csv \<and> take 5 (csv_parse csv) = pinned_rows idb shs ida
    \<and> puf_server_start (host_fs h2) (parg_server_identity pargs) (arg_registry rargs) = Inr (idb, reg)
    \<and> (\<forall>k. k \<noteq> hexlify ida \<longrightarrow> get_or k PNone reg = Inr (case map_of d k of None \<Rightarrow> PNone | Some e \<Rightarrow> sort_keys e))
    \<and> (\<forall>L dev conn. dev_id dev = ida \<longrightarrow> length (dev_challenge dev) = 16 \<longrightarrow>
         enrolled L (new_rot_session conn idb reg) dev
           = (dev_id_b dev = idb \<and> dev_shs_b dev = Some shs \<and> ec_public L (dev_sk dev) = pk))"
proof -
  obtain h1 t where p: "provision_main gen env pargs h = (Inr (), h1)"
    and fs1: "host_fs h1 = (host_fs h)(csv_file env \<mapsto> nvs_csv pargs (hexlify idb) (hexlify shs),
        parg_out_bin pargs \<mapsto> img, parg_server_identity pargs \<mapsto> t)"
    and dirs: "host_dirs h1 = tmp_dir env # host_dirs h"
    and t: "loads t = Inr (PDict [(''id_b'', PStr (hexlify idb))])"
    and csv: "take 5 (csv_parse (nvs_csv pargs (hexlify idb) (hexlify shs))) = pinned_rows idb shs ida"
    using provision_main_ok [OF gen call] by blast
  have len: "length idb = 16" "length shs = 32" "length ida = 16" "length pk = 65"
    using provision_call_lengths [OF call] reg_call by (simp_all add: register_call_def)
  have call1: "register_call rargs h1 ida pk shs"
    using reg_call shs len by (auto simp: register_call_def hexlify_Nil)
  have reg1: "load_node_registry (host_fs h1) (arg_registry rargs) = Inr (PDict d)"
    using reg paths by (cases "host_fs h (arg_registry rargs)") (auto simp: load_node_registry_def read_json_def fs1)
  have "is_dir h1 = is_dir (with_tmp env h)" using dirs by (simp add: is_dir_def with_tmp_def fun_eq_iff)
  then have w1: "can_write h1 (arg_registry rargs)" using w by (simp add: can_write_iff)
  obtain r h2 u label new where m: "register_main pr rargs h1 = (r, h2)"
    and fs2: "host_fs h2 = (host_fs h1)(arg_registry rargs \<mapsto> u)"
    and new: "new = dict_set (hexlify ida) (node_registration (hexlify pk) (hexlify shs) label) d" "dict_ok new"
    and u: "loads u = Inr (PDict (sort_members new))"
    and r: "case fst (read_id_b (arg_server_identity rargs) h2) of Inl e \<Rightarrow> r = Inl e | Inr v \<Rightarrow> r = Inr ()"
    using register_main_ok [OF call1 reg1 plain w1, of pr] by metis
  have idfile: "host_fs h2 (parg_server_identity pargs) = Some t" using fs1 fs2 paths by auto
  then have "r = Inr ()"
    using r same t by (simp add: read_id_b_def isfile_def json_load_def read_json_def bnd_getr lift_def)
  moreover have "puf_server_start (host_fs h2) (parg_server_identity pargs) (arg_registry rargs)
      = Inr (idb, PDict (sort_members new))"
    using write_identity_loads [of idb "host_fs h2", OF len(1) idfile t] u fs2
    by (simp add: puf_server_start_def load_node_registry_def read_json_def)
  moreover have "host_fs h2 (parg_out_bin pargs) = Some img"
    "host_fs h2 (csv_file env) = Some (nvs_csv pargs (hexlify idb) (hexlify shs))"
    using fs1 fs2 paths by auto
  moreover have "get_or k PNone (PDict (sort_members new)) = Inr (case map_of d k of None \<Rightarrow> PNone | Some e \<Rightarrow> sort_keys e)"
    if "k \<noteq> hexlify ida" for k
    using registered_entry(2) [OF new(2,1) len(4,2) that] by (cases "map_of d k") simp_all
  moreover obtain entry where "map_of (sort_members new) (hexlify ida) = Some entry"
    "hex_field ''pk_a'' 65 entry = Inr pk" "hex_field ''shs_b'' 32 entry = Inr shs"
    using registered_entry(1) [OF new(2,1) len(4,2)] by blast
  then have "enrolled L (new_rot_session conn idb (PDict (sort_members new))) dev
      = (dev_id_b dev = idb \<and> dev_shs_b dev = Some shs \<and> ec_public L (dev_sk dev) = pk)"
    if "dev_id dev = ida" "length (dev_challenge dev) = 16" for L dev conn
    using that len by (auto simp: enrolled_def new_rot_session_def io.defs)
  ultimately show ?thesis using p m csv by blast
qed

lemma tools_enrol_device_witness:
  "\<exists>h1 h2 reg. provision_main demo_gen demo_env (demo_provision ''/srv/id.json'') demo_host = (Inr (), h1)
    \<and> register_main (\<lambda>_. False) demo_register h1 = (Inr (), h2)
    \<and> puf_server_start (host_fs h2) ''/srv/id.json'' ''/srv/reg.json'' = Inr (replicate 16 4, reg)"
proof -
  have c: "register_call demo_register demo_host (replicate 16 1) (ec_public ref_lib (replicate 32 2)) (replicate 32 3)"
    using ec_okD(1) [OF ec_ok_ref_lib, of "replicate 32 2"]
    by (simp add: register_call_def demo_register_def hexlify_Nil) (simp add: ref_lib_def)
  have r: "load_node_registry (host_fs demo_host) (arg_registry demo_register) = Inr (PDict [])"
    by (simp add: load_node_registry_def demo_host_def demo_register_def demo_script_def io.defs)
  have w: "can_write (with_tmp demo_env demo_host) (arg_registry demo_register)"
    by (simp add: can_write_iff is_dir_def demo_paths demo_tmp demo_register_def)
  have f: "arg_registry demo_register = ''/srv/reg.json''"
    "parg_server_identity (demo_provision ''/srv/id.json'') = ''/srv/id.json''"
    by (simp_all add: demo_register_def demo_provision_def)
  have s: "arg_shs_b demo_register = Some (hexlify (replicate 32 3))"
    "arg_server_identity demo_register = parg_server_identity (demo_provision ''/srv/id.json'')"
    "distinct [csv_file demo_env, parg_out_bin (demo_provision ''/srv/id.json''),
       parg_server_identity (demo_provision ''/srv/id.json''), arg_registry demo_register]"
    by (simp_all add: demo_register_def demo_provision_def demo_paths)
  from tools_enrol_device [OF demo_built demo_call c s(1) r _ w s(2,3), of "\<lambda>_. False"]
  show ?thesis unfolding f by (fastforce simp only: json_plain.simps list.map distinct.simps simp_thms json_plain_members.simps)
qed

section \<open>An identity path without a directory\<close>

text \<open>
  C40: if \<open>--server-identity\<close> is a bare file name, the provisioning tool generates the image and then
  dies with \<open>FileNotFoundError\<close>, because \<open>os.makedirs\<close> is called with the empty directory name; the
  identity file is not written, and nothing is reported.
\<close>

theorem bare_identity_path_fails:
  assumes "provision_base env args h idb shs"
    and "gen (gen_command env args (host_fs h))
        ((host_fs h)(csv_file env \<mapsto> nvs_csv args (hexlify idb) (hexlify shs))) = (Inr (0, out, er), fs')"
    and "CHR ''/'' \<notin> set (parg_server_identity args)" and "[] \<notin> set (host_dirs (with_tmp env h))"
  shows "\<exists>h'. provision_main gen env args h = (Inl (LibRaised FileNotFoundKind), h')
    \<and> host_fs h' = fs' \<and> stdout h' = stdout h"
  using provision_bare_path [where gen = gen, OF assms] .

lemma bare_identity_path_fails_witness:
  "\<exists>h'. provision_main demo_gen demo_env (demo_provision ''id.json'') demo_host = (Inl (LibRaised FileNotFoundKind), h')
    \<and> host_fs h' ''id.json'' = None \<and> host_fs h' ''/srv/out.bin'' \<noteq> None"
proof -
  let ?fs = "(host_fs demo_host)(csv_file demo_env \<mapsto> nvs_csv (demo_provision ''id.json'') (hexlify (replicate 16 4))
      (hexlify (replicate 32 3)))"
  have g: "demo_gen (gen_command demo_env (demo_provision ''id.json'') (host_fs demo_host)) ?fs
    = (Inr (0, [], []), ?fs(''/srv/out.bin'' \<mapsto> nvs_csv (demo_provision ''id.json'') (hexlify (replicate 16 4))
      (hexlify (replicate 32 3))))"
    by (simp add: demo_gen_def gen_command_def demo_provision_def)
  have "?fs ''id.json'' = None" by (simp add: demo_paths demo_host_def demo_script_def io.defs)
  then show ?thesis
    using bare_identity_path_fails [where gen = demo_gen, OF demo_base g]
    by (fastforce simp: demo_tmp demo_provision_def)
qed

end
