(* ===== verification/Report.thy ===== *)
theory Report
  imports Pc_Client Csv
begin

text \<open>
  \<open>smg_primary_server/generate_methodology_csv.py\<close>: the table made of the results of one run of the
  PC client. The input is the record that \<open>run_client\<close> returns, which the client's script writes to
  \<open>pc_client_results.json\<close> and this script reads back; its numbers are ints. \<open>statistics.mean\<close> and
  \<open>statistics.stdev\<close> are the exact computations of Python 3.11 and later: the deviation is the
  square root of a fraction, rounded to odd with at least 109 bits' headroom before the one
  rounding to a float.
\<close>

section \<open>Statistics of ints\<close>

function isqrt :: "int \<Rightarrow> int" where
  "isqrt n = (if n \<le> 0 then 0
     else let r = 2 * isqrt (n div 4) in if (r + 1) * (r + 1) \<le> n then r + 1 else r)"
  by pat_completeness auto
termination
  by (relation "measure nat") auto

declare isqrt.simps [simp del]

function bit_length :: "int \<Rightarrow> int" where
  "bit_length n = (if n \<le> 0 then 0 else bit_length (n div 2) + 1)"
  by pat_completeness auto
termination
  by (relation "measure nat") auto

declare bit_length.simps [simp del]

definition sqrt_frac_rto :: "int \<Rightarrow> int \<Rightarrow> int" where
  \<comment> \<open>the root of \<open>n / m\<close> as an int, rounded to odd\<close>
  "sqrt_frac_rto n m = (let a = isqrt (n div m) in if a * a * m = n \<or> a mod 2 = 1 then a else a + 1)"

definition sqrt_of_frac :: "int \<Rightarrow> int \<Rightarrow> exc + pynum" where
  "sqrt_of_frac n m =
     (let q = (bit_length n - bit_length m - 109) div 2 in
      if 0 \<le> q then num_div (NInt (sqrt_frac_rto n (m * 2 ^ nat (2 * q)) * 2 ^ nat q)) (NInt 1)
      else num_div (NInt (sqrt_frac_rto (n * 2 ^ nat (- 2 * q)) m)) (NInt (2 ^ nat (- q))))"

definition stat_mean :: "int list \<Rightarrow> exc + pynum" where
  \<comment> \<open>an int if the quotient is one\<close>
  "stat_mean xs = (let t = sum_list xs; n = int (length xs)
     in if n dvd t then Inr (NInt (t div n)) else num_div (NInt t) (NInt n))"

definition variance_frac :: "int list \<Rightarrow> rat" where
  "variance_frac xs = (let n = rat_of_nat (length xs); c = of_int (sum_list xs) / n
     in sum_list (map (\<lambda>x. (of_int x - c) ^ 2) xs) / (n - 1))"

definition stat_stdev :: "int list \<Rightarrow> exc + pynum" where
  "stat_stdev xs = (case quotient_of (variance_frac xs) of (n, m) \<Rightarrow> sqrt_of_frac n m)"

fun round1 :: "pynum \<Rightarrow> pynum" where
  \<comment> \<open>\<open>round(x, 1)\<close>\<close>
  "round1 (NInt n) = NInt n"
| "round1 (NFlt x) = NFlt (fround 1 x)"

section \<open>The table\<close>

fun even_items :: "'a list \<Rightarrow> 'a list" where
  \<comment> \<open>\<open>[xs[i] for i in range(0, len(xs), 2)]\<close>\<close>
  "even_items [] = []"
| "even_items [x] = [x]"
| "even_items (x # y # xs) = x # even_items xs"

definition odd_items :: "'a list \<Rightarrow> 'a list" where
  "odd_items xs = even_items (drop 1 xs)"

definition min_or_0 :: "int list \<Rightarrow> pynum" where
  "min_or_0 xs = NInt (if xs = [] then 0 else Min (set xs))"

definition max_or_0 :: "int list \<Rightarrow> pynum" where
  "max_or_0 xs = NInt (if xs = [] then 0 else Max (set xs))"

definition mean_or_0 :: "int list \<Rightarrow> exc + pynum" where
  "mean_or_0 xs = (if xs = [] then Inr (NInt 0) else stat_mean xs)"

definition stdev_or_0 :: "int list \<Rightarrow> exc + pynum" where
  "stdev_or_0 xs = (if 1 < length xs then stat_stdev xs else Inr (NInt 0))"

type_synonym report_row = "string \<times> pynum \<times> string"

definition methodology_rows :: "pc_metrics \<Rightarrow> exc + report_row list" where
  "methodology_rows results =
     (let p4_lat = p4_latencies results; p4_count = p4_done results;
          uncontended = even_items p4_lat; contended = odd_items p4_lat;
          p4_total = sum_list p4_lat in
      rbind (if 0 < p4_count then num_div (NInt p4_total) (NInt p4_count) else Inr (NInt 0)) (\<lambda>p4_avg.
      rbind (stdev_or_0 p4_lat) (\<lambda>p4_stddev.
      rbind (mean_or_0 uncontended) (\<lambda>uncontended_avg.
      rbind (stdev_or_0 uncontended) (\<lambda>uncontended_stddev.
      rbind (mean_or_0 contended) (\<lambda>contended_avg.
      Inr [(''P2 (Root of Trust)'', NInt (p2_duration_us results), ''us''),
           (''P3 (Session Establishment)'', NInt (p3_duration_us results), ''us''),
           (''Handshake Total (P2+P3)'', NInt (handshake_total_us results), ''us''),
           (''P4 Transactions'', NInt p4_count, ''count''),
           (''P4 Total Time'', NInt p4_total, ''us''),
           (''P4 Average Latency (all)'', round1 p4_avg, ''us''),
           (''P4 Min Latency'', min_or_0 p4_lat, ''us''),
           (''P4 Max Latency'', max_or_0 p4_lat, ''us''),
           (''P4 Std Dev (all)'', round1 p4_stddev, ''us''),
           (''P4 Uncontended Avg (baseline)'', round1 uncontended_avg, ''us''),
           (''P4 Uncontended Min'', min_or_0 uncontended, ''us''),
           (''P4 Uncontended Max'', max_or_0 uncontended, ''us''),
           (''P4 Uncontended Std Dev'', round1 uncontended_stddev, ''us''),
           (''P4 Contended Avg (server lock)'', round1 contended_avg, ''us''),
           (''P4 Contended Min'', min_or_0 contended, ''us''),
           (''P4 Contended Max'', max_or_0 contended, ''us''),
           (''P5 (Logout)'', NInt (p5_duration_us results), ''us''),
           (''Errors'', NInt (int (length (pc_errors results))), ''count'')]))))))"

text \<open>The file: a header and one line per row; a float is written as its \<open>repr\<close>.\<close>

fun cell_text :: "pynum \<Rightarrow> string" where
  "cell_text (NInt n) = int_str n"
| "cell_text (NFlt x) = float_repr x"

definition report_csv :: "report_row list \<Rightarrow> string" where
  "report_csv rows = csv_text ([''Metric'', ''Value'', ''Unit''] # map (\<lambda>(name, v, unit). [name, cell_text v, unit]) rows)"

definition methodology_csv :: "pc_metrics \<Rightarrow> exc + string" where
  "methodology_csv results = rbind (methodology_rows results) (\<lambda>rows. Inr (report_csv rows))"

section \<open>Laws\<close>

lemma isqrt_root: "0 \<le> n \<Longrightarrow> 0 \<le> isqrt n \<and> isqrt n * isqrt n \<le> n \<and> n < (isqrt n + 1) * (isqrt n + 1)"
proof (induction n rule: isqrt.induct)
  case (1 n)
  show ?case
  proof (cases "n = 0")
    case False
    define r where "r = isqrt (n div 4)"
    have r: "0 \<le> r" "r * r \<le> n div 4" "n div 4 < (r + 1) * (r + 1)"
      using 1 False by (simp_all add: r_def)
    then have "n div 4 + 1 \<le> (r + 1) * (r + 1)" by simp
    then have "4 * (r * r) \<le> n" "n < 4 * ((r + 1) * (r + 1))" using r(2) by linarith+
    moreover have "isqrt n = (if (2 * r + 1) * (2 * r + 1) \<le> n then 2 * r + 1 else 2 * r)"
      using False "1.prems" by (simp add: isqrt.simps [of n] r_def Let_def)
    ultimately show ?thesis using r(1) by (auto simp: algebra_simps)
  qed (simp add: isqrt.simps)
qed

lemma stdev_example: "stat_stdev [2, 9, 4, 100, 33, 7] = Inr (NFlt (Fin (2676757719464329 / 70368744177664)))"
  by code_simp

text \<open>The two halves are the elements at even and at odd positions.\<close>

definition every_other :: "nat \<Rightarrow> 'a list \<Rightarrow> 'a list" where
  "every_other k xs = map (\<lambda>i. xs ! i) (filter (\<lambda>i. i mod 2 = k) [0..<length xs])"

lemma filter_upt_Suc: "filter P [0..<Suc n] = (if P 0 then [0] else []) @ map Suc (filter (P \<circ> Suc) [0..<n])"
proof -
  have "[0..<Suc n] = 0 # map Suc [0..<n]" by (simp only: map_Suc_upt upt_rec [of 0 "Suc n"]) simp
  then show ?thesis by (simp add: filter_map del: upt_Suc)
qed

lemma every_other_Cons: "every_other 0 (x # xs) = x # every_other 1 xs" "every_other 1 (x # xs) = every_other 0 xs"
proof -
  have "(Suc i mod 2 = 0) = (i mod 2 = 1)" "(Suc i mod 2 = Suc 0) = (i mod 2 = 0)" for i by presburger+
  then show "every_other 0 (x # xs) = x # every_other 1 xs" "every_other 1 (x # xs) = every_other 0 xs"
    by (simp_all add: every_other_def filter_upt_Suc comp_def del: upt_Suc)
qed

lemma even_items_positions: "even_items xs = every_other 0 xs"
proof (induction xs rule: even_items.induct)
  case (3 x y xs)
  then show ?case by (simp only: even_items.simps every_other_Cons)
qed (simp_all add: every_other_def)

lemma odd_items_positions: "odd_items xs = every_other 1 xs"
proof (cases xs)
  case (Cons x ys)
  then show ?thesis using every_other_Cons(2) [of x ys] by (simp add: odd_items_def even_items_positions)
qed (simp add: odd_items_def every_other_def)

end
