(* ===== verification/Report_Props.thy ===== *)
theory Report_Props
  imports Report Whole_Session
begin

text \<open>
  The metrics of the PC client are exact whatever the server sends, and the table that the report
  script makes of them accounts for every completed exchange.
\<close>

section \<open>The metrics of a run\<close>

definition counted :: "nat \<Rightarrow> node_client \<Rightarrow> bool" where
  \<comment> \<open>at most \<open>k\<close> exchanges were completed, and the metrics account for each\<close>
  "counted k s \<longleftrightarrow> p4_done (c_metrics s) = int (length (p4_latencies (c_metrics s)))
     \<and> length (p4_latencies (c_metrics s)) \<le> k \<and> p4_sum_us (c_metrics s) = sum_list (p4_latencies (c_metrics s))"

lemma counted_simps [simp]:
  "counted k (s\<lparr>rx := a\<rparr>) = counted k s" "counted k (s\<lparr>tx := b, tx_left := c\<rparr>) = counted k s"
  "counted k (s\<lparr>entropy_pos := n\<rparr>) = counted k s" "counted k (s\<lparr>tick_pos := n\<rparr>) = counted k s"
  "counted k (s\<lparr>wall_pos := n\<rparr>) = counted k s" "counted k (s\<lparr>sock_closed := d\<rparr>) = counted k s"
  "counted k (s\<lparr>c_metrics := c_metrics s\<lparr>pc_errors := es\<rparr>\<rparr>) = counted k s"
  by (simp_all add: counted_def)

lemma counted_mono: "counted k s \<Longrightarrow> k \<le> l \<Longrightarrow> counted l s"
  by (simp add: counted_def)

lemma keeps_clocks [keeps_intro]: "keeps (counted k) pc_seconds" "keeps (counted k) ts_bytes"
  unfolding pc_seconds_def ts_bytes_def by (intro keeps_intro; simp)+

lemma keeps_counted_phases [keeps_intro]:
  "keeps (counted k) (client_p2 pr salt)" "keeps (counted k) (client_p3 L pr)" "keeps (counted k) (p4_exchange L pr raw)"
  "keeps (counted k) (client_p5 L)" "keeps (counted k) (gen_reading gauss i)" "keeps (counted k) (pc_fail lib tag e)"
  unfolding client_p2_def client_p3_def p4_exchange_def client_p5_def p2_initiator_compute_def p2_finalize_def
    p3_initiator_prepare_def p3_initiator_finalize_def p4_send_def p4_finalize_def p5_logout_initiate_def
    p5_logout_finalize_def pc_encrypt_gcm_def not_error_def gen_reading_def pc_fail_def set_metrics_def
  by (intro keeps_intro keeps_modify; simp add: counted_def)+

lemma keeps_counted_timed [keeps_intro]:
  assumes "keeps (counted k) body" and "\<And>d m. p4_done (f d m) = p4_done m \<and> p4_latencies (f d m) = p4_latencies m
    \<and> p4_sum_us (f d m) = p4_sum_us m"
  shows "keeps (counted k) (timed_phase lib tag body f)"
  unfolding timed_phase_def set_metrics_def
  by (intro keeps_intro keeps_modify assms(1); simp add: counted_def assms(2))

text \<open>One turn of the loop completes at most one exchange.\<close>

lemma turn_counts:
  assumes "counted k s" and "p4_turn L lib pr gauss i s = (r, t)"
  shows "counted (Suc k) t"
proof -
  have rec1: "counted (Suc k) v" if "counted k u" and "set_metrics (\<lambda>m. m\<lparr>p4_sum_us := p4_sum_us m + d,
      p4_done := p4_done m + 1, p4_latencies := p4_latencies m @ [d]\<rparr>) u = (q, v)" for d u q v
    using that by (auto simp: set_metrics_def modify_def counted_def)
  define body where "body raw t0 = seq (p4_exchange L pr raw) (bnd pc_seconds (\<lambda>t1. bnd (lift (duration_us t0 t1)) (\<lambda>d.
     set_metrics (\<lambda>m. m\<lparr>p4_sum_us := p4_sum_us m + d, p4_done := p4_done m + 1, p4_latencies := p4_latencies m @ [d]\<rparr>))))"
    for raw t0
  have body: "counted (Suc k) v" if u: "counted k u" and b: "body raw t0 u = (q, v)" for raw t0 u q v
  proof -
    obtain x w where x: "p4_exchange L pr raw u = (x, w)" by fastforce
    then have w: "counted k w" using keepsD [OF keeps_counted_phases(3) u] by blast
    obtain y z where y: "pc_seconds w = (y, z)" by fastforce
    then have z: "counted k z" using keepsD [OF keeps_clocks(1) w] by blast
    have up: "counted (Suc k) w" "counted (Suc k) z" using w z by (auto intro: counted_mono)
    show ?thesis
      using b x y up rec1 [OF z] by (auto simp: body_def seq_def bnd_def lift_def split: sum.splits prod.splits)
  qed
  obtain x w where x: "gen_reading gauss i s = (x, w)" by fastforce
  then have w: "counted k w" using keepsD [OF keeps_counted_phases(5) assms(1)] by blast
  obtain y z where y: "pc_seconds w = (y, z)" by fastforce
  then have z: "counted k z" using keepsD [OF keeps_clocks(1) w] by blast
  have up: "counted (Suc k) w" "counted (Suc k) z" using w z by (auto intro: counted_mono)
  define rest where "rest raw t0 = try_else (body raw t0)
    (\<lambda>e. seq (pc_fail lib (''P4 #'' @ int_str (int i + 1) @ '': '') e) (ret False)) (\<lambda>_. ret True)" for raw t0
  have tail: "counted (Suc k) v" if r: "rest raw t0 z = (q, v)" for raw t0 q v
  proof -
    obtain p u where p: "body raw t0 z = (p, u)" by fastforce
    have "keeps (counted (Suc k)) (seq (pc_fail lib (''P4 #'' @ int_str (int i + 1) @ '': '') e) (ret False))" for e
      by (intro keeps_intro)
    with r p body [OF z p] show ?thesis
      by (cases p) (auto simp: rest_def try_else_def ret_def dest: keepsD)
  qed
  have "p4_turn L lib pr gauss i = bnd (gen_reading gauss i) (\<lambda>sensor_data.
      bnd (lift (dumps (PDict sensor_data))) (\<lambda>text. bnd pc_seconds (rest (str_bytes text))))"
    unfolding p4_turn_def rest_def body_def ..
  then show ?thesis
    using assms(2) x y up tail
    by (auto simp: bnd_def lift_def
        simp del: dumps.simps split: sum.splits)
qed

lemma loop_counts: "counted k s \<Longrightarrow> p4_loop L lib pr gauss is s = (r, t) \<Longrightarrow> counted (k + length is) t"
proof (induction "is" arbitrary: k s)
  case (Cons i "is")
  obtain q u where q: "p4_turn L lib pr gauss i s = (q, u)" by fastforce
  have u: "counted (Suc k) u" by (rule turn_counts [OF Cons.prems(1) q])
  show ?case
    using Cons.IH [OF u] Cons.prems(2) q counted_mono [OF u]
    by (auto simp: bnd_def ret_def split: sum.splits if_splits)
qed (simp add: ret_def)

text \<open>A run that returns metrics has closed its socket.\<close>

lemma timed_false_closes:
  assumes "timed_phase lib tag body f s = (Inr False, t)"
  shows "sock_closed t"
  using assms
  by (auto simp: timed_phase_def try_else_def bnd_def seq_def sock_close_def modify_def ret_def split: sum.splits prod.splits)

lemma session_counts:
  assumes "client_session L lib pr gauss salt n s = (Inr m, t)" and "c_metrics s = pc_no_metrics"
  shows "m = c_metrics t \<and> counted n t \<and> sock_closed t"
proof -
  have zero: "counted 0 s" using assms(2) by (simp add: counted_def pc_no_metrics_def)
  obtain q2 s2 where p2: "timed_phase lib ''P2: '' (client_p2 pr salt) (\<lambda>d m. m\<lparr>p2_duration_us := d\<rparr>) s = (q2, s2)" by fastforce
  have "keeps (counted 0) (timed_phase lib ''P2: '' (client_p2 pr salt) (\<lambda>d m. m\<lparr>p2_duration_us := d\<rparr>))"
    by (intro keeps_counted_timed keeps_counted_phases) simp
  from keepsD [OF this zero p2] have c2: "counted 0 s2" .
  show ?thesis
  proof (cases "q2 = Inr True")
    case False
    then show ?thesis
      using assms(1) p2 c2 timed_false_closes
      by (cases q2) (auto simp: client_session_def bnd_def gets_def intro: counted_mono)
  next
    case True
    obtain q3 s3 where p3: "timed_phase lib ''P3: '' (client_p3 L pr) (\<lambda>d m. m\<lparr>p3_duration_us := d\<rparr>) s2 = (q3, s3)" by fastforce
    have "keeps (counted 0) (timed_phase lib ''P3: '' (client_p3 L pr) (\<lambda>d m. m\<lparr>p3_duration_us := d\<rparr>))"
      by (intro keeps_counted_timed keeps_counted_phases) simp
    from keepsD [OF this c2 p3] have c3: "counted 0 s3" .
    show ?thesis
    proof (cases "q3 = Inr True")
      case False
      then show ?thesis
        using assms(1) p2 True p3 c3 timed_false_closes
        by (cases q3) (auto simp: client_session_def bnd_def gets_def intro: counted_mono)
    next
      case t3: True
      define s4 where "s4 = s3\<lparr>c_active := True, c_metrics := (c_metrics s3)\<lparr>handshake_total_us :=
        p2_duration_us (c_metrics s3) + p3_duration_us (c_metrics s3)\<rparr>\<rparr>"
      have c4: "counted 0 s4" using c3 by (simp add: counted_def s4_def)
      obtain q5 s5 where p4: "p4_loop L lib pr gauss [0..<n] s4 = (q5, s5)" by fastforce
      have c5: "counted n s5" using loop_counts [OF c4 p4] by simp
      obtain q6 s6 where p5: "client_logout L lib s5 = (q6, s6)" by fastforce
      have "keeps (counted n) (client_logout L lib)"
        unfolding client_logout_def set_metrics_def
        by (intro keeps_intro keeps_modify; simp add: counted_def)
      from keepsD [OF this c5 p5] have c6: "counted n s6" .
      show ?thesis
        using assms(1) p2 True p3 t3 p4 p5 c6
        by (auto simp: client_session_def bnd_def seq_def gets_def set_metrics_def modify_def sock_close_def
            s4_def [symmetric] split: sum.splits)
    qed
  qed
qed

section \<open>The table\<close>

lemma num_div_ints: "num_div (NInt a) (NInt b) = Inl e \<Longrightarrow> b \<noteq> 0 \<Longrightarrow> e = LibRaised OverflowKind"
  by (auto simp: num_div_def split: pyfloat.splits)

lemma sqrt_error: "sqrt_of_frac n m = Inl e \<Longrightarrow> e = LibRaised OverflowKind"
  by (auto simp: sqrt_of_frac_def Let_def dest: num_div_ints split: if_splits)

lemma stat_errors:
  "mean_or_0 xs = Inl e \<Longrightarrow> e = LibRaised OverflowKind" "stdev_or_0 xs = Inl e \<Longrightarrow> e = LibRaised OverflowKind"
  by (auto simp: mean_or_0_def stat_mean_def stdev_or_0_def stat_stdev_def Let_def dest: num_div_ints sqrt_error
      split: if_splits prod.splits)

definition cell :: "report_row list \<Rightarrow> string \<Rightarrow> pynum option" where
  "cell rows name = map_option fst (map_of rows name)"

text \<open>
  What a table says of a list of times: the rows of the least and the greatest one, the row of their
  average (an int if it is one, else a float rounded to one decimal); all are 0 for the empty list.
\<close>

definition extremes :: "report_row list \<Rightarrow> string \<Rightarrow> string \<Rightarrow> int list \<Rightarrow> bool" where
  "extremes rows low high xs \<longleftrightarrow> (\<exists>a b. cell rows low = Some (NInt a) \<and> cell rows high = Some (NInt b)
     \<and> (if xs = [] then a = 0 \<and> b = 0 else a \<in> set xs \<and> b \<in> set xs \<and> (\<forall>x \<in> set xs. a \<le> x \<and> x \<le> b)))"

definition averages :: "report_row list \<Rightarrow> string \<Rightarrow> int list \<Rightarrow> bool" where
  "averages rows name xs \<longleftrightarrow> cell rows name = Some
     (if xs = [] then NInt 0
      else if int (length xs) dvd sum_list xs then NInt (sum_list xs div int (length xs))
      else NFlt (fround 1 (fl (of_int (sum_list xs) / of_nat (length xs)))))"

lemma extremesI: "cell rows low = Some (min_or_0 xs) \<Longrightarrow> cell rows high = Some (max_or_0 xs) \<Longrightarrow> extremes rows low high xs"
  by (auto simp: extremes_def min_or_0_def max_or_0_def)

lemma num_div_float: "num_div (NInt a) (NInt b) = Inr x \<Longrightarrow> x = NFlt (fl (of_int a / of_int b))"
  by (auto simp: num_div_def split: if_splits pyfloat.splits)

lemma averagesI: "mean_or_0 xs = Inr a \<Longrightarrow> cell rows name = Some (round1 a) \<Longrightarrow> averages rows name xs"
  by (auto simp: averages_def mean_or_0_def stat_mean_def Let_def dest: num_div_float split: if_splits)

lemma table_rows:
  assumes "methodology_rows m = Inr rows" and "p4_done m = int (length (p4_latencies m))"
  shows "cell rows ''P4 Average Latency (all)'' = Some (if p4_latencies m = [] then NInt 0
      else NFlt (fround 1 (fl (of_int (sum_list (p4_latencies m)) / of_nat (length (p4_latencies m))))))"
    "extremes rows ''P4 Min Latency'' ''P4 Max Latency'' (p4_latencies m)"
    "extremes rows ''P4 Uncontended Min'' ''P4 Uncontended Max'' (even_items (p4_latencies m))"
    "extremes rows ''P4 Contended Min'' ''P4 Contended Max'' (odd_items (p4_latencies m))"
    "averages rows ''P4 Uncontended Avg (baseline)'' (even_items (p4_latencies m))"
    "averages rows ''P4 Contended Avg (server lock)'' (odd_items (p4_latencies m))"
    "cell rows ''P4 Transactions'' = Some (NInt (int (length (p4_latencies m))))"
    "cell rows ''P4 Total Time'' = Some (NInt (sum_list (p4_latencies m)))"
    "cell rows ''Handshake Total (P2+P3)'' = Some (NInt (handshake_total_us m))"
    "cell rows ''Errors'' = Some (NInt (int (length (pc_errors m))))"
proof -
  obtain avg sd ua us ca where
    avg: "(if 0 < p4_done m then num_div (NInt (sum_list (p4_latencies m))) (NInt (p4_done m)) else Inr (NInt 0)) = Inr avg"
    and ua: "mean_or_0 (even_items (p4_latencies m)) = Inr ua" and ca: "mean_or_0 (odd_items (p4_latencies m)) = Inr ca"
    and rows: "rows = [(''P2 (Root of Trust)'', NInt (p2_duration_us m), ''us''),
           (''P3 (Session Establishment)'', NInt (p3_duration_us m), ''us''),
           (''Handshake Total (P2+P3)'', NInt (handshake_total_us m), ''us''),
           (''P4 Transactions'', NInt (p4_done m), ''count''),
           (''P4 Total Time'', NInt (sum_list (p4_latencies m)), ''us''),
           (''P4 Average Latency (all)'', round1 avg, ''us''),
           (''P4 Min Latency'', min_or_0 (p4_latencies m), ''us''),
           (''P4 Max Latency'', max_or_0 (p4_latencies m), ''us''),
           (''P4 Std Dev (all)'', round1 sd, ''us''),
           (''P4 Uncontended Avg (baseline)'', round1 ua, ''us''),
           (''P4 Uncontended Min'', min_or_0 (even_items (p4_latencies m)), ''us''),
           (''P4 Uncontended Max'', max_or_0 (even_items (p4_latencies m)), ''us''),
           (''P4 Uncontended Std Dev'', round1 us, ''us''),
           (''P4 Contended Avg (server lock)'', round1 ca, ''us''),
           (''P4 Contended Min'', min_or_0 (odd_items (p4_latencies m)), ''us''),
           (''P4 Contended Max'', max_or_0 (odd_items (p4_latencies m)), ''us''),
           (''P5 (Logout)'', NInt (p5_duration_us m), ''us''),
           (''Errors'', NInt (int (length (pc_errors m))), ''count'')]"
    using assms(1) unfolding methodology_rows_def Let_def by (auto simp: rbind_Inr_iff)
  show "cell rows ''P4 Average Latency (all)'' = Some (if p4_latencies m = [] then NInt 0
      else NFlt (fround 1 (fl (of_int (sum_list (p4_latencies m)) / of_nat (length (p4_latencies m))))))"
    using avg assms(2) by (auto simp: rows cell_def dest: num_div_float split: if_splits)
  show "extremes rows ''P4 Min Latency'' ''P4 Max Latency'' (p4_latencies m)"
    "extremes rows ''P4 Uncontended Min'' ''P4 Uncontended Max'' (even_items (p4_latencies m))"
    "extremes rows ''P4 Contended Min'' ''P4 Contended Max'' (odd_items (p4_latencies m))"
    by (rule extremesI; simp add: rows cell_def)+
  show "averages rows ''P4 Uncontended Avg (baseline)'' (even_items (p4_latencies m))"
    "averages rows ''P4 Contended Avg (server lock)'' (odd_items (p4_latencies m))"
    by (rule averagesI [OF ua], simp add: rows cell_def) (rule averagesI [OF ca], simp add: rows cell_def)
  show "cell rows ''P4 Transactions'' = Some (NInt (int (length (p4_latencies m))))"
    "cell rows ''P4 Total Time'' = Some (NInt (sum_list (p4_latencies m)))"
    "cell rows ''Handshake Total (P2+P3)'' = Some (NInt (handshake_total_us m))"
    "cell rows ''Errors'' = Some (NInt (int (length (pc_errors m))))"
    using assms(2) by (simp_all add: rows cell_def)
qed

text \<open>
  C39: the report accounts for every exchange. Whatever the server sends, a run of the PC client that
  returns metrics has closed its socket, counts at most the requested number of exchanges and has one
  latency for each; and the script makes of these metrics a table whose count, total and average are
  those of the latencies, whose least and greatest latency are the least and the greatest one of the
  run, and whose rows of the uncontended and the contended half have the extremes and the average of
  the latencies at even and at odd positions, counted from 0. It fails only with \<open>OverflowError\<close>, on
  times beyond the range of a float.
\<close>

theorem report_accounts:
  assumes "run_client L lib pr gauss tcp_ok conn node_id key salt n = (Inr (Some m), c)"
  shows "sock_closed c \<and> p4_done m = int (length (p4_latencies m)) \<and> length (p4_latencies m) \<le> n
    \<and> p4_sum_us m = sum_list (p4_latencies m)
    \<and> (case methodology_rows m of
         Inl e \<Rightarrow> e = LibRaised OverflowKind
       | Inr rows \<Rightarrow> cell rows ''P4 Transactions'' = Some (NInt (int (length (p4_latencies m))))
           \<and> cell rows ''P4 Total Time'' = Some (NInt (p4_sum_us m))
           \<and> cell rows ''P4 Average Latency (all)'' = Some (if p4_latencies m = [] then NInt 0
               else NFlt (fround 1 (fl (of_int (p4_sum_us m) / of_nat (length (p4_latencies m))))))
           \<and> extremes rows ''P4 Min Latency'' ''P4 Max Latency'' (p4_latencies m)
           \<and> extremes rows ''P4 Uncontended Min'' ''P4 Uncontended Max'' (every_other 0 (p4_latencies m))
           \<and> averages rows ''P4 Uncontended Avg (baseline)'' (every_other 0 (p4_latencies m))
           \<and> extremes rows ''P4 Contended Min'' ''P4 Contended Max'' (every_other 1 (p4_latencies m))
           \<and> averages rows ''P4 Contended Avg (server lock)'' (every_other 1 (p4_latencies m))
           \<and> cell rows ''Errors'' = Some (NInt (int (length (pc_errors m)))))"
proof -
  obtain s where s: "client_session L lib pr gauss salt n s = (Inr m, c)" "c_metrics s = pc_no_metrics"
    using assms
    by (auto simp: run_client_def Let_def new_client_def p1_provision_def bnd_def ret_def io.defs
        split: if_splits sum.splits prod.splits)
  from session_counts [OF s] have m: "sock_closed c" "p4_done m = int (length (p4_latencies m))"
    "length (p4_latencies m) \<le> n" "p4_sum_us m = sum_list (p4_latencies m)"
    by (auto simp: counted_def)
  show ?thesis
  proof (cases "methodology_rows m")
    case (Inl e)
    then have "e = LibRaised OverflowKind"
      using m(2) by (auto simp: methodology_rows_def Let_def rbind_def dest: stat_errors num_div_ints
          split: sum.splits if_splits)
    then show ?thesis using m Inl by simp
  next
    case (Inr rows)
    then show ?thesis
      using m table_rows [OF Inr m(2)] unfolding even_items_positions odd_items_positions by simp
  qed
qed

text \<open>A run of three exchanges with the responder, and the rows of a table.\<close>

lemma demo_run:
  "\<exists>x m c. run_client ref_lib (\<lambda>_. []) (\<lambda>_. False) demo_gauss True (blank_io\<lparr>rx := x\<rparr>)
      (replicate 16 9) (replicate 32 8) (replicate 16 7) 3 = (Inr (Some m), c) \<and> length (p4_latencies m) = 3"
proof -
  have "\<exists>fa fb m c s es.
      (\<forall>x. concat x = concat fa \<and> [] \<notin> set x \<longrightarrow>
         run_client ref_lib (\<lambda>_. []) (\<lambda>_. False) demo_gauss True (blank_io\<lparr>rx := x\<rparr>)
           (replicate 16 9) (replicate 32 8) (replicate 16 7) 3 = (Inr (Some m), c))
    \<and> length (p4_latencies m) = 3"
    using whole_session [OF aead_ok_ref_lib, where h = "hexlify (replicate 16 7)" and lbl = "''n1''"
      and en = "\<lparr>entry_salt = Some (hexlify (replicate 16 7)), entry_label = Some ''n1''\<rparr>"
      and reg = "[(hexlify (replicate 16 9), \<lparr>entry_salt = Some (hexlify (replicate 16 7)), entry_label = Some ''n1''\<rparr>)]"
      and nid = "replicate 16 9" and salt = "replicate 16 7" and sid = "[]" and a = blank_io and b = blank_io
      and gauss = demo_gauss and n = 3 and dst = demo_store and em = new_ems and lib = "\<lambda>_. []" and pr = "\<lambda>_. False"
      and key = "replicate 32 8"]
    by (fastforce simp: open_tx_def clocks_ok_def blank_io_def demo_undisputed ems_ok_new)
  then obtain fa m c where f: "\<And>x. concat x = concat fa \<Longrightarrow> [] \<notin> set x \<Longrightarrow>
      run_client ref_lib (\<lambda>_. []) (\<lambda>_. False) demo_gauss True (blank_io\<lparr>rx := x\<rparr>)
        (replicate 16 9) (replicate 32 8) (replicate 16 7) 3 = (Inr (Some m), c)" "length (p4_latencies m) = 3"
    by metis
  have "concat (filter (\<lambda>b. b \<noteq> []) fa) = concat fa" by (induction fa) auto
  then show ?thesis using f(1) [of "filter (\<lambda>b. b \<noteq> []) fa"] f(2) by auto
qed

lemma report_accounts_witness:
  "\<exists>x m c. run_client ref_lib (\<lambda>_. []) (\<lambda>_. False) demo_gauss True (blank_io\<lparr>rx := x\<rparr>)
      (replicate 16 9) (replicate 32 8) (replicate 16 7) 3 = (Inr (Some m), c)
    \<and> sock_closed c \<and> p4_done m = 3 \<and> length (p4_latencies m) = 3 \<and> p4_sum_us m = sum_list (p4_latencies m)
    \<and> (case methodology_rows m of Inl e \<Rightarrow> e = LibRaised OverflowKind
       | Inr rows \<Rightarrow> extremes rows ''P4 Contended Min'' ''P4 Contended Max'' [p4_latencies m ! 1])"
proof -
  obtain x m c where r: "run_client ref_lib (\<lambda>_. []) (\<lambda>_. False) demo_gauss True (blank_io\<lparr>rx := x\<rparr>)
      (replicate 16 9) (replicate 32 8) (replicate 16 7) 3 = (Inr (Some m), c)" "length (p4_latencies m) = 3"
    using demo_run by blast
  have "every_other 1 (p4_latencies m) = [p4_latencies m ! 1]"
    unfolding every_other_def r(2) by (simp add: upt_rec)
  with report_accounts [OF r(1)] r show ?thesis
    by (intro exI [of _ x] exI [of _ m] exI [of _ c]) (auto split: sum.splits)
qed

end
