(* ===== verification/Pc_Script.thy ===== *)
theory Pc_Script
  imports Tool_Host Pc_Client
begin

text \<open>
  The script part of \<open>smg_primary_server/pc_client.py\<close>, from its parsed arguments on: the node is
  looked up in the registry by its label, the client runs, and the metrics of a run that connected
  are written to \<open>pc_client_results.json\<close>. The surroundings of the run (\<open>conn\<close>, \<open>tcp_ok\<close>) are
  parameters, as in \<open>run_client\<close>.
\<close>

definition metrics_json :: "pc_metrics \<Rightarrow> pyval" where
  "metrics_json m = PDict
     [(''p2_duration_us'', PInt (p2_duration_us m)), (''p3_duration_us'', PInt (p3_duration_us m)),
      (''p4_total_us'', PInt (p4_sum_us m)), (''p4_count'', PInt (p4_done m)),
      (''p5_duration_us'', PInt (p5_duration_us m)), (''handshake_total_us'', PInt (handshake_total_us m)),
      (''p4_latencies'', PList (map PInt (p4_latencies m))), (''errors'', PList (map PStr (pc_errors m)))]"

definition RESULTS_FILE :: string where "RESULTS_FILE = ''pc_client_results.json''"

definition write_results :: "pc_metrics \<Rightarrow> unit tool" where
  "write_results m =
     seq (open_w RESULTS_FILE)
     (bnd (lift (pretty 0 (metrics_json m))) (\<lambda>text.
     file_write RESULTS_FILE text))"

definition pc_script ::
  "cryptolib \<Rightarrow> (exc_kind \<Rightarrow> string) \<Rightarrow> (nat \<Rightarrow> bool) \<Rightarrow> (nat \<Rightarrow> pyfloat) \<Rightarrow> bool \<Rightarrow> io
   \<Rightarrow> string \<Rightarrow> string \<Rightarrow> nat \<Rightarrow> unit tool" where
  "pc_script L lib pr gauss tcp_ok conn registry_path label sends =
     bnd (json_load registry_path) (\<lambda>reg.
     bnd (lift (client_identity label reg)) (\<lambda>(node_id, node_key, node_salt).
     bnd (lift (fst (run_client L lib pr gauss tcp_ok conn node_id node_key node_salt sends))) (\<lambda>metrics.
     case metrics of
       None \<Rightarrow> ret ()
     | Some m \<Rightarrow> write_results m)))"

section \<open>The results file\<close>

lemma plain_ints: "(\<And>n. n \<in> set ns \<Longrightarrow> length (dec_str \<bar>n\<bar>) \<le> 4300) \<Longrightarrow> json_plain_items (map PInt ns)"
  by (induction ns) auto

lemma plain_strs: "(\<And>s. s \<in> set ss \<Longrightarrow> ascii s) \<Longrightarrow> json_plain_items (map PStr ss)"
  by (induction ss) auto

definition printable_metrics :: "pc_metrics \<Rightarrow> bool" where
  \<comment> \<open>ints within the interpreter's limit on digits, and ASCII error texts\<close>
  "printable_metrics m \<longleftrightarrow> (\<forall>n \<in> {p2_duration_us m, p3_duration_us m, p4_sum_us m, p4_done m, p5_duration_us m,
       handshake_total_us m} \<union> set (p4_latencies m). length (dec_str \<bar>n\<bar>) \<le> 4300)
     \<and> (\<forall>s \<in> set (pc_errors m). ascii s)"

lemma metrics_plain: "printable_metrics m \<Longrightarrow> json_plain (metrics_json m)"
  by (simp add: metrics_json_def printable_metrics_def plain_ints plain_strs)

text \<open>What the report script loads from the file is the dict of the run's metrics.\<close>

lemma results_read_back:
  assumes "printable_metrics m" and "can_write h RESULTS_FILE"
  shows "\<exists>h'. write_results m h = (Inr (), h') \<and> read_json (host_fs h') RESULTS_FILE = Inr (metrics_json m)"
proof -
  obtain t where "write_results m h = (Inr (), h\<lparr>host_fs := (host_fs h)(RESULTS_FILE \<mapsto> t)\<rparr>)"
    "loads t = Inr (metrics_json m)"
    using pretty_read_back [OF metrics_plain [OF assms(1)] assms(2)] by (auto simp: write_results_def)
  then show ?thesis by (simp add: read_json_def)
qed

end
