(* ===== verification/Store_Export.thy ===== *)
theory Store_Export
  imports Data_Store Tool_Host
begin

text \<open>
  \<open>DataStore.export_json\<close>: the buffers, or those of one node, written to a file as indented JSON.
  The file holds the store: what \<open>json.load\<close> reads from it are the last readings of each node's log.
  Under the lock the method copies the buffers, the file is written after it; the copies are values
  here. A value that JSON cannot represent makes the dump raise; the model then leaves the file empty, while
  \<open>json.dump\<close>, which writes as it encodes, leaves the text up to that value.
\<close>

definition export_json :: "string \<Rightarrow> string option \<Rightarrow> data_store \<Rightarrow> unit tool" where
  "export_json path node_label s =
     (let data = export_data node_label s in
      seq (open_w path)
      (bnd (lift (pretty 0 (PDict (map (\<lambda>(l, rs). (l, PList (map PDict rs))) data)))) (\<lambda>text.
       file_write path text)))"

section \<open>Dumped values\<close>

lemma plain_dicts: "json_plain_items (map PDict rs) \<longleftrightarrow> (\<forall>r \<in> set rs. json_plain (PDict r))"
  by (induction rs) auto

lemma plain_stamp: "json_plain (PDict r) \<Longrightarrow> json_plain (PDict (stamp now r))"
proof -
  have "ascii ''server_ts''" by code_simp
  moreover assume "json_plain (PDict r)"
  ultimately show ?thesis
    by (auto simp: stamp_def dict_setdefault_def json_plain_members_iff dict_set_fresh map_of_eq_None_iff)
qed

lemma plain_log:
  assumes "\<forall>(now, l, r) \<in> set ops. json_plain (PDict r)"
  shows "\<forall>r \<in> set (node_log n ops). json_plain (PDict r)"
  using assms plain_stamp by (auto simp: node_log_def simp del: json_plain.simps)

lemma plain_take:
  assumes "\<forall>(now, l, r) \<in> set ops. ascii l \<and> json_plain (PDict r)"
  shows "json_plain (PList (map PDict (take_last cap (node_log l ops))))"
proof -
  have "\<forall>r \<in> set (node_log l ops). json_plain (PDict r)"
    using assms by (intro plain_log) (auto simp del: json_plain.simps)
  then have "\<forall>r \<in> set (take_last cap (node_log l ops)). json_plain (PDict r)"
    by (auto simp: take_last_def dest: in_set_dropD simp del: json_plain.simps)
  then show ?thesis by (simp add: plain_dicts del: json_plain.simps(8))
qed

text \<open>What the dict of an export maps a label to.\<close>

lemma map_of_dump: "map_of (map (\<lambda>(l, rs). (l, PList (map PDict rs))) d) l = map_option (\<lambda>rs. PList (map PDict rs)) (map_of d l)"
  by (induction d) auto

lemma buffers_run:
  "map_of (buffers (store_after cap ops)) l
    = (if node_log l ops = [] then None else Some (take_last cap (node_log l ops)))"
proof -
  let ?s = "store_after cap ops"
  have ok: "store_ok cap ?s" by (simp add: store_after_run st.good_run)
  have "get_latest l ?s = None \<longleftrightarrow> map_of (buffers ?s) l = None"
    using ok by (simp add: get_latest_def store_ok_def map_of_None_keys del: set_map)
  moreover have "get_latest l ?s = None \<longleftrightarrow> node_log l ops = []" by (simp add: store_after_run st.look_run)
  moreover have "buffer_of l ?s = take_last cap (node_log l ops)" by (simp add: store_after_run st.buf_run)
  ultimately show ?thesis by (auto simp: buffer_of_def split: option.splits)
qed

definition exported :: "rec_call list \<Rightarrow> string option \<Rightarrow> string \<Rightarrow> bool" where
  \<comment> \<open>the labels of an export: the one that was asked for, or every label with a reading\<close>
  "exported ops node l \<longleftrightarrow> (if node \<in> {None, Some []} then node_log l ops \<noteq> [] else node = Some l)"

lemma export_data_run:
  "map_of (export_data node (store_after cap ops)) l
    = (if exported ops node l then Some (take_last cap (node_log l ops)) else None)"
  using buffers_run [of cap ops]
  by (cases node) (auto simp: export_data_def exported_def split: option.split)

lemma ascii_label:
  assumes "\<forall>(now, l, r) \<in> set ops. ascii l \<and> json_plain (PDict r)" and "\<forall>l. node = Some l \<longrightarrow> ascii l"
  shows "exported ops node l \<Longrightarrow> ascii l"
  using assms by (auto simp: exported_def node_log_def filter_empty_conv split: if_splits)

lemma export_data_ok: "dict_ok (export_data node (store_after cap ops))"
proof -
  have "store_ok cap (store_after cap ops)" by (simp add: store_after_run st.good_run)
  then show ?thesis by (auto simp: export_data_def store_ok_def split: option.split)
qed

section \<open>The exported file\<close>

text \<open>
  C20: an export holds the store. After any history of \<open>record\<close> calls of readings that JSON can
  represent, \<open>export_json\<close> to a path that can be written succeeds, leaves every other file as it was,
  and \<open>json.load\<close> of the file gives a dict whose labels are those that were asked for, each with the
  last readings of its log, at most the capacity, every value (floats included) as it was recorded.
\<close>

theorem export_read_back:
  assumes plain: "\<forall>(now, l, r) \<in> set ops. ascii l \<and> json_plain (PDict r)" and node: "\<forall>l. node = Some l \<longrightarrow> ascii l"
    and w: "can_write h path"
  shows "\<exists>h' d. export_json path node (store_after cap ops) h = (Inr (), h')
    \<and> (\<forall>q. q \<noteq> path \<longrightarrow> host_fs h' q = host_fs h q)
    \<and> read_json (host_fs h') path = Inr (PDict d)
    \<and> (\<forall>l. map_of d l = (if exported ops node l
          then Some (PList (map PDict (take_last cap (node_log l ops)))) else None))"
proof -
  define d where "d = map (\<lambda>(l, rs). (l, PList (map PDict rs))) (export_data node (store_after cap ops))"
  have get: "map_of d l = (if exported ops node l
      then Some (PList (map PDict (take_last cap (node_log l ops)))) else None)" for l
    by (simp add: d_def map_of_dump export_data_run)
  have "dict_keys d = dict_keys (export_data node (store_after cap ops))"
    by (simp add: d_def split_beta comp_def)
  then have ok: "dict_ok d" using export_data_ok by simp
  have "ascii l \<and> json_plain v" if "(l, v) \<in> set d" for l v
    using get [of l] that ok ascii_label [OF plain node] plain_take [of ops cap l] plain
    by (auto split: if_splits simp del: json_plain.simps)
  then have "json_plain (PDict d)" using ok by (auto simp: json_plain_members_iff)
  from pretty_read_back [OF this w] obtain t where t: "loads t = Inr (PDict d)"
    "export_json path node (store_after cap ops) h = (Inr (), h\<lparr>host_fs := (host_fs h)(path \<mapsto> t)\<rparr>)"
    by (auto simp: export_json_def Let_def d_def)
  then show ?thesis using get by (intro exI [of _ d] exI conjI) (auto simp: read_json_def)
qed


definition export_host :: host where
  "export_host = io.extend blank_io \<lparr>host_fs = Map.empty, host_dirs = [''/srv''], stdout = [], stderr = []\<rparr>"

lemma export_read_back_witness:
  "\<exists>h' d. export_json ''/srv/x.json'' (Some ''a'')
      (store_after 1 [(0, ''a'', [(''V_bus'', PFloat (Fin (35 / 2)))]), (1, ''a'', [(''V_bus'', PFloat (Fin (37 / 2)))])]) export_host
      = (Inr (), h')
    \<and> read_json (host_fs h') ''/srv/x.json'' = Inr (PDict d)
    \<and> map_of d ''a'' = Some (PList [PDict [(''V_bus'', PFloat (Fin (37 / 2))), (''server_ts'', PFloat (fl 1))]])"
proof -
  let ?ops = "[(0, ''a'', [(''V_bus'', PFloat (Fin (35 / 2)))]), (1, ''a'', [(''V_bus'', PFloat (Fin (37 / 2)))])] :: rec_call list"
  have "double (35 / 2)" "double (37 / 2)" "ascii ''a''" "ascii ''V_bus''" by code_simp+
  then have p: "\<forall>(now, l, r) \<in> set ?ops. ascii l \<and> json_plain (PDict r)" "\<forall>l. Some ''a'' = Some l \<longrightarrow> ascii l" by simp_all
  have w: "can_write export_host ''/srv/x.json''"
    by (simp add: can_write_iff is_dir_def export_host_def io.defs dirname_def) code_simp
  from export_read_back [OF p w, of 1] obtain h' d where
    "export_json ''/srv/x.json'' (Some ''a'') (store_after 1 ?ops) export_host = (Inr (), h')"
    "read_json (host_fs h') ''/srv/x.json'' = Inr (PDict d)"
    "map_of d ''a'' = Some (PList (map PDict (take_last 1 (node_log ''a'' ?ops))))"
    by (auto simp: exported_def)
  then show ?thesis by (auto simp: node_log_def stamp_def dict_setdefault_def take_last_def)
qed

end
