(* ===== verification/Ems_Untrusted.thy ===== *)
theory Ems_Untrusted
  imports Ems
begin

text \<open>
  What the coordinator stores for a node of trust 0. The membership functions of the bus voltage and
  of the demand overlap, so within their range some UNTRUSTED rule fires with strength at least 1/4;
  outside it no rule fires.
\<close>

section \<open>The functions overlap\<close>

definition strong :: "exc + pyfloat \<Rightarrow> bool" where
  "strong r \<longleftrightarrow> (\<exists>m. r = Inr m \<and> fle (Fin (1 / 4)) m)"

lemma rnd_quarter: "rnd (1 / 4) = 1 / 4"
  by code_simp

lemma strong_ratio:
  assumes "rnd c = c" and "0 < c" and "c \<le> x - a" and "0 < d" and "d \<le> 4 * c"
  shows "strong (fdiv (fsub (Fin x) (Fin a)) (Fin d))"
proof -
  have "fle (Fin c) (fl (x - a))" using assms(1-3) by (intro fl_ge) simp_all
  moreover have "1 / 4 \<le> y / d" if "c \<le> y" for y
    using that assms(4,5) by (simp add: field_simps)
  then have "fle (Fin (1 / 4)) (fl (y / d))" if "c \<le> y" for y
    using that by (intro fl_ge rnd_quarter) simp_all
  ultimately show ?thesis using assms(4) by (cases "fl (x - a)") (auto simp: strong_def fsub_def)
qed

lemma slopes:
  "fsub (Fin (- 3602879701896397 / 18014398509481984)) (Fin (- 3602879701896397 / 4503599627370496))
     = Fin (1351079888211149 / 2251799813685248)"
  "fsub (Fin (3602879701896397 / 4503599627370496)) (Fin (3602879701896397 / 18014398509481984))
     = Fin (1351079888211149 / 2251799813685248)"
  "fsub (Fin 0) (Fin (- 3602879701896397 / 4503599627370496)) = Fin (3602879701896397 / 4503599627370496)"
  "fsub (Fin (3602879701896397 / 4503599627370496)) (Fin 0) = Fin (3602879701896397 / 4503599627370496)"
  "fsub (Fin 40) (Fin 20) = Fin 20" "fsub (Fin 50) (Fin 20) = Fin 30" "fsub (Fin 80) (Fin 50) = Fin 30"
  "fsub (Fin 80) (Fin 60) = Fin 20" "fsub (Fin 0) (Fin (- 10)) = Fin 10"
  by code_simp+

lemma strong_one: "strong (Inr (Fin 1))"
  by (simp add: strong_def)

text \<open>Between 3 V below and 3 V above nominal, one of the three error sets holds.\<close>

lemma vbe_covered:
  assumes "- 3 < x" and "x < 3"
  shows "strong (vbe_low (Fin x)) \<or> strong (vbe_med (Fin x)) \<or> strong (vbe_high (Fin x))"
proof -
  consider "x \<le> - 1 / 2" | "- 1 / 2 < x" "x \<le> 0" | "0 < x" "x < 1 / 2" | "1 / 2 \<le> x" by linarith
  then show ?thesis
  proof cases
    case 1
    then have "strong (vbe_low (Fin x))"
      using assms unfolding vbe_low_def trapf_def fl_consts slopes
      by (auto simp: strong_one simp del: fdiv.simps intro!: strong_ratio [OF rnd_quarter])
    then show ?thesis by simp
  next
    case 2
    then have "strong (vbe_med (Fin x))"
      unfolding vbe_med_def trimf_def fl_consts slopes
      by (auto simp del: fdiv.simps intro!: strong_ratio [OF rnd_quarter])
    then show ?thesis by simp
  next
    case 3
    then have "strong (vbe_med (Fin x))"
      unfolding vbe_med_def trimf_def fl_consts slopes
      by (auto simp del: fdiv.simps intro!: strong_ratio [OF rnd_quarter])
    then show ?thesis by simp
  next
    case 4
    then have "strong (vbe_high (Fin x))"
      using assms unfolding vbe_high_def trapf_def fl_consts slopes
      by (auto simp: strong_one simp del: fdiv.simps intro!: strong_ratio [OF rnd_quarter])
    then show ?thesis by simp
  qed
qed

lemma rnd_ten: "rnd 10 = 10"
  by code_simp

lemma pd_covered:
  assumes "0 \<le> x" and "x < 150"
  shows "strong (pd_low (Fin x)) \<or> strong (pd_med (Fin x)) \<or> strong (pd_high (Fin x))"
proof -
  consider "x \<le> 30" | "30 < x" "x \<le> 70" | "70 < x" by linarith
  then show ?thesis
  proof cases
    case 1
    then have "strong (pd_low (Fin x))"
      using assms unfolding pd_low_def trapf_def slopes
      by (auto simp: strong_one simp del: fdiv.simps intro!: strong_ratio [OF rnd_ten])
    then show ?thesis by simp
  next
    case 2
    then have "strong (pd_med (Fin x))"
      unfolding pd_med_def trimf_def slopes
      by (auto simp del: fdiv.simps intro!: strong_ratio [OF rnd_ten])
    then show ?thesis by simp
  next
    case 3
    then have "strong (pd_high (Fin x))"
      using assms unfolding pd_high_def trapf_def slopes
      by (auto simp: strong_one simp del: fdiv.simps intro!: strong_ratio [OF rnd_ten])
    then show ?thesis by simp
  qed
qed

lemma covered_rule:
  assumes "strong (vbe_low v) \<or> strong (vbe_med v) \<or> strong (vbe_high v)"
    and "strong (pd_low p) \<or> strong (pd_med p) \<or> strong (pd_high p)"
  shows "\<exists>r s. r \<in> set (take 9 RULES) \<and> rule_strength v p (Fin 0) r = Inr s \<and> fle (Fin (1 / 4)) s"
proof -
  obtain vbe where vbe: "vbe \<in> {vbe_low, vbe_med, vbe_high}" "strong (vbe v)" using assms(1) by blast
  obtain pd where pd: "pd \<in> {pd_low, pd_med, pd_high}" "strong (pd p)" using assms(2) by blast
  have "(tr_untrusted, vbe, pd, ZERO) \<in> set (take 9 RULES)"
    using vbe(1) pd(1) by (auto simp: RULES_def)
  moreover have "\<exists>s. rule_strength v p (Fin 0) (tr_untrusted, vbe, pd, ZERO) = Inr s \<and> fle (Fin (1 / 4)) s"
    using vbe(2) pd(2) trust_memberships by (auto simp: strong_def rule_strength_def pymin_def)
  ultimately show ?thesis by blast
qed

section \<open>The inference at trust 0\<close>

lemma fired_positive:
  assumes "v \<noteq> NaN" and "p \<noteq> NaN"
    and "r \<in> set (take 9 RULES)" and "rule_strength v p (Fin 0) r = Inr s" and "fle (Fin (1 / 4)) s"
  shows "\<exists>x. fuzzy_infer v p (Fin 0) = Inr x \<and> flt (Fin 0) (clamp (fround 1 x))"
proof -
  define A where "A = take 9 RULES"
  have sil: "\<forall>r \<in> set (take 9 (drop 9 RULES) @ drop 18 RULES). silent v p (Fin 0) r"
    using tiers_subset RULES_tiers trust_memberships assms(1,2) by (auto intro!: silentI)
  have A: "fuzzy_infer v p (Fin 0) = infer_with A v p (Fin 0)"
    using infer_silent [of "[]" "take 9 (drop 9 RULES) @ drop 18 RULES" v p "Fin 0" A] sil
    unfolding fuzzy_infer_def A_def by (metis RULES_tiers(1) append_Nil list.set(1) sup_bot_left)
  have zero: "snd (snd (snd r)) = ZERO" if "r \<in> set A" for r
    using that by (auto simp: A_def RULES_def)
  have unit: "is_unit (rule_strength v p (Fin 0) r)" if "r \<in> set A" for r
    using that tiers_subset(1) assms(1,2) by (intro rule_strength_unit) (auto simp: A_def)
  obtain ag where ag: "rfold (rule_step v p (Fin 0)) (replicate (length universe) (Fin 0)) A = Inr ag"
    using rules_ok [OF unit agg_ok_start] by blast
  have start: "zero_agg (replicate (length universe) (Fin 0))"
    using agg_ok_start by (simp add: zero_agg_def)
  from zero_rules [OF _ start ag] zero unit have "zero_agg ag" "fle (Fin (1 / 4)) (ag ! 10)"
    using assms(3-5) unfolding A_def by blast+
  from zero_agg_centroid [OF this] show ?thesis
    using A ag fround_positive by (auto simp: infer_with_def)
qed

lemma untrusted_infer:
  assumes "v \<noteq> NaN" and "fle (Fin 0) p" and "fuzzy_infer v p (Fin 0) = Inr x"
  shows "if flt (Fin (- 3)) v \<and> flt v (Fin 3) \<and> flt p (Fin 150) then flt (Fin 0) (clamp (fround 1 x)) else x = Fin 0"
proof (cases "flt (Fin (- 3)) v \<and> flt v (Fin 3) \<and> flt p (Fin 150)")
  case True
  then obtain a b where ab: "v = Fin a" "p = Fin b" using assms(2) by (cases v; cases p) auto
  obtain r s where "r \<in> set (take 9 RULES)" "rule_strength v p (Fin 0) r = Inr s" "fle (Fin (1 / 4)) s"
    using covered_rule [OF vbe_covered pd_covered] True assms(2) unfolding ab by fastforce
  from fired_positive [OF _ _ this] True assms(3) ab show ?thesis by auto
next
  case False
  have "p \<noteq> NaN" using assms(2) by auto
  moreover have "fle (Fin 3) v \<or> fle v (Fin (- 3)) \<or> fle (Fin 150) p \<or> fle p (Fin (- 10))"
    using False assms(1,2) by (cases v; cases p) auto
  ultimately have "fuzzy_infer v p (Fin 0) = Inr (Fin 0)" using assms(1) by (intro out_of_coverage_zero) simp_all
  then show ?thesis using False assms(3) by auto
qed

section \<open>The update\<close>

lemma set_node:
  "get_setpoint m (e\<lparr>setpoints := dict_set n sp (setpoints e), last_update := dict_set n now (last_update e)\<rparr>)
    = (if m = n then Some sp else get_setpoint m e)"
  by (simp add: get_setpoint_def)

lemma update_others:
  "update_nodes now v p rs e = (q, e') \<Longrightarrow> n \<notin> fst ` set rs \<Longrightarrow> get_setpoint n e' = get_setpoint n e"
proof (induction now v p rs arbitrary: e rule: update_nodes.induct)
  case (2 now v p node reading rest)
  then show ?case
    by (auto simp: bnd_def lift_def seq_def modify_def Let_def set_node split: sum.splits)
qed (simp add: ret_def)

text \<open>A node gets the inference at its own trust.\<close>

lemma update_own:
  assumes "update_nodes now v p rs e = (Inr (), e')" and "dict_ok rs" and "map_of rs n = Some r"
  shows "\<exists>t x. fuzzy_input (field ''trust_score'' (PFloat (Fin 1)) r) = Inr t \<and> fuzzy_infer v p t = Inr x
    \<and> get_setpoint n e' = Some (clamp (fround 1 x))"
  using assms
proof (induction now v p rs arbitrary: e rule: update_nodes.induct)
  case (2 now v p node reading rest)
  obtain t x where t: "fuzzy_input (field ''trust_score'' (PFloat (Fin 1)) reading) = Inr t" "fuzzy_infer v p t = Inr x"
    using "2.prems"(1) by (auto simp: bnd_def lift_def split: sum.splits)
  define u where "u = e\<lparr>setpoints := dict_set node (clamp (fround 1 x)) (setpoints e),
    last_update := dict_set node now (last_update e)\<rparr>"
  have u: "update_nodes now v p rest u = (Inr (), e')"
    using "2.prems"(1) t by (simp add: bnd_def lift_def seq_def modify_def Let_def u_def)
  show ?case
  proof (cases "n = node")
    case True
    then have "get_setpoint n e' = get_setpoint n u" using update_others [OF u] "2.prems"(2) by simp
    also have "\<dots> = Some (clamp (fround 1 x))" unfolding u_def set_node using True by simp
    finally show ?thesis using t True "2.prems"(3) by auto
  next
    case False
    then show ?thesis using "2.IH" [OF refl u] "2.prems"(2,3) by simp
  qed
qed simp

text \<open>
  C32: when an untrusted node is sent to 0 W. After an update that did not raise, with a total demand
  that is not negative, the setpoint of a node whose latest reading carries trust 0 is strictly
  positive exactly if the mean bus voltage is less than 3 V off nominal and the demand is below 150 W:
  the centroid of the output set ZERO, which reaches up to 10 W. Otherwise it is 0.
\<close>

theorem untrusted_setpoint:
  assumes upd: "ems_update now ds e = (Inr (), e')" and ok: "dict_ok (latest ds)"
    and r: "map_of (latest ds) n = Some r" and trust: "map_of r ''trust_score'' = Some (PFloat (Fin 0))"
    and inputs: "bus_inputs (latest ds) = Inr (v, p)" and p: "fle (Fin 0) p"
  shows "\<exists>sp. get_setpoint n e' = Some sp
    \<and> (if flt (Fin (- 3)) v \<and> flt v (Fin 3) \<and> flt p (Fin 150) then flt (Fin 0) sp else sp = Fin 0)"
proof -
  have ne: "latest ds \<noteq> []" using r by auto
  then have nodes: "update_nodes now v p (latest ds) e = (Inr (), e')"
    using upd inputs by (simp add: ems_update_def get_all_latest_def bnd_def lift_def)
  then have "v \<noteq> NaN" using update_nodes_nan [OF ne, of now p e] by auto
  moreover obtain x where x: "fuzzy_infer v p (Fin 0) = Inr x" "get_setpoint n e' = Some (clamp (fround 1 x))"
    using update_own [OF nodes ok r] trust by (auto simp: field_def fuzzy_input_def exact_def)
  moreover have "clamp (fround 1 (Fin 0)) = Fin 0" by code_simp
  ultimately show ?thesis using untrusted_infer [OF _ p x(1)] by (auto split: if_splits)
qed

definition demo_untrusted :: data_store where
  "demo_untrusted = store_after 5 [(0, ''n'', [(''V_bus'', PFloat (Fin 12)), (''P_bus'', PFloat (Fin 10)),
     (''trust_score'', PFloat (Fin 0))])]"

lemma demo_untrusted_update: "\<exists>e'. ems_update 1 demo_untrusted new_ems = (Inr (), e')"
proof -
  have b: "bus_inputs (latest demo_untrusted) = Inr (Fin 0, Fin 10)" by code_simp
  have l: "latest demo_untrusted = [(''n'', [(''V_bus'', PFloat (Fin 12)), (''P_bus'', PFloat (Fin 10)),
     (''trust_score'', PFloat (Fin 0)), (''server_ts'', PFloat (Fin 0))])]" by code_simp
  obtain x where "fuzzy_infer (Fin 0) (Fin 10) (Fin 0) = Inr x"
    using fired_positive [of "Fin 0" "Fin 10"] covered_rule [OF vbe_covered pd_covered, of 0 10] by fastforce
  then show ?thesis
    using b by (simp add: ems_update_def get_all_latest_def bnd_def lift_def seq_def modify_def ret_def l field_def
        fuzzy_input_def exact_def)
qed

lemma untrusted_setpoint_witness:
  "\<exists>e' sp. ems_update 1 demo_untrusted new_ems = (Inr (), e') \<and> get_setpoint ''n'' e' = Some sp \<and> flt (Fin 0) sp"
proof -
  obtain e' where e: "ems_update 1 demo_untrusted new_ems = (Inr (), e')" using demo_untrusted_update by blast
  have b: "bus_inputs (latest demo_untrusted) = Inr (Fin 0, Fin 10)" by code_simp
  have l: "map_of (latest demo_untrusted) ''n'' = Some [(''V_bus'', PFloat (Fin 12)), (''P_bus'', PFloat (Fin 10)),
     (''trust_score'', PFloat (Fin 0)), (''server_ts'', PFloat (Fin 0))]" "dict_ok (latest demo_untrusted)" by code_simp+
  from untrusted_setpoint [OF e l(2,1) _ b] obtain sp where "get_setpoint ''n'' e' = Some sp" "flt (Fin 0) sp" by auto
  with e show ?thesis by blast
qed

end
