(* ===== verification/Spec2Isabelle.thy ===== *)
theory Spec2Isabelle
  imports Session_Props Puf_Props Pc_Props Whole_Session Server_Props Tool_Props Report_Props Pc_Script Store_Export Ems_Untrusted
begin

text \<open>
  The Python side of the SMG secure microgrid, modelled and verified. The program has two servers, a
  client and three tools. The primary server (\<open>smg_primary_server/server.py\<close>) takes TCP connections of
  nodes; each runs the SecureNode protocol in a thread of its own (\<open>auth_service.py\<close>: root of trust P2,
  session P3, data P4, logout P5), over length-prefixed JSON messages (\<open>protocol.py\<close>) and HKDF, HMAC and
  AES-GCM (\<open>crypto_utils.py\<close>). Every accepted reading goes to the shared data store (\<open>data_store.py\<close>)
  together with the trust score of its session; a fuzzy coordinator (\<open>ems_coordinator.py\<close>) turns readings
  and trust into a power setpoint per node, which the session sends back. \<open>pc_client.py\<close> is a node on a
  PC. The second server (\<open>puf_server.py\<close>, \<open>rot_challenge_service.py\<close>) authenticates devices by a signed
  challenge and opens their AES-GCM messages; \<open>tools/register_puf_node.py\<close> keeps its registry,
  \<open>smg_puf_rot_node/tools/provision_server_ref.py\<close> provisions the devices, and
  \<open>generate_methodology_csv.py\<close> tabulates a run of the client.
\<close>

section \<open>How the code is modelled\<close>

text \<open>
  A Python function is an Isabelle function of the same name where HOL leaves the name free. A function
  that may raise returns \<open>exc + 'a\<close>; a method is a value of the monad \<open>('s, 'a) py\<close> of \<open>Prelude\<close>, a
  function from the object's state to a result or exception and the state after it, so that what a
  failing method has already done is kept. An object is a record that extends the record \<open>io\<close> of \<open>Sock\<close>:
  what will arrive on its socket and how the stream ends, what was sent, the operating system's
  randomness and the clocks, all fixed beforehand, so that a handler is a function of its surroundings
  and a theorem that quantifies over the state speaks of every peer, every segmentation of the stream,
  every failure to send and every random byte. Values of dynamic type are \<open>pyval\<close> (\<open>Pyval\<close>), dicts keep
  insertion order, ints are unbounded, floats are IEEE doubles with exact rational semantics and one
  rounding per operation (\<open>Pyfloat\<close>). Loops are structural recursion, or recursion whose measure is the
  number of bytes still to arrive or to be produced; the only fuel is that of the JSON parser, twice the
  length of the text plus two, and the round trip shows it to be enough for everything that is dumped.

  Hypotheses stand for code outside the repository: \<open>aead_ok\<close> and \<open>ec_ok\<close> (\<open>Cryptolib\<close>) for the
  cryptography package, \<open>short_signatures\<close> (\<open>Rot_Device\<close>) for the size of DER signatures. Signing is a
  function of the key and the digest; ECDSA draws a nonce, which no property depends on. Of the ESP-IDF
  generator of flash images nothing is assumed but that the run in question succeeded (\<open>image_built\<close>,
  \<open>Tool_Laws\<close>). SHA-256 is not a hypothesis: it is computed,
  and where security needs it collision free, the theorem exhibits the collision instead.
\<close>

section \<open>The theories\<close>

text \<open>
  Foundations. \<open>Prelude\<close>: exceptions, the monad with its rules (\<open>py_simps\<close>), the invariant calculus
  \<open>keeps\<close> and the exception calculus \<open>raises\<close>, slices, dicts. \<open>Wire\<close>: big-endian ints, hexadecimal,
  UTF-8; locale \<open>byte_codec\<close>. \<open>Sha256\<close>: FIPS 180-4; locale \<open>digest_fun\<close>. \<open>Pyfloat\<close>, \<open>Pyval\<close>, \<open>Pytext\<close>:
  floats, values, \<open>str\<close> and \<open>repr\<close>. \<open>Decimal\<close>: the text of a number; seventeen digits determine a
  double, so what \<open>repr\<close> writes has the float's value. \<open>Json\<close>, \<open>Json_Pretty\<close>: writing and reading
  JSON, and that reading undoes writing, for every float included. \<open>Csv\<close>: the same for CSV rows. \<open>Sock\<close>, \<open>Framing\<close>: sockets, and the locale \<open>framing\<close>, which
  derives from a packer and a parser that a message arrives whole however TCP cuts the stream; the three
  copies of the framing code interpret it.

  Primary server. \<open>Crypto_Utils\<close>: HMAC and HKDF equal the formulas of RFC 2104 and RFC 5869, decryption
  undoes encryption. \<open>Protocol\<close>, \<open>Tlv\<close>: messages and registers, round trips. \<open>Data_Store\<close>: the store is a
  function of the log of what was recorded (locale \<open>reading_store\<close>), and the median resists a minority; \<open>Store_Export\<close>: its file, read back.
  \<open>Ems\<close>: membership functions, rules, inference, setpoints within their bounds; \<open>Ems_Untrusted\<close>: when
  an untrusted node is given more than 0 W. \<open>Node_Session\<close>: all of
  \<open>NodeSession\<close>; \<open>Session_Laws\<close>, \<open>Trust_Laws\<close>, \<open>Sensor_Laws\<close>, \<open>Handshake_Laws\<close>: which messages P4 accepts
  and how it moves the hash chain, what the trust score does, what may be raised, what P2 and P3
  establish; \<open>Session_Props\<close>: the properties of one session. \<open>Session_Steps\<close>: the same session cut where
  its thread waits, equal to the runner. \<open>Server\<close>: \<open>SMGServer\<close> as a step relation over its threads;
  \<open>Server_Laws\<close>, \<open>Server_Props\<close>: its invariant, isolation of sessions, and a bound on their turns.

  PC client. \<open>Pc_Helpers\<close>: its copies of the helpers, equal to the server's. \<open>Pc_Client\<close>, \<open>Pc_Script\<close>: the
  initiator, the runner, the script. \<open>Pc_Agreement\<close>, \<open>Pc_Exchange\<close>, \<open>Pc_Props\<close>: phase by phase, client
  and responder accept each other's frames and finish with the same secrets and the same chain head, and
  the client's logout is never accepted. \<open>Takes\<close>: a calculus of how much of its stream a handler looks
  at, so that phases proved one by one chain over a stream; \<open>Pc_Prefix\<close>: the phases read prefixes;
  \<open>Pc_Readings\<close>: every reading the client generates is short enough to send; \<open>Pc_Delivery\<close>: it is in
  the responder's store as it was generated, and a setpoint left on the stream is skipped;
  \<open>Pc_Dialogue\<close>, \<open>Whole_Session\<close>: \<open>run_client\<close> and \<open>run_session\<close> composed, for any number of readings. \<open>Report\<close>,
  \<open>Report_Props\<close>: the table of a run.

  Root of trust. \<open>Rot_Service\<close>: \<open>RotSession\<close> and the client handler of \<open>puf_server.py\<close>; \<open>Rot_Laws\<close>: an
  authenticated session has verified a signature over its own transcript; \<open>Rot_Device\<close>: the device, from
  its Python reference \<open>FakeDevice\<close> (\<open>tests/test_rot_challenge_protocol.py\<close>), and the agreement of two
  honest ends; \<open>Rot_Props\<close>: the properties. \<open>Puf_Server\<close>, \<open>Puf_Props\<close>: the server process as a step
  relation over its threads, and that each runs as if alone. \<open>Tool_Host\<close>: files, directories and output of a tool;
  \<open>Register_Tool\<close>, \<open>Provision_Tool\<close>: the two tools; \<open>Tool_Laws\<close>, \<open>Tool_Props\<close>: what they leave in the
  files enrols the device with the service.
\<close>

section \<open>What the properties show\<close>

text \<open>
  Integrity: the audit log of a session is determined by its chain head up to a collision of SHA-256;
  P4 accepts chained messages only; a rejected message ends the session. Authentication: the service's
  key comes from a verified signature over fresh nonces; transcripts bind all their parts; honest ends
  agree, for both protocols, and the tools prepare honest ends. A whole session of the PC client with the
  responder runs to its end, each end receiving exactly what the other sends, and every reading is in the
  store as it was generated. Trust: its values, its path under
  anomalies, its effect on the inference, and the bounds of every setpoint. Data: the store refines the
  log of recorded readings, its export reads back, framing and encodings round trip, the helpers equal their standards. The
  whole server: in every interleaving the bounds and trust levels hold, sessions do not touch each other,
  the list of sessions is exact, and each session ends after at most as many turns as it has bytes to
  receive, plus one; in the root-of-trust server every thread does what it does alone. Errors: what escapes from each runner, and seven defects that the model exhibits
  (a not-a-number voltage, the logout of the PC client and the setpoint it takes for the answer, a hexadecimal error in the root-of-trust session,
  the setpoint of an untrusted node, the last zero readings, a bare path of the identity file).
\<close>

section \<open>Not modelled\<close>

text \<open>
  Logging, printing other than that of the tools, sleeping, argument parsing, and the creation of
  sockets and threads. Threads interleave at the grain of one handled message, one read of the store
  and one write of setpoints by the update loop, one status report, and in the root-of-trust server, whose
  threads share nothing that changes, one handshake or one data message; the locks of the store and the
  coordinator make their methods atomic, and a session that is stopped inside a method is not
  considered. \<open>json\<close>'s recursion limit, surrogate characters in arguments, and the order \<open>list.sort\<close>
  leaves when a not-a-number is among the values. Files are texts under one name each; permissions and
  full disks are left out. A registry entry of the primary server that is no dict, or whose label or salt
  is no string, counts as absent (\<open>registry_view\<close>), where the code raises inside P2. The firmware (\<open>smg_puf_rot_node/main\<close> and \<open>components\<close>, C on ESP-IDF) is
  outside the Python part. The tests are not modelled, except for the reference device they contain.
\<close>

end
